(* ===== verification/Prelude.thy ===== *)
theory Prelude
  imports Main "HOL-Library.Word" "HOL-Library.AList" "HOL-Library.Multiset"
begin

text \<open>
  Shared vocabulary of the development: the names of the machine types, the model of the
  hash containers of the C++ standard library, exceptions as values, and the generic
  lemmas on association lists that every component uses.
\<close>

named_theorems session_simps \<open>what each session operation does to lookups and reference sets\<close>
named_theorems wf_intros \<open>preservation of the well-formedness of containers\<close>

section \<open>Machine types\<close>

type_synonym u8 = "8 word"
type_synonym u16 = "16 word"
type_synonym u32 = "32 word"
type_synonym u64 = "64 word"
type_synonym bytes = "u8 list"

text \<open>
  \<^verbatim>\<open>get_current_time_ns\<close> (\<^verbatim>\<open>time_utils.hpp\<close>): the nanoseconds that the system clock counts since
  its epoch, cast to an unsigned word.
\<close>

definition get_current_time_ns :: "int \<Rightarrow> u64" where
  "get_current_time_ns ticks = of_int ticks"

section \<open>Hash containers\<close>

text \<open>
  \<^verbatim>\<open>std::unordered_map<std::string, T>\<close> is an association list with distinct keys
  (\<open>AList.update\<close> is \<^verbatim>\<open>m[k] = v\<close>, \<open>AList.delete\<close> is \<^verbatim>\<open>m.erase(k)\<close>, \<open>map_of\<close> is
  \<^verbatim>\<open>m.find(k)\<close>). The order in which a range-for loop visits a hash container is not
  specified by the standard: it is a value of the type below, any permutation of the keys.
  Every definition with such a loop takes it as an argument, so every theorem holds for
  whatever order the library chooses.
\<close>

type_synonym 'v umap = "(string \<times> 'v) list"

typedef hash_order = "{f :: string list \<Rightarrow> string list. \<forall>xs. mset (f xs) = mset xs}"
  by (rule exI [of _ id]) simp

setup_lifting type_definition_hash_order

lift_definition visit :: "hash_order \<Rightarrow> string list \<Rightarrow> string list" is "\<lambda>f. f" .

lift_definition insertion_order :: hash_order is "\<lambda>xs. xs" by simp

lift_definition reverse_order :: hash_order is rev by simp

lemma visit_insertion_order [simp]: "visit insertion_order xs = xs"
  by transfer simp

lemma visit_reverse_order [simp]: "visit reverse_order xs = rev xs"
  by transfer simp

lemma mset_visit [simp]: "mset (visit ho xs) = mset xs"
  by transfer simp

lemma set_visit [simp]: "set (visit ho xs) = set xs"
  by (metis mset_visit set_mset_mset)

lemma distinct_visit [simp]: "distinct (visit ho xs) = distinct xs"
  by (metis mset_visit mset_eq_imp_distinct_iff)

lemma length_visit [simp]: "length (visit ho xs) = length xs"
  by (metis mset_visit size_mset)

lemma visit_Nil [simp]: "visit ho [] = []"
  by (metis length_visit length_0_conv)

lemma visit_eq_Nil [simp]: "visit ho xs = [] \<longleftrightarrow> xs = []"
  by (metis length_visit length_0_conv)

text \<open>The key-value pairs in the order the loop sees them.\<close>

definition entries :: "hash_order \<Rightarrow> 'v umap \<Rightarrow> (string \<times> 'v) list" where
  "entries ho m = map (\<lambda>k. (k, the (map_of m k))) (visit ho (map fst m))"

lemma map_fst_entries: "map fst (entries ho m) = visit ho (map fst m)"
  by (simp add: entries_def comp_def)

lemma in_entries_iff: "(k, v) \<in> set (entries ho m) \<longleftrightarrow> map_of m k = Some v"
proof
  assume "(k, v) \<in> set (entries ho m)"
  then have "k \<in> fst ` set m" and "v = the (map_of m k)"
    by (auto simp: entries_def)
  then show "map_of m k = Some v"
    by (metis map_of_eq_None_iff option.collapse)
next
  assume "map_of m k = Some v"
  moreover then have "k \<in> fst ` set m" by (force dest: map_of_SomeD)
  ultimately show "(k, v) \<in> set (entries ho m)"
    by (force simp: entries_def)
qed

lemma distinct_entries: "distinct (map fst m) \<Longrightarrow> distinct (map fst (entries ho m))"
  by (simp add: map_fst_entries)

lemma map_of_entries: "distinct (map fst m) \<Longrightarrow> map_of (entries ho m) = map_of m"
  by (rule ext, metis distinct_entries in_entries_iff map_of_eq_Some_iff not_None_eq)

lemma entries_Nil [simp]: "entries ho [] = []"
  by (simp add: entries_def)

section \<open>Association lists\<close>

abbreviation keys :: "('k \<times> 'v) list \<Rightarrow> 'k list" where
  "keys m \<equiv> map fst m"

abbreviation unique_keys :: "('k \<times> 'v) list \<Rightarrow> bool" where
  "unique_keys m \<equiv> distinct (map fst m)"

lemma map_of_update [simp]: "map_of (AList.update k v m) = (map_of m)(k \<mapsto> v)"
  by (rule update_conv')

lemma map_of_delete_eq [simp]: "map_of (AList.delete k m) = (map_of m)(k := None)"
  by (rule delete_conv')

lemma unique_keys_update [simp, wf_intros]:
  "unique_keys m \<Longrightarrow> unique_keys (AList.update k v m)"
  by (rule distinct_update)

lemma unique_keys_delete [simp, wf_intros]:
  "unique_keys m \<Longrightarrow> unique_keys (AList.delete k m)"
  by (rule distinct_delete)

lemma set_keys_update [simp]: "fst ` set (AList.update k v m) = insert k (fst ` set m)"
  by (simp add: dom_update)

lemma set_keys_delete [simp]: "fst ` set (AList.delete k m) = fst ` set m - {k}"
  by (auto simp: AList.delete_eq)

lemma map_of_eq_None_keys: "map_of m k = None \<longleftrightarrow> k \<notin> set (keys m)"
  by (simp add: map_of_eq_None_iff)

lemma map_of_Some_in_keys: "map_of m k = Some v \<Longrightarrow> k \<in> set (keys m)"
  by (force dest: map_of_SomeD)

lemma in_delete_iff: "(k', v) \<in> set (AList.delete k m) \<longleftrightarrow> k' \<noteq> k \<and> (k', v) \<in> set m"
  by (auto simp: AList.delete_eq)

lemma in_update_iff:
  "unique_keys m \<Longrightarrow>
    (k', v') \<in> set (AList.update k v m) \<longleftrightarrow>
      (if k' = k then v' = v else (k', v') \<in> set m)"
  by (metis map_of_eq_Some_iff fun_upd_apply map_of_update option.inject unique_keys_update)

text \<open>Changing every value.\<close>

lemma keys_map_values [simp]: "map (fst \<circ> (\<lambda>(k, v). (k, f v))) m = keys m"
  by (induction m) auto

lemma map_of_map_values: "map_of (map (\<lambda>(k, v). (k, f v)) m) k = map_option f (map_of m k)"
  by (induction m) auto

text \<open>Counting the entries with a property, across an update or a removal.\<close>

lemma count_update:
  assumes "unique_keys m"
  shows "length (filter P (AList.update k v m))
           + (case map_of m k of None \<Rightarrow> 0 | Some v' \<Rightarrow> of_bool (P (k, v')))
         = length (filter P m) + of_bool (P (k, v))"
  using assms
proof (induction m)
  case Nil
  then show ?case by simp
next
  case (Cons a m)
  obtain k' v' where a: "a = (k', v')" by (cases a)
  show ?case
  proof (cases "k' = k")
    case True
    then show ?thesis by (simp add: a)
  next
    case False
    with Cons show ?thesis by (auto simp: a split: option.splits)
  qed
qed

lemma count_delete:
  assumes "unique_keys m"
  shows "length (filter P (AList.delete k m))
           + (case map_of m k of None \<Rightarrow> 0 | Some v' \<Rightarrow> of_bool (P (k, v')))
         = length (filter P m)"
  using assms
proof (induction m)
  case Nil
  then show ?case by simp
next
  case (Cons a m)
  obtain k' v' where a: "a = (k', v')" by (cases a)
  show ?case
  proof (cases "k' = k")
    case True
    with Cons.prems have "AList.delete k m = m"
      by (intro AList.delete_id) (auto simp: a)
    with True show ?thesis by (simp add: a)
  next
    case False
    with Cons show ?thesis by (auto simp: a split: option.splits)
  qed
qed

text \<open>Filling an association list from a list of pairs, later pairs winning.\<close>

definition assign_all :: "'v umap \<Rightarrow> (string \<times> 'v) list \<Rightarrow> 'v umap" where
  "assign_all m kvs = fold (\<lambda>(k, v). AList.update k v) kvs m"

lemma assign_all_simps [simp]:
  "assign_all m [] = m"
  "assign_all m (kv # kvs) = assign_all (AList.update (fst kv) (snd kv) m) kvs"
  by (simp_all add: assign_all_def case_prod_beta)

lemma unique_keys_assign_all [simp, wf_intros]:
  "unique_keys m \<Longrightarrow> unique_keys (assign_all m kvs)"
  by (induction kvs arbitrary: m) auto

lemma map_of_assign_all: "map_of (assign_all m kvs) = map_of m ++ map_of (rev kvs)"
  by (induction kvs arbitrary: m) (auto simp: fun_eq_iff map_add_def split: option.splits)

lemma keys_assign_all: "set (keys (assign_all m kvs)) = set (keys m) \<union> set (keys kvs)"
  by (induction kvs arbitrary: m) auto

section \<open>Sets of strings\<close>

text \<open>\<^verbatim>\<open>std::unordered_set<std::string>\<close> is a list without repetitions.\<close>

lemma distinct_List_insert [simp, wf_intros]:
  "distinct xs \<Longrightarrow> distinct (List.insert x xs)"
  by (rule distinct_insert [THEN iffD2])

lemma set_remove1_distinct: "distinct xs \<Longrightarrow> set (remove1 x xs) = set xs - {x}"
  by (rule set_remove1_eq)

section \<open>Decimal numbers\<close>

text \<open>\<^verbatim>\<open>std::to_string\<close> on a natural number.\<close>

fun decimal :: "nat \<Rightarrow> string" where
  "decimal n =
     (if n < 10 then [char_of (48 + n)] else decimal (n div 10) @ [char_of (48 + n mod 10)])"

declare decimal.simps [simp del]

section \<open>Exceptions as values\<close>

text \<open>
  The two classes of exception that the request loop tells apart: those derived from
  \<^verbatim>\<open>nlohmann::json::exception\<close> and every other \<^verbatim>\<open>std::exception\<close>.
\<close>

datatype exn = JsonExn | StdExn

end
