(* ===== verification/Double_Arith.thy ===== *)
theory Double_Arith
  imports Complex_Main Prelude "HOL-Library.Log_Nat"
begin

text \<open>
  The few operations on \<^verbatim>\<open>double\<close> that the bridge uses. A finite \<^verbatim>\<open>double\<close> is the rational
  number it denotes; an arithmetic result is rounded to 53 significant bits, to nearest and
  ties to even, as IEEE 754 prescribes. Subnormal and infinite results do not occur for the
  rates and times the code computes with, so the range of the exponent is not modelled.
\<close>

section \<open>Rounding to 53 bits\<close>

definition round_half_even :: "rat \<Rightarrow> int" where
  "round_half_even y =
     (let f = \<lfloor>y\<rfloor>; d = y - of_int f
      in if d < 1/2 then f else if 1/2 < d then f + 1 else if even f then f else f + 1)"

text \<open>The binary exponent of a positive number.\<close>

definition binary_exponent :: "rat \<Rightarrow> int" where
  "binary_exponent x =
     (if 1 \<le> x then int (floorlog 2 (nat \<lfloor>x\<rfloor>)) - 1 else - int (ceillog2 (nat \<lceil>1 / x\<rceil>)))"

definition to_double :: "rat \<Rightarrow> rat" where
  "to_double x =
     (if x = 0 then 0
      else let k = 52 - binary_exponent \<bar>x\<bar>
           in of_int (round_half_even (x * 2 powi k)) / 2 powi k)"

text \<open>\<^verbatim>\<open>static_cast<int>(d)\<close>: truncation towards zero.\<close>

definition truncate :: "rat \<Rightarrow> int" where
  "truncate x = (if 0 \<le> x then \<lfloor>x\<rfloor> else \<lceil>x\<rceil>)"

section \<open>Rounding respects integer bounds\<close>

lemma round_half_even_ge: "of_int n \<le> y \<Longrightarrow> n \<le> round_half_even y"
proof -
  assume "of_int n \<le> y"
  then have "n \<le> \<lfloor>y\<rfloor>" by (simp add: le_floor_iff)
  then show ?thesis by (auto simp: round_half_even_def Let_def)
qed

lemma round_half_even_le:
  assumes "y \<le> of_int n"
  shows "round_half_even y \<le> n"
proof (cases "y = of_int n")
  case True
  then show ?thesis by (simp add: round_half_even_def)
next
  case False
  with assms have "\<lfloor>y\<rfloor> < n" by (simp add: floor_less_iff)
  then show ?thesis by (auto simp: round_half_even_def Let_def)
qed

lemma binary_exponent_le:
  assumes "x < 2 ^ 53"
  shows "binary_exponent x \<le> 52"
proof (cases "1 \<le> x")
  case True
  from assms have "\<lfloor>x\<rfloor> < 2 ^ 53" by (simp add: floor_less_iff)
  with True have "nat \<lfloor>x\<rfloor> < 2 ^ 53" by (simp add: nat_less_iff)
  then have "floorlog 2 (nat \<lfloor>x\<rfloor>) \<le> 53" by (intro floorlog_leI) auto
  with True show ?thesis by (simp add: binary_exponent_def)
next
  case False
  then show ?thesis by (simp add: binary_exponent_def)
qed

lemma to_double_scaled:
  assumes "0 < x" and "x < 2 ^ 53"
  obtains k where "to_double x = of_int (round_half_even (x * 2 ^ k)) / 2 ^ k"
proof -
  have "0 \<le> 52 - binary_exponent \<bar>x\<bar>" using assms binary_exponent_le [of x] by simp
  then obtain k where "52 - binary_exponent \<bar>x\<bar> = int k" by (metis nonneg_int_cases)
  with assms have "to_double x = of_int (round_half_even (x * 2 ^ k)) / 2 ^ k"
    by (simp add: to_double_def)
  then show ?thesis by (rule that)
qed

lemma to_double_ge:
  assumes "0 < x" and "x < 2 ^ 53" and "of_int n \<le> x"
  shows "of_int n \<le> to_double x"
proof -
  obtain k where k: "to_double x = of_int (round_half_even (x * 2 ^ k)) / 2 ^ k"
    using assms(1,2) by (rule to_double_scaled)
  have "of_int (n * 2 ^ k) \<le> x * 2 ^ k" using assms(3) by simp
  then have "n * 2 ^ k \<le> round_half_even (x * 2 ^ k)" by (rule round_half_even_ge)
  then have "(of_int (n * 2 ^ k) :: rat) \<le> of_int (round_half_even (x * 2 ^ k))"
    by (simp only: of_int_le_iff)
  then show ?thesis by (simp add: k field_simps)
qed

lemma to_double_le:
  assumes "0 < x" and "x < 2 ^ 53" and "x \<le> of_int n"
  shows "to_double x \<le> of_int n"
proof -
  obtain k where k: "to_double x = of_int (round_half_even (x * 2 ^ k)) / 2 ^ k"
    using assms(1,2) by (rule to_double_scaled)
  have "x * 2 ^ k \<le> of_int (n * 2 ^ k)" using assms(3) by simp
  then have "round_half_even (x * 2 ^ k) \<le> n * 2 ^ k" by (rule round_half_even_le)
  then have "(of_int (round_half_even (x * 2 ^ k)) :: rat) \<le> of_int (n * 2 ^ k)"
    by (simp only: of_int_le_iff)
  then show ?thesis by (simp add: k field_simps)
qed

text \<open>Integers below two to the 53rd are represented exactly.\<close>

lemma to_double_of_int:
  assumes "0 < n" and "n < 2 ^ 53"
  shows "to_double (of_int n) = of_int n"
proof (rule antisym)
  have "(of_int n :: rat) < of_int (2 ^ 53)" using assms(2) by (simp only: of_int_less_iff)
  then have range: "(of_int n :: rat) < 2 ^ 53" by simp
  show "to_double (of_int n) \<le> of_int n" using assms range by (intro to_double_le) simp_all
  show "of_int n \<le> to_double (of_int n)" using assms range by (intro to_double_ge) simp_all
qed

lemma to_double_0 [simp]: "to_double 0 = 0"
  by (simp add: to_double_def)

lemma to_double_of_nonneg:
  assumes "0 \<le> n" and "n < 2 ^ 53"
  shows "to_double (of_int n) = of_int n"
  using assms to_double_of_int [of n] by (cases "n = 0") simp_all

text \<open>
  A product that is not an integer and is rounded to one: the double next to three tenths, times
  ten to the ninth.
\<close>

definition three_tenths :: rat where
  "three_tenths = 5404319552844595 / 2 ^ 54"

lemma three_tenths_ns: "to_double (three_tenths * 10 ^ 9) = 300000000"
proof -
  have f: "\<lfloor>three_tenths * 10 ^ 9\<rfloor> = 299999999"
    by (rule floor_unique) (simp_all add: three_tenths_def)
  have "floorlog 2 (nat 299999999) = 29" by (simp add: compute_floorlog)
  with f have e: "binary_exponent \<bar>three_tenths * 10 ^ 9\<bar> = 28"
    by (simp add: binary_exponent_def) (simp add: three_tenths_def)
  have g: "\<lfloor>three_tenths * 10 ^ 9 * 2 ^ 24\<rfloor> = 5033164799999999"
    by (rule floor_unique) (simp_all add: three_tenths_def)
  have "round_half_even (three_tenths * 10 ^ 9 * 2 ^ 24) = 5033164800000000"
    unfolding round_half_even_def g by (simp add: three_tenths_def)
  moreover have "three_tenths * 10 ^ 9 \<noteq> 0" by (simp add: three_tenths_def)
  moreover have "(2 :: rat) powi (52 - 28) = 2 ^ 24" by simp
  ultimately show ?thesis unfolding to_double_def e Let_def by (simp only: if_False of_int_numeral) simp
qed

lemma truncate_0 [simp]: "truncate 0 = 0"
  by (simp add: truncate_def)

lemma truncate_bounds: "0 \<le> x \<Longrightarrow> of_int a \<le> x \<Longrightarrow> x \<le> of_int b \<Longrightarrow> a \<le> truncate x \<and> truncate x \<le> b"
  by (simp add: truncate_def le_floor_iff) (metis floor_mono floor_of_int)

end
