(* ===== verification/Protocol.thy ===== *)
theory Protocol
  imports Double_Arith
begin

text \<open>
  The constants of \<^verbatim>\<open>protocol_constants.hpp\<close>, the JSON values that the request handlers
  read and build (\<^verbatim>\<open>nlohmann::json\<close>), and the numeric field of a subscribe request:
  \<^verbatim>\<open>clamp_rate_hz\<close> and the milli-hertz value that the publish path computes with.
\<close>

section \<open>Protocol constants\<close>

definition kProtocolVersion :: int where
  "kProtocolVersion = 1"

definition kBinaryFrameMagic :: u32 where
  "kBinaryFrameMagic = 0x42524A50"

definition kBinaryHeaderSize :: nat where
  "kBinaryHeaderSize = 16"

definition kFrameFlagHeavy :: u32 where
  "kFrameFlagHeavy = 0x1"

definition kDefaultHeavyFrameThresholdBytes :: nat where
  "kDefaultHeavyFrameThresholdBytes = 256 * 1024"

definition kSchemaEncodingRos2Msg :: string where
  "kSchemaEncodingRos2Msg = ''ros2msg''"

definition kSchemaEncodingOmgIdl :: string where
  "kSchemaEncodingOmgIdl = ''omgidl''"

definition kServerCapabilities :: "string list" where
  "kServerCapabilities =
     [''include_schemas'', ''latched_badge'', ''latched_replay'', ''topics_changed'',
      ''per_topic_rate_limit'', ''size_class_frames'']"

section \<open>JSON values\<close>

text \<open>
  A JSON object is the finite map from field names to values; a repeated
  \<^verbatim>\<open>response["k"] = v\<close> overwrites. Integers and floating-point numbers are separate
  alternatives, as in the library.
\<close>

datatype json =
    JNull
  | JBool bool
  | JInt int
  | JFloat rat
  | JString string
  | JArray "json list"
  | JObject "(string \<times> json) list"

text \<open>\<^verbatim>\<open>j.find(k)\<close>: only an object has fields.\<close>

fun jfind :: "json \<Rightarrow> string \<Rightarrow> json option" where
  "jfind (JObject kvs) k = map_of kvs k"
| "jfind _ k = None"

definition jcontains :: "json \<Rightarrow> string \<Rightarrow> bool" where
  "jcontains j k \<longleftrightarrow> jfind j k \<noteq> None"

text \<open>\<^verbatim>\<open>j[k] = v\<close> on an object under construction (a default value becomes an object).\<close>

fun jset :: "string \<Rightarrow> json \<Rightarrow> json \<Rightarrow> json" where
  "jset k v (JObject kvs) = JObject (AList.update k v kvs)"
| "jset k v _ = JObject [(k, v)]"

fun jstring :: "json \<Rightarrow> string option" where
  "jstring (JString s) = Some s"
| "jstring _ = None"

fun jarray :: "json \<Rightarrow> json list option" where
  "jarray (JArray xs) = Some xs"
| "jarray _ = None"

text \<open>\<^verbatim>\<open>is_number()\<close> and \<^verbatim>\<open>get<double>()\<close>: an integer is converted.\<close>

fun jnumber :: "json \<Rightarrow> rat option" where
  "jnumber (JInt i) = Some (to_double (of_int i))"
| "jnumber (JFloat x) = Some x"
| "jnumber _ = None"

text \<open>A field that is present and a string.\<close>

definition jfield_string :: "json \<Rightarrow> string \<Rightarrow> string option" where
  "jfield_string j k = (case jfind j k of None \<Rightarrow> None | Some v \<Rightarrow> jstring v)"

text \<open>
  \<^verbatim>\<open>BridgeServer::optional_bool\<close>: a flag read off the wire, false unless present and
  boolean.
\<close>

definition optional_bool :: "json \<Rightarrow> string \<Rightarrow> bool" where
  "optional_bool request key =
     (case jfind request key of Some (JBool b) \<Rightarrow> b | _ \<Rightarrow> False)"

lemma jfind_jset [simp]:
  "jfind (jset k v (JObject kvs)) k' = (if k' = k then Some v else map_of kvs k')"
  by simp

lemma jfind_jset_other: "k' \<noteq> k \<Longrightarrow> jfind (jset k v j) k' = jfind j k'"
  by (cases j) auto

lemma jfind_jset_same: "jfind (jset k v j) k = Some v"
  by (cases j) auto

lemmas jfind_simps = jfind_jset_same jfind_jset_other jcontains_def

section \<open>Rates\<close>

text \<open>
  The literals \<^verbatim>\<open>1e6\<close> and \<^verbatim>\<open>0.001\<close> of \<^verbatim>\<open>bridge_server.cpp\<close> denote the doubles nearest to
  them.
\<close>

definition kMaxRateHz :: rat where
  "kMaxRateHz = to_double 1000000"

definition kMinRateHz :: rat where
  "kMinRateHz = to_double (1 / 1000)"

definition clamp_rate_hz :: "rat \<Rightarrow> rat" where
  "clamp_rate_hz rate_hz =
     (if rate_hz \<le> 0 then 0
      else if rate_hz < kMinRateHz then kMinRateHz
      else if rate_hz > kMaxRateHz then kMaxRateHz
      else rate_hz)"

text \<open>\<^verbatim>\<open>static_cast<int>(rate_hz * 1000)\<close>: the group key and the gate of the publish path.\<close>

definition rate_mhz :: "rat \<Rightarrow> int" where
  "rate_mhz rate_hz = truncate (to_double (rate_hz * 1000))"

lemma kMinRateHz_value: "kMinRateHz = 1152921504606847 / 1152921504606846976"
  unfolding kMinRateHz_def by code_simp

lemma kMaxRateHz_value: "kMaxRateHz = 1000000"
  using to_double_of_int [of 1000000] by (simp add: kMaxRateHz_def)

lemmas rate_limits = kMinRateHz_value kMaxRateHz_value

text \<open>The rates a session can hold.\<close>

definition valid_rate :: "rat \<Rightarrow> bool" where
  "valid_rate r \<longleftrightarrow> r = 0 \<or> (kMinRateHz \<le> r \<and> r \<le> kMaxRateHz)"

lemma valid_rate_0 [simp]: "valid_rate 0"
  by (simp add: valid_rate_def)

lemma clamp_rate_hz_valid [simp]: "valid_rate (clamp_rate_hz r)"
  by (simp add: clamp_rate_hz_def valid_rate_def rate_limits)

lemma rate_mhz_0 [simp]: "rate_mhz 0 = 0"
  by (simp add: rate_mhz_def)

lemma rate_mhz_bounds:
  assumes "kMinRateHz \<le> r" and "r \<le> kMaxRateHz"
  shows "1 \<le> rate_mhz r \<and> rate_mhz r \<le> 10 ^ 9"
proof -
  have lo: "1 \<le> r * 1000" and hi: "r * 1000 \<le> 1000000000"
    using assms by (simp_all add: rate_limits field_simps)
  have range: "0 < r * 1000" "r * 1000 < 2 ^ 53" using lo hi by simp_all
  have "of_int 1 \<le> to_double (r * 1000)"
    using range lo by (intro to_double_ge) simp_all
  moreover have "to_double (r * 1000) \<le> of_int 1000000000"
    using range hi by (intro to_double_le) simp_all
  ultimately show ?thesis
    unfolding rate_mhz_def using truncate_bounds [of _ 1 1000000000] by simp
qed

lemma rate_mhz_valid:
  assumes "valid_rate r"
  shows "0 \<le> rate_mhz r \<and> rate_mhz r \<le> 10 ^ 9 \<and> (rate_mhz r = 0 \<longleftrightarrow> r = 0)"
proof (cases "r = 0")
  case True
  then show ?thesis by simp
next
  case False
  with assms rate_mhz_bounds [of r] show ?thesis by (auto simp: valid_rate_def)
qed

end
