(* ===== verification/Session_Manager.thy ===== *)
theory Session_Manager
  imports Protocol
begin

text \<open>
  \<^verbatim>\<open>SessionManager\<close> (\<^verbatim>\<open>session_manager.hpp\<close>, \<^verbatim>\<open>session_manager.cpp\<close>): the sessions by client
  identity, each with its subscriptions and their rates, the topics for which it holds a
  middleware subscription reference, its last heartbeat and its flags. Every method locks
  the one mutex of the class, so each is one atomic operation on the record below. Time is
  the steady clock in nanoseconds; the timeout is a duration in seconds.
\<close>

record session =
  client_id :: string
  subscribed_topics :: "rat umap"
  ref_held_topics :: "string list"
  last_heartbeat :: int
  created_at :: int
  paused :: bool
  topic_updates :: bool
  include_schemas_in_updates :: bool

record session_manager =
  sessions :: "session umap"
  timeout_duration :: rat

definition new_session_manager :: "rat \<Rightarrow> session_manager" where
  "new_session_manager timeout_seconds = \<lparr>sessions = [], timeout_duration = timeout_seconds\<rparr>"

section \<open>Operations\<close>

definition create_session :: "int \<Rightarrow> string \<Rightarrow> session_manager \<Rightarrow> session_manager \<times> bool" where
  "create_session now c m =
     (case map_of (sessions m) c of
        Some _ \<Rightarrow> (m, False)
      | None \<Rightarrow>
          (m\<lparr>sessions := AList.update c
               \<lparr>client_id = c, subscribed_topics = [], ref_held_topics = [],
                last_heartbeat = now, created_at = now, paused = False,
                topic_updates = False, include_schemas_in_updates = False\<rparr> (sessions m)\<rparr>,
           True))"

text \<open>The find-or-fail pattern that the mutating methods share.\<close>

definition with_session ::
    "string \<Rightarrow> (session \<Rightarrow> session) \<Rightarrow> session_manager \<Rightarrow> session_manager \<times> bool" where
  "with_session c f m =
     (case map_of (sessions m) c of
        None \<Rightarrow> (m, False)
      | Some s \<Rightarrow> (m\<lparr>sessions := AList.update c (f s) (sessions m)\<rparr>, True))"

definition update_heartbeat :: "int \<Rightarrow> string \<Rightarrow> session_manager \<Rightarrow> session_manager \<times> bool" where
  "update_heartbeat now c m = with_session c (\<lambda>s. s\<lparr>last_heartbeat := now\<rparr>) m"

definition get_session :: "string \<Rightarrow> session_manager \<Rightarrow> session option" where
  "get_session c m = map_of (sessions m) c"

definition update_subscriptions ::
    "string \<Rightarrow> rat umap \<Rightarrow> session_manager \<Rightarrow> session_manager \<times> bool" where
  "update_subscriptions c topics m =
     with_session c
       (\<lambda>s. s\<lparr>subscribed_topics := topics,
              ref_held_topics := filter (\<lambda>t. map_of topics t \<noteq> None) (ref_held_topics s)\<rparr>) m"

definition add_subscription ::
    "string \<Rightarrow> string \<Rightarrow> rat \<Rightarrow> session_manager \<Rightarrow> session_manager \<times> bool" where
  "add_subscription c topic rate m =
     with_session c
       (\<lambda>s. s\<lparr>subscribed_topics := AList.update topic rate (subscribed_topics s)\<rparr>) m"

definition remove_subscription ::
    "string \<Rightarrow> string \<Rightarrow> session_manager \<Rightarrow> session_manager \<times> bool" where
  "remove_subscription c topic m =
     (case map_of (sessions m) c of
        None \<Rightarrow> (m, False)
      | Some s \<Rightarrow>
          (m\<lparr>sessions := AList.update c
               (s\<lparr>ref_held_topics := remove1 topic (ref_held_topics s),
                  subscribed_topics := AList.delete topic (subscribed_topics s)\<rparr>) (sessions m)\<rparr>,
           map_of (subscribed_topics s) topic \<noteq> None))"

definition set_ref_held ::
    "string \<Rightarrow> string \<Rightarrow> bool \<Rightarrow> session_manager \<Rightarrow> session_manager \<times> bool" where
  "set_ref_held c topic held m =
     with_session c
       (\<lambda>s. s\<lparr>ref_held_topics :=
                (if held then List.insert topic (ref_held_topics s)
                 else remove1 topic (ref_held_topics s))\<rparr>) m"

definition get_ref_held_topics :: "string \<Rightarrow> session_manager \<Rightarrow> string list" where
  "get_ref_held_topics c m =
     (case map_of (sessions m) c of None \<Rightarrow> [] | Some s \<Rightarrow> ref_held_topics s)"

definition get_subscriptions :: "string \<Rightarrow> session_manager \<Rightarrow> rat umap" where
  "get_subscriptions c m =
     (case map_of (sessions m) c of None \<Rightarrow> [] | Some s \<Rightarrow> subscribed_topics s)"

definition remove_session :: "string \<Rightarrow> session_manager \<Rightarrow> session_manager \<times> bool" where
  "remove_session c m =
     (case map_of (sessions m) c of
        None \<Rightarrow> (m, False)
      | Some _ \<Rightarrow> (m\<lparr>sessions := AList.delete c (sessions m)\<rparr>, True))"

text \<open>
  The elapsed nanoseconds and the timeout in seconds are compared as \<^verbatim>\<open>duration<double, nano>\<close>:
  the count of nanoseconds and the product of the timeout with ten to the ninth are rounded to a
  \<^verbatim>\<open>double\<close>.
\<close>

definition get_timed_out_sessions :: "hash_order \<Rightarrow> int \<Rightarrow> session_manager \<Rightarrow> string list" where
  "get_timed_out_sessions ho now m =
     map fst (filter (\<lambda>(_, s). to_double (of_int (now - last_heartbeat s)) > to_double (timeout_duration m * 10 ^ 9))
                (entries ho (sessions m)))"

definition get_active_sessions :: "hash_order \<Rightarrow> session_manager \<Rightarrow> string list" where
  "get_active_sessions ho m = map fst (entries ho (sessions m))"

definition session_count :: "session_manager \<Rightarrow> nat" where
  "session_count m = length (sessions m)"

definition session_exists :: "string \<Rightarrow> session_manager \<Rightarrow> bool" where
  "session_exists c m \<longleftrightarrow> map_of (sessions m) c \<noteq> None"

definition set_paused :: "string \<Rightarrow> bool \<Rightarrow> session_manager \<Rightarrow> session_manager \<times> bool" where
  "set_paused c p m = with_session c (\<lambda>s. s\<lparr>paused := p\<rparr>) m"

definition is_paused :: "string \<Rightarrow> session_manager \<Rightarrow> bool" where
  "is_paused c m = (case map_of (sessions m) c of None \<Rightarrow> False | Some s \<Rightarrow> paused s)"

definition set_topic_updates :: "string \<Rightarrow> bool \<Rightarrow> session_manager \<Rightarrow> session_manager \<times> bool" where
  "set_topic_updates c b m = with_session c (\<lambda>s. s\<lparr>topic_updates := b\<rparr>) m"

definition wants_topic_updates :: "string \<Rightarrow> session_manager \<Rightarrow> bool" where
  "wants_topic_updates c m =
     (case map_of (sessions m) c of None \<Rightarrow> False | Some s \<Rightarrow> topic_updates s)"

definition set_include_schemas_in_updates ::
    "string \<Rightarrow> bool \<Rightarrow> session_manager \<Rightarrow> session_manager \<times> bool" where
  "set_include_schemas_in_updates c b m =
     with_session c (\<lambda>s. s\<lparr>include_schemas_in_updates := b\<rparr>) m"

definition wants_schemas_in_updates :: "string \<Rightarrow> session_manager \<Rightarrow> bool" where
  "wants_schemas_in_updates c m =
     (case map_of (sessions m) c of None \<Rightarrow> False | Some s \<Rightarrow> include_schemas_in_updates s)"

section \<open>Well-formed sessions and the reference ledger\<close>

text \<open>
  A session is filed under its own identity, holds references only for topics it is
  subscribed to, and its rates are those that \<^verbatim>\<open>clamp_rate_hz\<close> can produce.
\<close>

definition session_wf :: "string \<Rightarrow> session \<Rightarrow> bool" where
  "session_wf c s \<longleftrightarrow>
     client_id s = c \<and> unique_keys (subscribed_topics s) \<and> distinct (ref_held_topics s) \<and>
     set (ref_held_topics s) \<subseteq> set (keys (subscribed_topics s)) \<and>
     (\<forall>t r. (t, r) \<in> set (subscribed_topics s) \<longrightarrow> valid_rate r)"

definition sessions_wf :: "session_manager \<Rightarrow> bool" where
  "sessions_wf m \<longleftrightarrow> unique_keys (sessions m) \<and> (\<forall>(c, s) \<in> set (sessions m). session_wf c s)"

text \<open>A paused client holds no reference (the comment on \<^verbatim>\<open>Session::ref_held_topics\<close>).\<close>

definition paused_hold_nothing :: "session_manager \<Rightarrow> bool" where
  "paused_hold_nothing m \<longleftrightarrow> (\<forall>c. is_paused c m \<longrightarrow> get_ref_held_topics c m = [])"

text \<open>How many sessions hold a reference for a topic.\<close>

definition held_count :: "session_manager \<Rightarrow> string \<Rightarrow> nat" where
  "held_count m t = length (filter (\<lambda>(_, s). t \<in> set (ref_held_topics s)) (sessions m))"

lemma sessions_wf_unique: "sessions_wf m \<Longrightarrow> unique_keys (sessions m)"
  by (simp add: sessions_wf_def)

lemma sessions_wf_lookup: "sessions_wf m \<Longrightarrow> map_of (sessions m) c = Some s \<Longrightarrow> session_wf c s"
  by (auto simp: sessions_wf_def dest!: map_of_SomeD)

lemma sessions_wf_update:
  "sessions_wf m \<Longrightarrow> session_wf c s \<Longrightarrow> sessions_wf (m\<lparr>sessions := AList.update c s (sessions m)\<rparr>)"
  by (auto simp: sessions_wf_def in_update_iff split: if_splits)

lemma sessions_wf_delete:
  "sessions_wf m \<Longrightarrow> sessions_wf (m\<lparr>sessions := AList.delete c (sessions m)\<rparr>)"
  by (auto simp: sessions_wf_def in_delete_iff)

lemma sessions_wf_new [simp]: "sessions_wf (new_session_manager timeout)"
  by (simp add: sessions_wf_def new_session_manager_def)

lemma with_session_wf:
  assumes "sessions_wf m" and "\<And>s. session_wf c s \<Longrightarrow> session_wf c (f s)"
  shows "sessions_wf (fst (with_session c f m))"
  using assms by (auto simp: with_session_def sessions_wf_lookup intro: sessions_wf_update
      split: option.splits)

lemma session_wf_distinct_held: "sessions_wf m \<Longrightarrow> distinct (get_ref_held_topics c m)"
  by (cases "map_of (sessions m) c")
    (simp_all add: get_ref_held_topics_def sessions_wf_lookup [unfolded session_wf_def])

lemma held_subset_subscribed:
  "sessions_wf m \<Longrightarrow> set (get_ref_held_topics c m) \<subseteq> set (keys (get_subscriptions c m))"
  by (cases "map_of (sessions m) c")
    (simp_all add: get_ref_held_topics_def get_subscriptions_def
      sessions_wf_lookup [unfolded session_wf_def, simplified])

lemma unique_keys_get_subscriptions [simp]: "sessions_wf m \<Longrightarrow> unique_keys (get_subscriptions c m)"
  by (cases "map_of (sessions m) c")
    (simp_all add: get_subscriptions_def sessions_wf_lookup [unfolded session_wf_def])

lemma subscription_rate_valid:
  assumes "sessions_wf m" and "map_of (get_subscriptions c m) t = Some r"
  shows "valid_rate r"
proof -
  from assms(2) obtain s where s: "map_of (sessions m) c = Some s"
      and "map_of (subscribed_topics s) t = Some r"
    by (auto simp: get_subscriptions_def split: option.splits)
  then have "(t, r) \<in> set (subscribed_topics s)" by (simp add: map_of_SomeD)
  with sessions_wf_lookup [OF assms(1) s] show ?thesis by (auto simp: session_wf_def)
qed

text \<open>Who is counted: a client holds a topic when it is in the set its session keeps.\<close>

lemma held_count_pos_iff:
  assumes "sessions_wf m"
  shows "0 < held_count m t \<longleftrightarrow> (\<exists>c. t \<in> set (get_ref_held_topics c m))"
proof
  assume "0 < held_count m t"
  then obtain c s where cs: "(c, s) \<in> set (sessions m)" "t \<in> set (ref_held_topics s)"
    by (auto simp: held_count_def filter_empty_conv)
  then have "t \<in> set (get_ref_held_topics c m)"
    using assms by (simp add: get_ref_held_topics_def sessions_wf_def)
  then show "\<exists>c. t \<in> set (get_ref_held_topics c m)" ..
next
  assume "\<exists>c. t \<in> set (get_ref_held_topics c m)"
  then obtain c where "t \<in> set (get_ref_held_topics c m)" ..
  then obtain s where "map_of (sessions m) c = Some s" "t \<in> set (ref_held_topics s)"
    by (cases "map_of (sessions m) c") (auto simp: get_ref_held_topics_def)
  then have "(c, s) \<in> set (sessions m)" by (simp add: map_of_SomeD)
  with \<open>t \<in> set (ref_held_topics s)\<close> show "0 < held_count m t"
    by (auto simp: held_count_def filter_empty_conv)
qed

lemma held_count_no_sessions: "sessions m = [] \<Longrightarrow> held_count m t = 0"
  by (simp add: held_count_def)

lemma held_count_new [simp]: "held_count (new_session_manager timeout) t = 0"
  by (simp add: held_count_def new_session_manager_def)

section \<open>What each operation does\<close>

lemma sessions_with_session:
  "sessions (fst (with_session c f m)) =
     (case map_of (sessions m) c of None \<Rightarrow> sessions m
      | Some s \<Rightarrow> AList.update c (f s) (sessions m))"
  by (simp add: with_session_def split: option.splits)

lemma held_count_with_session:
  assumes "unique_keys (sessions m)" and "map_of (sessions m) c = Some s"
  shows "held_count (fst (with_session c f m)) t + of_bool (t \<in> set (ref_held_topics s))
         = held_count m t + of_bool (t \<in> set (ref_held_topics (f s)))"
  using count_update [OF assms(1), of "\<lambda>(_, s). t \<in> set (ref_held_topics s)" c "f s"] assms(2)
  by (simp add: held_count_def sessions_with_session)

lemma held_count_with_session_same:
  assumes "unique_keys (sessions m)" and "\<And>s. ref_held_topics (f s) = ref_held_topics s"
  shows "held_count (fst (with_session c f m)) = held_count m"
proof (cases "map_of (sessions m) c")
  case None
  then show ?thesis by (simp add: with_session_def)
next
  case (Some s)
  show ?thesis
    using held_count_with_session [OF assms(1) Some, of f] assms(2) by (simp add: fun_eq_iff)
qed

lemmas session_op_defs =
  update_heartbeat_def add_subscription_def set_ref_held_def set_paused_def
  set_topic_updates_def set_include_schemas_in_updates_def with_session_def

lemmas session_query_defs =
  get_ref_held_topics_def get_subscriptions_def session_exists_def is_paused_def
  wants_topic_updates_def wants_schemas_in_updates_def

lemma session_exists_after [session_simps]:
  "session_exists c' (fst (update_heartbeat now c m)) \<longleftrightarrow> session_exists c' m"
  "session_exists c' (fst (add_subscription c t r m)) \<longleftrightarrow> session_exists c' m"
  "session_exists c' (fst (remove_subscription c t m)) \<longleftrightarrow> session_exists c' m"
  "session_exists c' (fst (set_ref_held c t b m)) \<longleftrightarrow> session_exists c' m"
  "session_exists c' (fst (set_paused c b m)) \<longleftrightarrow> session_exists c' m"
  "session_exists c' (fst (set_topic_updates c b m)) \<longleftrightarrow> session_exists c' m"
  "session_exists c' (fst (set_include_schemas_in_updates c b m)) \<longleftrightarrow> session_exists c' m"
  "session_exists c' (fst (create_session now c m)) \<longleftrightarrow> c' = c \<or> session_exists c' m"
  "session_exists c' (fst (remove_session c m)) \<longleftrightarrow> c' \<noteq> c \<and> session_exists c' m"
  by (auto simp: session_op_defs session_query_defs create_session_def remove_session_def
      remove_subscription_def split: option.splits)

lemma held_topics_after [session_simps]:
  "get_ref_held_topics c' (fst (update_heartbeat now c m)) = get_ref_held_topics c' m"
  "get_ref_held_topics c' (fst (add_subscription c t r m)) = get_ref_held_topics c' m"
  "get_ref_held_topics c' (fst (set_paused c b m)) = get_ref_held_topics c' m"
  "get_ref_held_topics c' (fst (set_topic_updates c b m)) = get_ref_held_topics c' m"
  "get_ref_held_topics c' (fst (set_include_schemas_in_updates c b m)) = get_ref_held_topics c' m"
  "get_ref_held_topics c' (fst (create_session now c m)) = get_ref_held_topics c' m"
  "get_ref_held_topics c' (fst (remove_subscription c t m)) =
     (if c' = c then remove1 t (get_ref_held_topics c m) else get_ref_held_topics c' m)"
  "get_ref_held_topics c' (fst (remove_session c m)) =
     (if c' = c then [] else get_ref_held_topics c' m)"
  "get_ref_held_topics c' (fst (set_ref_held c t b m)) =
     (if c' = c \<and> session_exists c m
      then (if b then List.insert t (get_ref_held_topics c m)
            else remove1 t (get_ref_held_topics c m))
      else get_ref_held_topics c' m)"
  by (auto simp: session_op_defs session_query_defs create_session_def remove_session_def
      remove_subscription_def split: option.splits)

lemma subscriptions_after [session_simps]:
  "get_subscriptions c' (fst (update_heartbeat now c m)) = get_subscriptions c' m"
  "get_subscriptions c' (fst (set_ref_held c t b m)) = get_subscriptions c' m"
  "get_subscriptions c' (fst (set_paused c b m)) = get_subscriptions c' m"
  "get_subscriptions c' (fst (set_topic_updates c b m)) = get_subscriptions c' m"
  "get_subscriptions c' (fst (set_include_schemas_in_updates c b m)) = get_subscriptions c' m"
  "get_subscriptions c' (fst (create_session now c m)) = get_subscriptions c' m"
  "get_subscriptions c' (fst (add_subscription c t r m)) =
     (if c' = c \<and> session_exists c m then AList.update t r (get_subscriptions c m)
      else get_subscriptions c' m)"
  "get_subscriptions c' (fst (remove_subscription c t m)) =
     (if c' = c then AList.delete t (get_subscriptions c m) else get_subscriptions c' m)"
  "get_subscriptions c' (fst (remove_session c m)) =
     (if c' = c then [] else get_subscriptions c' m)"
  by (auto simp: session_op_defs session_query_defs create_session_def remove_session_def
      remove_subscription_def split: option.splits)

lemma paused_after [session_simps]:
  "is_paused c' (fst (update_heartbeat now c m)) = is_paused c' m"
  "is_paused c' (fst (add_subscription c t r m)) = is_paused c' m"
  "is_paused c' (fst (remove_subscription c t m)) = is_paused c' m"
  "is_paused c' (fst (set_ref_held c t b m)) = is_paused c' m"
  "is_paused c' (fst (set_topic_updates c b m)) = is_paused c' m"
  "is_paused c' (fst (set_include_schemas_in_updates c b m)) = is_paused c' m"
  "is_paused c' (fst (create_session now c m)) = is_paused c' m"
  "is_paused c' (fst (set_paused c b m)) =
     (if c' = c \<and> session_exists c m then b else is_paused c' m)"
  "is_paused c' (fst (remove_session c m)) \<longleftrightarrow> c' \<noteq> c \<and> is_paused c' m"
  by (auto simp: session_op_defs session_query_defs create_session_def remove_session_def
      remove_subscription_def split: option.splits)

lemma success_after [session_simps]:
  "snd (create_session now c m) \<longleftrightarrow> \<not> session_exists c m"
  "snd (update_heartbeat now c m) \<longleftrightarrow> session_exists c m"
  "snd (add_subscription c t r m) \<longleftrightarrow> session_exists c m"
  "snd (set_ref_held c t b m) \<longleftrightarrow> session_exists c m"
  "snd (set_paused c b m) \<longleftrightarrow> session_exists c m"
  "snd (remove_session c m) \<longleftrightarrow> session_exists c m"
  "snd (remove_subscription c t m) \<longleftrightarrow> map_of (get_subscriptions c m) t \<noteq> None"
  by (auto simp: session_op_defs session_query_defs create_session_def remove_session_def
      remove_subscription_def split: option.splits)

lemma held_empty_no_session: "\<not> session_exists c m \<Longrightarrow> get_ref_held_topics c m = []"
  by (auto simp: session_query_defs)

section \<open>Preservation\<close>

lemma create_session_wf [wf_intros]: "sessions_wf m \<Longrightarrow> sessions_wf (fst (create_session now c m))"
  by (auto simp: create_session_def session_wf_def intro!: sessions_wf_update split: option.splits)

lemma update_heartbeat_wf [wf_intros]:
  "sessions_wf m \<Longrightarrow> sessions_wf (fst (update_heartbeat now c m))"
  by (auto simp: update_heartbeat_def session_wf_def intro!: with_session_wf)

lemma set_paused_wf [wf_intros]: "sessions_wf m \<Longrightarrow> sessions_wf (fst (set_paused c b m))"
  by (auto simp: set_paused_def session_wf_def intro!: with_session_wf)

lemma set_topic_updates_wf [wf_intros]:
  "sessions_wf m \<Longrightarrow> sessions_wf (fst (set_topic_updates c b m))"
  by (auto simp: set_topic_updates_def session_wf_def intro!: with_session_wf)

lemma set_include_schemas_wf [wf_intros]:
  "sessions_wf m \<Longrightarrow> sessions_wf (fst (set_include_schemas_in_updates c b m))"
  by (auto simp: set_include_schemas_in_updates_def session_wf_def intro!: with_session_wf)

lemma add_subscription_wf [wf_intros]:
  "sessions_wf m \<Longrightarrow> valid_rate r \<Longrightarrow> sessions_wf (fst (add_subscription c t r m))"
  unfolding add_subscription_def
  by (erule with_session_wf) (auto simp: session_wf_def in_update_iff split: if_splits)

lemma remove_subscription_wf [wf_intros]:
  "sessions_wf m \<Longrightarrow> sessions_wf (fst (remove_subscription c t m))"
proof (cases "map_of (sessions m) c")
  case None
  then show "sessions_wf m \<Longrightarrow> ?thesis" by (simp add: remove_subscription_def)
next
  case (Some s)
  assume wf: "sessions_wf m"
  from sessions_wf_lookup [OF wf Some] have "session_wf c
      (s\<lparr>ref_held_topics := remove1 t (ref_held_topics s),
         subscribed_topics := AList.delete t (subscribed_topics s)\<rparr>)"
    by (auto simp: session_wf_def in_delete_iff)
  with wf Some show ?thesis by (simp add: remove_subscription_def sessions_wf_update)
qed

lemma set_ref_held_wf [wf_intros]:
  assumes "sessions_wf m" and "b \<Longrightarrow> t \<in> set (keys (get_subscriptions c m))"
  shows "sessions_wf (fst (set_ref_held c t b m))"
proof (cases "map_of (sessions m) c")
  case None
  with assms(1) show ?thesis by (simp add: set_ref_held_def with_session_def)
next
  case (Some s)
  from sessions_wf_lookup [OF assms(1) Some] have wf: "session_wf c s" .
  have "t \<in> set (keys (subscribed_topics s))" if b using assms(2) that Some
    by (simp add: get_subscriptions_def)
  with wf have "session_wf c
      (s\<lparr>ref_held_topics := (if b then List.insert t (ref_held_topics s)
                             else remove1 t (ref_held_topics s))\<rparr>)"
    by (auto simp: session_wf_def)
  with assms(1) Some show ?thesis
    by (simp add: set_ref_held_def with_session_def sessions_wf_update)
qed

lemma remove_session_wf [wf_intros]: "sessions_wf m \<Longrightarrow> sessions_wf (fst (remove_session c m))"
  by (auto simp: remove_session_def intro: sessions_wf_delete split: option.splits)

lemma update_subscriptions_wf [wf_intros]:
  assumes "sessions_wf m" and "unique_keys topics"
    and "\<And>t r. (t, r) \<in> set topics \<Longrightarrow> valid_rate r"
  shows "sessions_wf (fst (update_subscriptions c topics m))"
  unfolding update_subscriptions_def using assms(1)
  by (rule with_session_wf)
    (use assms(2,3) in \<open>auto simp: session_wf_def intro: rev_image_eqI\<close>)

text \<open>The ledger across each operation.\<close>

lemma held_count_unchanged [session_simps]:
  assumes "sessions_wf m"
  shows "held_count (fst (update_heartbeat now c m)) = held_count m"
    and "held_count (fst (add_subscription c t r m)) = held_count m"
    and "held_count (fst (set_paused c b m)) = held_count m"
    and "held_count (fst (set_topic_updates c b m)) = held_count m"
    and "held_count (fst (set_include_schemas_in_updates c b m)) = held_count m"
  using sessions_wf_unique [OF assms]
  by (simp_all add: update_heartbeat_def add_subscription_def set_paused_def
      set_topic_updates_def set_include_schemas_in_updates_def held_count_with_session_same)

lemma held_count_create_session [session_simps]:
  assumes "sessions_wf m"
  shows "held_count (fst (create_session now c m)) = held_count m"
proof (cases "map_of (sessions m) c")
  case None
  with count_update [OF sessions_wf_unique [OF assms], of "\<lambda>(_, s). t \<in> set (ref_held_topics s)" c for t]
  show ?thesis by (simp add: create_session_def held_count_def fun_eq_iff)
next
  case (Some s)
  then show ?thesis by (simp add: create_session_def)
qed

lemma held_count_acquire [session_simps]:
  assumes "sessions_wf m" and "session_exists c m" and "t \<notin> set (get_ref_held_topics c m)"
  shows "held_count (fst (set_ref_held c t True m)) = (held_count m)(t := Suc (held_count m t))"
proof -
  from assms(2) obtain s where s: "map_of (sessions m) c = Some s"
    by (auto simp: session_exists_def)
  show ?thesis
  proof (rule ext)
    fix t'
    show "held_count (fst (set_ref_held c t True m)) t'
            = ((held_count m)(t := Suc (held_count m t))) t'"
      using held_count_with_session [OF sessions_wf_unique [OF assms(1)] s,
          of "\<lambda>s. s\<lparr>ref_held_topics := List.insert t (ref_held_topics s)\<rparr>" t'] assms(3) s
      by (cases "t' = t") (simp_all add: set_ref_held_def get_ref_held_topics_def)
  qed
qed

lemma held_count_release [session_simps]:
  assumes "sessions_wf m" and "t \<in> set (get_ref_held_topics c m)"
  shows "held_count (fst (set_ref_held c t False m)) = (held_count m)(t := held_count m t - 1)"
proof -
  from assms(2) obtain s where s: "map_of (sessions m) c = Some s"
      and t: "t \<in> set (ref_held_topics s)"
    by (cases "map_of (sessions m) c") (auto simp: get_ref_held_topics_def)
  have "distinct (ref_held_topics s)"
    using sessions_wf_lookup [OF assms(1) s] by (simp add: session_wf_def)
  note distinct = this
  show ?thesis
  proof (rule ext)
    fix t'
    show "held_count (fst (set_ref_held c t False m)) t'
            = ((held_count m)(t := held_count m t - 1)) t'"
      using held_count_with_session [OF sessions_wf_unique [OF assms(1)] s,
          of "\<lambda>s. s\<lparr>ref_held_topics := remove1 t (ref_held_topics s)\<rparr>" t'] t distinct
      by (cases "t' = t") (simp_all add: set_ref_held_def)
  qed
qed

lemma held_count_remove_subscription [session_simps]:
  assumes "sessions_wf m"
  shows "held_count (fst (remove_subscription c t m)) =
           (held_count m)(t := held_count m t - of_bool (t \<in> set (get_ref_held_topics c m)))"
proof (cases "map_of (sessions m) c")
  case None
  then show ?thesis by (simp add: remove_subscription_def get_ref_held_topics_def)
next
  case (Some s)
  have "distinct (ref_held_topics s)"
    using sessions_wf_lookup [OF assms Some] by (simp add: session_wf_def)
  note distinct = this
  show ?thesis
  proof (rule ext)
    fix t'
    show "held_count (fst (remove_subscription c t m)) t' = ((held_count m)
            (t := held_count m t - of_bool (t \<in> set (get_ref_held_topics c m)))) t'"
      using count_update [OF sessions_wf_unique [OF assms],
          of "\<lambda>(_, s). t' \<in> set (ref_held_topics s)" c
            "s\<lparr>ref_held_topics := remove1 t (ref_held_topics s),
               subscribed_topics := AList.delete t (subscribed_topics s)\<rparr>"] Some distinct
      by (cases "t' = t")
        (simp_all add: remove_subscription_def held_count_def get_ref_held_topics_def)
  qed
qed

lemma held_count_remove_session [session_simps]:
  assumes "sessions_wf m"
  shows "held_count (fst (remove_session c m)) t =
           held_count m t - of_bool (t \<in> set (get_ref_held_topics c m))"
proof (cases "map_of (sessions m) c")
  case None
  then show ?thesis by (simp add: remove_session_def get_ref_held_topics_def)
next
  case (Some s)
  then show ?thesis
    using count_delete [OF sessions_wf_unique [OF assms],
        of "\<lambda>(_, s). t \<in> set (ref_held_topics s)" c]
    by (simp add: remove_session_def held_count_def get_ref_held_topics_def)
qed

lemma held_count_ge_1:
  assumes "sessions_wf m" and "t \<in> set (get_ref_held_topics c m)"
  shows "1 \<le> held_count m t"
  using held_count_pos_iff [OF assms(1), of t] assms(2) by auto

text \<open>Timeouts: exactly the sessions whose last heartbeat is more than the timeout ago.\<close>

lemma set_timed_out:
  "set (get_timed_out_sessions ho now m) =
     {c. \<exists>s. map_of (sessions m) c = Some s \<and>
             to_double (timeout_duration m * 10 ^ 9) < to_double (of_int (now - last_heartbeat s))}"
  by (auto simp: get_timed_out_sessions_def in_entries_iff image_iff)

lemma set_active_sessions: "set (get_active_sessions ho m) = {c. session_exists c m}"
  by (simp add: get_active_sessions_def map_fst_entries session_exists_def
      map_of_eq_None_iff set_eq_iff)

lemma distinct_active_sessions: "sessions_wf m \<Longrightarrow> distinct (get_active_sessions ho m)"
  by (simp add: get_active_sessions_def map_fst_entries sessions_wf_unique)

lemma distinct_timed_out:
  "sessions_wf m \<Longrightarrow> distinct (get_timed_out_sessions ho now m)"
  by (simp add: get_timed_out_sessions_def distinct_map_filter distinct_entries sessions_wf_unique)

end
