(* ===== verification/Message_Buffer.thy ===== *)
theory Message_Buffer
  imports Prelude "HOL-Library.Sublist"
begin

text \<open>
  \<^verbatim>\<open>MessageBuffer\<close> (\<^verbatim>\<open>message_buffer.hpp\<close>, \<^verbatim>\<open>message_buffer.cpp\<close>): one queue of received
  messages per topic, drained by the publish loop, with a time-to-live, and the retained
  newest sample of every latched (transient-local) topic. Every public method locks the one
  mutex of the class. An operation that reads the clock takes the reading as an argument, once per
  read; \<open>now_ns\<close> is what such a reading is.
\<close>

record buffered_message =
  timestamp_ns :: u64
  received_at_ns :: u64
  payload :: bytes

record message_buffer =
  topic_buffers :: "buffered_message list umap"
  max_message_age_ns :: u64
  latched_topics :: "string list"
  latched_last :: "buffered_message umap"

definition kDefaultMaxMessageAgeNs :: u64 where
  "kDefaultMaxMessageAgeNs = 1000000000"

definition new_message_buffer :: "u64 \<Rightarrow> message_buffer" where
  "new_message_buffer age =
     \<lparr>topic_buffers = [], max_message_age_ns = age, latched_topics = [], latched_last = []\<rparr>"

section \<open>Operations\<close>

text \<open>\<^verbatim>\<open>now_ns\<close>: what an injected clock answers, else the system clock.\<close>

definition now_ns :: "u64 option \<Rightarrow> int \<Rightarrow> u64" where
  "now_ns injected ticks = (case injected of None \<Rightarrow> get_current_time_ns ticks | Some v \<Rightarrow> v)"

text \<open>
  The age test of the cleanup loop: \<^verbatim>\<open>received_at_ns\<close> may lie ahead of the clock after a
  backwards step, and the subtraction is unsigned.
\<close>

definition too_old :: "u64 \<Rightarrow> u64 \<Rightarrow> buffered_message \<Rightarrow> bool" where
  "too_old now age msg \<longleftrightarrow> now > received_at_ns msg \<and> now - received_at_ns msg > age"

definition cleanup_old_messages :: "u64 \<Rightarrow> message_buffer \<Rightarrow> message_buffer" where
  "cleanup_old_messages now b =
     b\<lparr>topic_buffers :=
         filter (\<lambda>(_, buffer). buffer \<noteq> [])
           (map (\<lambda>(t, buffer). (t, dropWhile (too_old now (max_message_age_ns b)) buffer))
             (topic_buffers b))\<rparr>"

definition buffered :: "message_buffer \<Rightarrow> string \<Rightarrow> buffered_message list" where
  "buffered b t = (case map_of (topic_buffers b) t of None \<Rightarrow> [] | Some ms \<Rightarrow> ms)"

definition push_back :: "string \<Rightarrow> buffered_message \<Rightarrow> message_buffer \<Rightarrow> message_buffer" where
  "push_back t msg b = b\<lparr>topic_buffers := AList.update t (buffered b t @ [msg]) (topic_buffers b)\<rparr>"

definition add_message ::
    "u64 \<Rightarrow> u64 \<Rightarrow> string \<Rightarrow> u64 \<Rightarrow> bytes \<Rightarrow> message_buffer \<Rightarrow> message_buffer" where
  "add_message now1 now2 t ts d b0 =
     (let b1 = cleanup_old_messages now1 b0;
          msg = \<lparr>timestamp_ns = ts, received_at_ns = now2, payload = d\<rparr>;
          b2 = (if t \<in> set (latched_topics b1)
                then b1\<lparr>latched_last := AList.update t msg (latched_last b1)\<rparr>
                else b1)
      in push_back t msg b2)"

definition set_latched :: "string \<Rightarrow> bool \<Rightarrow> message_buffer \<Rightarrow> message_buffer" where
  "set_latched t latched b =
     (if latched
      then let b1 = b\<lparr>latched_topics := List.insert t (latched_topics b)\<rparr>
           in if map_of (latched_last b1) t = None \<and> buffered b1 t \<noteq> []
              then b1\<lparr>latched_last := AList.update t (last (buffered b1 t)) (latched_last b1)\<rparr>
              else b1
      else b\<lparr>latched_topics := remove1 t (latched_topics b),
             latched_last := AList.delete t (latched_last b)\<rparr>)"

definition get_latched :: "string \<Rightarrow> message_buffer \<Rightarrow> buffered_message option" where
  "get_latched t b = map_of (latched_last b) t"

definition get_latched_for_replay :: "string \<Rightarrow> message_buffer \<Rightarrow> buffered_message option" where
  "get_latched_for_replay t b =
     (case map_of (latched_last b) t of
        None \<Rightarrow> None
      | Some msg \<Rightarrow> if buffered b t \<noteq> [] then None else Some msg)"

definition move_messages :: "message_buffer \<Rightarrow> buffered_message list umap \<times> message_buffer" where
  "move_messages b = (topic_buffers b, b\<lparr>topic_buffers := []\<rparr>)"

definition clear_buffer :: "message_buffer \<Rightarrow> message_buffer" where
  "clear_buffer b = b\<lparr>topic_buffers := [], latched_topics := [], latched_last := []\<rparr>"

definition buffer_size :: "message_buffer \<Rightarrow> nat" where
  "buffer_size b = sum_list (map (\<lambda>(_, buffer). length buffer) (topic_buffers b))"

section \<open>Well-formedness\<close>

text \<open>
  No topic is filed with an empty queue, and a sample is retained only for a topic that is
  marked latched.
\<close>

definition buffer_wf :: "message_buffer \<Rightarrow> bool" where
  "buffer_wf b \<longleftrightarrow>
     unique_keys (topic_buffers b) \<and> (\<forall>t ms. (t, ms) \<in> set (topic_buffers b) \<longrightarrow> ms \<noteq> []) \<and>
     distinct (latched_topics b) \<and> unique_keys (latched_last b) \<and>
     set (keys (latched_last b)) \<subseteq> set (latched_topics b)"

lemma new_message_buffer_wf [simp]: "buffer_wf (new_message_buffer age)"
  by (simp add: buffer_wf_def new_message_buffer_def)

lemma cleanup_wf [wf_intros]: "buffer_wf b \<Longrightarrow> buffer_wf (cleanup_old_messages now b)"
  by (auto simp: buffer_wf_def cleanup_old_messages_def distinct_map_filter)

lemma push_back_wf [wf_intros]: "buffer_wf b \<Longrightarrow> buffer_wf (push_back t msg b)"
  by (auto simp: buffer_wf_def push_back_def in_update_iff split: if_splits)

lemma add_message_wf [wf_intros]: "buffer_wf b \<Longrightarrow> buffer_wf (add_message n1 n2 t ts d b)"
  unfolding add_message_def Let_def
  by (rule push_back_wf, drule cleanup_wf [of b n1]) (auto simp: buffer_wf_def)

lemma set_latched_wf [wf_intros]: "buffer_wf b \<Longrightarrow> buffer_wf (set_latched t l b)"
  by (auto simp: buffer_wf_def set_latched_def Let_def)

lemma move_messages_wf [wf_intros]: "buffer_wf b \<Longrightarrow> buffer_wf (snd (move_messages b))"
  by (simp add: buffer_wf_def move_messages_def)

lemma clear_buffer_wf [wf_intros]: "buffer_wf b \<Longrightarrow> buffer_wf (clear_buffer b)"
  by (simp add: buffer_wf_def clear_buffer_def)

section \<open>Contents\<close>

named_theorems buffer_simps \<open>contents of the buffer after each operation\<close>

lemma new_message_buffer_simps [simp]:
  "buffered (new_message_buffer age) t = []"
  "max_message_age_ns (new_message_buffer age) = age"
  by (simp_all add: buffered_def new_message_buffer_def)

lemma map_of_filter_nonempty:
  "unique_keys m \<Longrightarrow>
    map_of (filter (\<lambda>(_, x). x \<noteq> []) m) t = (case map_of m t of Some (y # ys) \<Rightarrow> Some (y # ys) | _ \<Rightarrow> None)"
proof (induction m)
  case Nil
  then show ?case by simp
next
  case (Cons a m)
  then show ?case
    by (cases a; cases "snd a") (auto split: option.splits list.splits simp: map_of_eq_None_iff image_iff)
qed

lemma buffered_cleanup [buffer_simps]:
  "buffer_wf b \<Longrightarrow>
    buffered (cleanup_old_messages now b) t = dropWhile (too_old now (max_message_age_ns b)) (buffered b t)"
  by (simp add: buffered_def cleanup_old_messages_def map_of_filter_nonempty buffer_wf_def
      map_of_map_values split: option.splits list.splits)
    (metis dropWhile_eq_Nil_conv)

lemma buffered_push_back [buffer_simps]:
  "buffered (push_back t msg b) t' = (if t' = t then buffered b t @ [msg] else buffered b t')"
  by (auto simp: buffered_def push_back_def)

lemma buffered_latched_fields [buffer_simps]:
  "buffered (b\<lparr>latched_last := l\<rparr>) t = buffered b t"
  "buffered (b\<lparr>latched_topics := ts\<rparr>) t = buffered b t"
  by (simp_all add: buffered_def)

lemma buffered_set_latched [buffer_simps]: "buffered (set_latched t l b) t' = buffered b t'"
  by (simp add: buffered_def set_latched_def Let_def)

lemma buffered_move [buffer_simps]: "buffered (snd (move_messages b)) t = []"
  by (simp add: buffered_def move_messages_def)

lemma cleanup_fields [simp]:
  "latched_topics (cleanup_old_messages now b) = latched_topics b"
  "latched_last (cleanup_old_messages now b) = latched_last b"
  "max_message_age_ns (cleanup_old_messages now b) = max_message_age_ns b"
  by (simp_all add: cleanup_old_messages_def)

lemma buffered_add_message [buffer_simps]:
  assumes "buffer_wf b"
  shows "buffered (add_message n1 n2 t ts d b) t' =
           dropWhile (too_old n1 (max_message_age_ns b)) (buffered b t')
           @ (if t' = t then [\<lparr>timestamp_ns = ts, received_at_ns = n2, payload = d\<rparr>] else [])"
  using assms by (simp add: add_message_def Let_def buffer_simps)

lemma max_age_after [simp]:
  "max_message_age_ns (add_message n1 n2 t ts d b) = max_message_age_ns b"
  "max_message_age_ns (set_latched t l b) = max_message_age_ns b"
  "max_message_age_ns (snd (move_messages b)) = max_message_age_ns b"
  by (simp_all add: add_message_def push_back_def set_latched_def move_messages_def Let_def)

lemma latched_topics_after [simp]:
  "latched_topics (add_message n1 n2 t ts d b) = latched_topics b"
  "latched_topics (snd (move_messages b)) = latched_topics b"
  by (simp_all add: add_message_def push_back_def move_messages_def Let_def)

lemma set_latched_topics:
  "buffer_wf b \<Longrightarrow> set (latched_topics (set_latched t l b)) =
     (if l then insert t (set (latched_topics b)) else set (latched_topics b) - {t})"
  by (simp add: set_latched_def Let_def buffer_wf_def)

lemma get_latched_after [buffer_simps]:
  "get_latched t' (add_message n1 n2 t ts d b) =
     (if t' = t \<and> t \<in> set (latched_topics b)
      then Some \<lparr>timestamp_ns = ts, received_at_ns = n2, payload = d\<rparr> else get_latched t' b)"
  "get_latched t' (snd (move_messages b)) = get_latched t' b"
  "get_latched t' (set_latched t False b) = (if t' = t then None else get_latched t' b)"
  by (auto simp: get_latched_def add_message_def push_back_def move_messages_def set_latched_def
      Let_def)

lemma get_latched_set [buffer_simps]:
  "get_latched t' (set_latched t True b) =
     (if t' = t \<and> get_latched t b = None \<and> buffered b t \<noteq> []
      then Some (last (buffered b t)) else get_latched t' b)"
  by (auto simp: get_latched_def set_latched_def Let_def buffered_def)

lemma replay_iff:
  "get_latched_for_replay t b = Some msg \<longleftrightarrow> get_latched t b = Some msg \<and> buffered b t = []"
  by (auto simp: get_latched_for_replay_def get_latched_def split: option.splits)

lemma latched_only_marked: "buffer_wf b \<Longrightarrow> get_latched t b = Some msg \<Longrightarrow> t \<in> set (latched_topics b)"
  by (auto simp: buffer_wf_def get_latched_def dest!: map_of_Some_in_keys)

section \<open>Histories of the buffer\<close>

text \<open>
  The three uses the server makes of the buffer: the ingest callback adds, the request
  handlers mark topics, the publish loop drains. A history yields, per topic, what the drains
  delivered; the specification compares it with what was added.
\<close>

datatype buffer_op =
    Add u64 u64 string u64 bytes
  | Mark string bool
  | Drain

fun buffer_step :: "buffer_op \<Rightarrow> message_buffer \<Rightarrow> (string \<Rightarrow> buffered_message list) \<times> message_buffer" where
  "buffer_step (Add n1 n2 t ts d) b = (\<lambda>_. [], add_message n1 n2 t ts d b)"
| "buffer_step (Mark t l) b = (\<lambda>_. [], set_latched t l b)"
| "buffer_step Drain b =
     (let (out, b') = move_messages b
      in (\<lambda>t. case map_of out t of None \<Rightarrow> [] | Some ms \<Rightarrow> ms, b'))"

fun buffer_run :: "buffer_op list \<Rightarrow> message_buffer \<Rightarrow> (string \<Rightarrow> buffered_message list) \<times> message_buffer" where
  "buffer_run [] b = (\<lambda>_. [], b)"
| "buffer_run (x # xs) b =
     (let (o1, b1) = buffer_step x b; (o2, b2) = buffer_run xs b1
      in (\<lambda>t. o1 t @ o2 t, b2))"

fun added_by :: "string \<Rightarrow> buffer_op \<Rightarrow> buffered_message list" where
  "added_by t (Add n1 n2 t' ts d) =
     (if t' = t then [\<lparr>timestamp_ns = ts, received_at_ns = n2, payload = d\<rparr>] else [])"
| "added_by t _ = []"

definition added :: "string \<Rightarrow> buffer_op list \<Rightarrow> buffered_message list" where
  "added t xs = concat (map (added_by t) xs)"

lemma buffer_step_drain: "buffer_step Drain b = (buffered b, snd (move_messages b))"
  by (simp add: move_messages_def buffered_def fun_eq_iff)

lemma buffer_step_wf [wf_intros]: "buffer_wf b \<Longrightarrow> buffer_wf (snd (buffer_step x b))"
  by (cases x)
    (simp_all only: buffer_step_drain buffer_step.simps(1,2) snd_conv
      add_message_wf set_latched_wf move_messages_wf)

lemma subseq_dropWhile: "subseq (dropWhile P xs) xs"
  by (rule suffix_imp_subseq [OF suffix_dropWhile])

lemma buffer_step_subseq:
  assumes "buffer_wf b"
  shows "subseq (fst (buffer_step x b) t @ buffered (snd (buffer_step x b)) t)
           (buffered b t @ added_by t x)"
proof (cases x)
  case (Add n1 n2 t' ts d)
  then show ?thesis
    using assms by (auto simp: buffer_simps intro!: list_emb_append_mono subseq_dropWhile)
next
  case (Mark t' l)
  then show ?thesis by (simp add: buffer_simps)
next
  case Drain
  then show ?thesis
    unfolding Drain buffer_step_drain by (simp add: buffer_simps)
qed

text \<open>
  The readings of a history that stay within one time-to-live of each other: no message is
  ever too old.
\<close>

definition within_ttl :: "u64 \<Rightarrow> u64 \<Rightarrow> u64 \<Rightarrow> bool" where
  "within_ttl lo age n \<longleftrightarrow> lo \<le> n \<and> n - lo \<le> age"

fun op_within :: "u64 \<Rightarrow> u64 \<Rightarrow> buffer_op \<Rightarrow> bool" where
  "op_within lo age (Add n1 n2 _ _ _) \<longleftrightarrow> within_ttl lo age n1 \<and> within_ttl lo age n2"
| "op_within lo age _ \<longleftrightarrow> True"

lemma not_too_old:
  assumes "within_ttl lo age now" and "within_ttl lo age (received_at_ns msg)"
  shows "\<not> too_old now age msg"
proof
  assume "too_old now age msg"
  then have "unat (received_at_ns msg) < unat now"
      and "unat age < unat (now - received_at_ns msg)"
    by (simp_all add: too_old_def word_less_nat_alt)
  moreover from assms have "unat lo \<le> unat now" "unat (now - lo) \<le> unat age"
      "unat lo \<le> unat (received_at_ns msg)"
    by (simp_all add: within_ttl_def word_le_nat_alt)
  ultimately show False by (simp add: unat_sub word_le_nat_alt)
qed

lemma buffer_step_exact:
  assumes wf: "buffer_wf b" and op: "op_within lo (max_message_age_ns b) x"
    and fresh: "\<And>msg. msg \<in> set (buffered b t) \<Longrightarrow> within_ttl lo (max_message_age_ns b) (received_at_ns msg)"
  shows "fst (buffer_step x b) t @ buffered (snd (buffer_step x b)) t = buffered b t @ added_by t x"
proof (cases x)
  case (Add n1 n2 t' ts d)
  with op have "within_ttl lo (max_message_age_ns b) n1" by simp
  with fresh have "dropWhile (too_old n1 (max_message_age_ns b)) (buffered b t) = buffered b t"
    by (cases "buffered b t") (simp_all add: not_too_old)
  with Add wf show ?thesis by (simp add: buffer_simps)
next
  case (Mark t' l)
  then show ?thesis by (simp add: buffer_simps)
next
  case Drain
  then show ?thesis unfolding Drain buffer_step_drain by (simp add: buffer_simps)
qed

lemma max_age_step [simp]: "max_message_age_ns (snd (buffer_step x b)) = max_message_age_ns b"
  by (cases x) (simp_all add: buffer_step_drain del: buffer_step.simps(3))

lemma fresh_step:
  assumes "buffer_wf b" and "op_within lo (max_message_age_ns b) x"
    and fresh: "\<forall>msg \<in> set (buffered b t). within_ttl lo (max_message_age_ns b) (received_at_ns msg)"
  shows "\<forall>msg \<in> set (buffered (snd (buffer_step x b)) t).
           within_ttl lo (max_message_age_ns b) (received_at_ns msg)"
proof
  fix msg
  assume msg: "msg \<in> set (buffered (snd (buffer_step x b)) t)"
  from fresh have "fst (buffer_step x b) t @ buffered (snd (buffer_step x b)) t
      = buffered b t @ added_by t x"
    by (intro buffer_step_exact [OF assms(1,2)]) blast
  then have "set (buffered (snd (buffer_step x b)) t) \<subseteq> set (buffered b t @ added_by t x)"
    by (metis set_append sup_ge2)
  with msg have "msg \<in> set (buffered b t) \<or> msg \<in> set (added_by t x)" by auto
  then show "within_ttl lo (max_message_age_ns b) (received_at_ns msg)"
    using assms(2) fresh by (cases x) (auto split: if_splits)
qed

lemma buffer_run_Cons:
  "fst (buffer_run (x # xs) b) t = fst (buffer_step x b) t @ fst (buffer_run xs (snd (buffer_step x b))) t"
  "snd (buffer_run (x # xs) b) = snd (buffer_run xs (snd (buffer_step x b)))"
  by (simp_all add: case_prod_beta)

lemma buffer_run_subseq:
  assumes "buffer_wf b"
  shows "subseq (fst (buffer_run xs b) t @ buffered (snd (buffer_run xs b)) t)
           (buffered b t @ added t xs)"
  using assms
proof (induction xs arbitrary: b)
  case Nil
  then show ?case by (simp add: added_def)
next
  case (Cons x xs)
  let ?b1 = "snd (buffer_step x b)"
  have wf: "buffer_wf ?b1" using Cons.prems by (rule buffer_step_wf)
  have "subseq (fst (buffer_step x b) t @ (fst (buffer_run xs ?b1) t
          @ buffered (snd (buffer_run xs ?b1)) t))
        (fst (buffer_step x b) t @ (buffered ?b1 t @ added t xs))"
    by (rule list_emb_append_mono [OF subseq_order.refl Cons.IH [OF wf]])
  also have "subseq \<dots> ((buffered b t @ added_by t x) @ added t xs)"
    unfolding append_assoc [symmetric]
    by (rule list_emb_append_mono [OF buffer_step_subseq [OF Cons.prems] subseq_order.refl])
  finally show ?case by (simp only: buffer_run_Cons added_def list.map concat.simps append_assoc)
qed

lemma buffer_run_exact:
  assumes "buffer_wf b" and "\<forall>x \<in> set xs. op_within lo (max_message_age_ns b) x"
    and "\<forall>msg \<in> set (buffered b t). within_ttl lo (max_message_age_ns b) (received_at_ns msg)"
  shows "fst (buffer_run xs b) t @ buffered (snd (buffer_run xs b)) t = buffered b t @ added t xs"
  using assms
proof (induction xs arbitrary: b)
  case Nil
  then show ?case by (simp add: added_def)
next
  case (Cons x xs)
  let ?b1 = "snd (buffer_step x b)"
  have op: "op_within lo (max_message_age_ns b) x" using Cons.prems(2) by simp
  have "buffer_wf ?b1" using Cons.prems(1) by (rule buffer_step_wf)
  moreover have "\<forall>msg \<in> set (buffered ?b1 t). within_ttl lo (max_message_age_ns ?b1) (received_at_ns msg)"
    unfolding max_age_step by (rule fresh_step [OF Cons.prems(1) op Cons.prems(3)])
  ultimately have "fst (buffer_run xs ?b1) t @ buffered (snd (buffer_run xs ?b1)) t
      = buffered ?b1 t @ added t xs"
    using Cons.prems(2) by (intro Cons.IH) simp_all
  moreover have "fst (buffer_step x b) t @ buffered ?b1 t = buffered b t @ added_by t x"
    using Cons.prems op by (intro buffer_step_exact) auto
  ultimately show ?case
    by (simp only: buffer_run_Cons added_def list.map concat.simps append_assoc)
      (metis append_assoc)
qed

section \<open>Properties\<close>

text \<open>
  C37. The buffer never invents, duplicates or reorders messages: over any history of adds,
  latch changes and drains, what the drains delivered for a topic followed by what is still
  buffered is a subsequence of what was added, whatever the clock does.
\<close>

theorem buffer_fifo_no_duplicates:
  "subseq (fst (buffer_run xs (new_message_buffer age)) t
             @ buffered (snd (buffer_run xs (new_message_buffer age))) t)
     (added t xs)"
  using buffer_run_subseq [of "new_message_buffer age" xs t] by simp

text \<open>
  C36. The buffer loses nothing inside the time-to-live: when all clock readings of a history
  lie within the maximum age of the earliest one, every added message is delivered exactly
  once and in order, or is still buffered.
\<close>

theorem buffer_exact_within_ttl:
  assumes "\<forall>x \<in> set xs. op_within lo age x"
  shows "fst (buffer_run xs (new_message_buffer age)) t
           @ buffered (snd (buffer_run xs (new_message_buffer age))) t = added t xs"
  using buffer_run_exact [of "new_message_buffer age" xs lo t] assms by simp

theorem buffer_exact_within_ttl_witness:
  "fst (buffer_run [Add 5 5 ''/a'' 1 [7], Add 6 6 ''/a'' 2 [8], Drain, Add 9 9 ''/a'' 3 [9]]
         (new_message_buffer 10)) ''/a''
     @ buffered (snd (buffer_run [Add 5 5 ''/a'' 1 [7], Add 6 6 ''/a'' 2 [8], Drain,
         Add 9 9 ''/a'' 3 [9]] (new_message_buffer 10))) ''/a''
   = [\<lparr>timestamp_ns = 1, received_at_ns = 5, payload = [7]\<rparr>,
      \<lparr>timestamp_ns = 2, received_at_ns = 6, payload = [8]\<rparr>,
      \<lparr>timestamp_ns = 3, received_at_ns = 9, payload = [9]\<rparr>]"
proof -
  have "\<forall>x \<in> set [Add 5 5 ''/a'' 1 [7], Add 6 6 ''/a'' 2 [8], Drain, Add 9 9 ''/a'' 3 [9]].
      op_within 5 10 x"
    by (simp add: within_ttl_def)
  from buffer_exact_within_ttl [OF this, of "''/a''"] show ?thesis
    by (simp add: added_def)
qed

text \<open>
  A replay never duplicates a sample that is on its way: a sample is offered for replay
  exactly when it is the retained one and the topic has nothing buffered, and a drain is what
  makes the last buffered sample of a latched topic available.
\<close>

theorem latched_replay_after_drain:
  assumes "buffer_wf b" and "t \<in> set (latched_topics b)"
  shows "get_latched_for_replay t (add_message n1 n2 t ts d b) = None \<and>
         get_latched_for_replay t (snd (move_messages (add_message n1 n2 t ts d b))) =
           Some \<lparr>timestamp_ns = ts, received_at_ns = n2, payload = d\<rparr>"
proof
  have "buffered (add_message n1 n2 t ts d b) t \<noteq> []"
    using assms(1) by (simp add: buffer_simps)
  then show "get_latched_for_replay t (add_message n1 n2 t ts d b) = None"
    by (metis replay_iff not_None_eq)
  show "get_latched_for_replay t (snd (move_messages (add_message n1 n2 t ts d b))) =
      Some \<lparr>timestamp_ns = ts, received_at_ns = n2, payload = d\<rparr>"
    using assms(2) by (simp add: replay_iff buffer_simps)
qed

theorem latched_replay_after_drain_witness:
  "get_latched_for_replay ''/tf'' (add_message 3 4 ''/tf'' 9 [1]
       (set_latched ''/tf'' True (new_message_buffer 10))) = None
   \<and> get_latched_for_replay ''/tf'' (snd (move_messages (add_message 3 4 ''/tf'' 9 [1]
       (set_latched ''/tf'' True (new_message_buffer 10))))) =
     Some \<lparr>timestamp_ns = 9, received_at_ns = 4, payload = [1]\<rparr>"
proof -
  have "buffer_wf (set_latched ''/tf'' True (new_message_buffer 10))"
    by (intro set_latched_wf new_message_buffer_wf)
  moreover have "''/tf'' \<in> set (latched_topics (set_latched ''/tf'' True (new_message_buffer 10)))"
    by (simp add: set_latched_topics)
  ultimately show ?thesis using latched_replay_after_drain by blast
qed

end
