(* ===== verification/Message_Serializer.thy ===== *)
theory Message_Serializer
  imports Protocol "HOL-Library.Char_ord"
begin

unbundle bit_operations_syntax

text \<open>
  \<^verbatim>\<open>AggregatedMessageSerializer\<close> (\<^verbatim>\<open>message_serializer.hpp\<close>, \<^verbatim>\<open>message_serializer.cpp\<close>): the
  binary frames. The Zstandard library is a parameter: a compressor that may fail, a reader
  of the size recorded in a compressed frame and a decompressor. The decoder at the end is
  the format of \<^verbatim>\<open>docs/API.md\<close>, read as a client reads it; it is the specification that the
  serializer is compared with.
\<close>

section \<open>The serializer\<close>

record serializer =
  serialized_data :: bytes
  message_count :: nat

definition new_serializer :: serializer where
  "new_serializer = \<lparr>serialized_data = [], message_count = 0\<rparr>"

text \<open>\<^verbatim>\<open>write_le<T>\<close>: the bytes of a value, least significant first.\<close>

definition write_le :: "bytes \<Rightarrow> 'a::len word \<Rightarrow> bytes" where
  "write_le buffer value =
     buffer @ map (\<lambda>i. ucast (drop_bit (i * 8) value AND 0xFF)) [0..<LENGTH('a) div 8]"

definition string_bytes :: "string \<Rightarrow> bytes" where
  "string_bytes s = map (\<lambda>c. of_nat (of_char c)) s"

text \<open>The length is cast to 16 bits; every character is written.\<close>

definition write_str :: "bytes \<Rightarrow> string \<Rightarrow> bytes" where
  "write_str buffer str =
     write_le buffer (of_nat (length str) :: u16) @ string_bytes str"

text \<open>The payload length is cast to 32 bits, and only so many bytes are inserted.\<close>

definition serialize_message :: "string \<Rightarrow> u64 \<Rightarrow> bytes \<Rightarrow> serializer \<Rightarrow> serializer" where
  "serialize_message topic_name ts d s =
     (let b1 = write_str (serialized_data s) topic_name;
          b2 = write_le b1 ts;
          msg_size = (of_nat (length d) :: u32);
          b3 = write_le b2 msg_size
      in \<lparr>serialized_data = b3 @ take (unat msg_size) d, message_count = message_count s + 1\<rparr>)"

definition clear_serializer :: "serializer \<Rightarrow> serializer" where
  "clear_serializer s = s\<lparr>serialized_data := [], message_count := 0\<rparr>"

text \<open>The four header words, in the byte order of a little-endian host.\<close>

definition frame_header :: "u32 \<Rightarrow> serializer \<Rightarrow> bytes" where
  "frame_header flags s =
     write_le (write_le (write_le (write_le [] kBinaryFrameMagic)
         (of_nat (message_count s) :: u32))
       (of_nat (length (serialized_data s)) :: u32))
     flags"

type_synonym compressor = "bytes \<Rightarrow> bytes option"

definition finalize :: "compressor \<Rightarrow> u32 \<Rightarrow> serializer \<Rightarrow> exn + bytes" where
  "finalize zstd flags s =
     (let header = frame_header flags s
      in if serialized_data s = [] then Inr header
         else (case zstd (serialized_data s) of
                 None \<Rightarrow> Inl StdExn
               | Some compressed \<Rightarrow> Inr (header @ compressed)))"

definition compress_zstd :: "compressor \<Rightarrow> bytes \<Rightarrow> exn + bytes" where
  "compress_zstd zstd d =
     (if d = [] then Inr []
      else (case zstd d of None \<Rightarrow> Inl StdExn | Some compressed \<Rightarrow> Inr compressed))"

datatype content_size = ContentError | ContentUnknown | ContentSize nat

text \<open>
  The output vector is sized by the frame's own record; the decompressor fills a prefix of
  it.
\<close>

definition decompress_zstd ::
    "(bytes \<Rightarrow> content_size) \<Rightarrow> (nat \<Rightarrow> bytes \<Rightarrow> bytes option) \<Rightarrow> bytes \<Rightarrow> exn + bytes" where
  "decompress_zstd frame_size unzstd d =
     (if d = [] then Inr []
      else (case frame_size d of
              ContentError \<Rightarrow> Inl StdExn
            | ContentUnknown \<Rightarrow> Inl StdExn
            | ContentSize n \<Rightarrow>
                (case unzstd n d of
                   None \<Rightarrow> Inl StdExn
                 | Some out \<Rightarrow> Inr (out @ replicate (n - length out) 0))))"

section \<open>The wire format\<close>

text \<open>One message as a client sees it: topic, timestamp, payload.\<close>

type_synonym wire_message = "string \<times> u64 \<times> bytes"

fun le_value :: "bytes \<Rightarrow> nat" where
  "le_value [] = 0"
| "le_value (b # bs) = unat b + 256 * le_value bs"

definition read_le :: "nat \<Rightarrow> bytes \<Rightarrow> (nat \<times> bytes) option" where
  "read_le k bs = (if length bs < k then None else Some (le_value (take k bs), drop k bs))"

definition read_bytes :: "nat \<Rightarrow> bytes \<Rightarrow> (bytes \<times> bytes) option" where
  "read_bytes k bs = (if length bs < k then None else Some (take k bs, drop k bs))"

definition bytes_string :: "bytes \<Rightarrow> string" where
  "bytes_string bs = map (\<lambda>b. char_of (unat b)) bs"

definition parse_message :: "bytes \<Rightarrow> (wire_message \<times> bytes) option" where
  "parse_message bs =
     Option.bind (read_le 2 bs) (\<lambda>(n, bs1).
     Option.bind (read_bytes n bs1) (\<lambda>(name, bs2).
     Option.bind (read_le 8 bs2) (\<lambda>(ts, bs3).
     Option.bind (read_le 4 bs3) (\<lambda>(m, bs4).
     Option.bind (read_bytes m bs4) (\<lambda>(d, bs5).
       Some ((bytes_string name, of_nat ts, d), bs5))))))"

text \<open>\<^verbatim>\<open>message_count\<close> messages in sequence, and nothing after them.\<close>

fun parse_payload :: "nat \<Rightarrow> bytes \<Rightarrow> wire_message list option" where
  "parse_payload 0 bs = (if bs = [] then Some [] else None)"
| "parse_payload (Suc n) bs =
     (case parse_message bs of
        None \<Rightarrow> None
      | Some (m, rest) \<Rightarrow> map_option (Cons m) (parse_payload n rest))"

text \<open>A whole frame: header fields, then the payload after decompression.\<close>

definition decode_frame :: "(bytes \<Rightarrow> bytes option) \<Rightarrow> bytes \<Rightarrow> (nat \<times> wire_message list) option" where
  "decode_frame unpack frame =
     Option.bind (read_le 4 frame) (\<lambda>(magic, f1).
     Option.bind (read_le 4 f1) (\<lambda>(count, f2).
     Option.bind (read_le 4 f2) (\<lambda>(size, f3).
     Option.bind (read_le 4 f3) (\<lambda>(flags, body).
       if magic \<noteq> unat kBinaryFrameMagic then None
       else Option.bind (if body = [] then Some [] else unpack body) (\<lambda>payload.
         if length payload \<noteq> size then None
         else map_option (Pair flags) (parse_payload count payload))))))"

section \<open>Reading back what was written\<close>

lemma length_write_le [simp]:
  "length (write_le buffer (v :: 'a::len word)) = length buffer + LENGTH('a) div 8"
  by (simp add: write_le_def)

lemma write_le_append: "write_le buffer v = buffer @ write_le [] v"
  by (simp add: write_le_def)

lemma frame_header_split:
  "frame_header flags s =
     write_le [] kBinaryFrameMagic @ write_le [] (of_nat (message_count s) :: u32)
     @ write_le [] (of_nat (length (serialized_data s)) :: u32) @ write_le [] flags"
  unfolding frame_header_def
  by (subst (1 2 3) write_le_append) simp

lemma byte_of_word:
  "(ucast (drop_bit (i * 8) (v :: 'a::len word) AND 0xFF) :: u8) = of_nat (unat v div 256 ^ i)"
proof -
  have mask: "(0xFF :: 'a word) = mask 8" by (simp add: mask_eq_exp_minus_1)
  have "(ucast (drop_bit (i * 8) v AND 0xFF) :: u8) = ucast (drop_bit (i * 8) v)"
  proof (rule bit_word_eqI)
    fix n
    assume "n < LENGTH(8)"
    then show "bit (ucast (drop_bit (i * 8) v AND 0xFF) :: u8) n
        = bit (ucast (drop_bit (i * 8) v) :: u8) n"
      unfolding mask by (auto simp: bit_simps dest: bit_imp_le_length)
  qed
  also have "\<dots> = of_nat (unat (drop_bit (i * 8) v))"
    by simp
  also have "unat (drop_bit (i * 8) v) = unat v div (2 ^ 8) ^ i"
    unfolding unat_drop_bit_eq by (simp only: drop_bit_eq_div power_mult [symmetric] mult.commute [of i])
  also have "\<dots> = unat v div 256 ^ i"
    by simp
  finally show ?thesis .
qed

lemma le_value_append: "le_value (xs @ ys) = le_value xs + 256 ^ length xs * le_value ys"
  by (induction xs) (simp_all add: algebra_simps)

lemma le_value_digits: "le_value (map (\<lambda>i. of_nat (n div 256 ^ i)) [0..<k]) = n mod 256 ^ k"
proof (induction k)
  case 0
  then show ?case by simp
next
  case (Suc k)
  have "le_value (map (\<lambda>i. of_nat (n div 256 ^ i)) [0..<Suc k])
      = n mod 256 ^ k + 256 ^ k * (n div 256 ^ k mod 256)"
    using Suc by (simp add: le_value_append unsigned_of_nat take_bit_eq_mod)
  also have "\<dots> = n mod 256 ^ Suc k"
    by (simp add: mod_mult2_eq [of n "256 ^ k" 256, simplified mult.commute] mult.commute)
  finally show ?case .
qed

lemma le_value_write_le:
  assumes "8 dvd LENGTH('a)"
  shows "le_value (write_le [] (v :: 'a::len word)) = unat v"
proof -
  from assms obtain k where k: "LENGTH('a) = 8 * k" by blast
  have "unat v < 2 ^ LENGTH('a)" by (rule unsigned_less)
  then have "unat v < 256 ^ k" by (simp add: k power_mult)
  moreover have "LENGTH('a) div 8 = k" by (simp add: k)
  ultimately show ?thesis by (simp add: write_le_def byte_of_word le_value_digits)
qed

lemma read_le_write_le:
  assumes "8 dvd LENGTH('a)" and "k = LENGTH('a) div 8"
  shows "read_le k (write_le [] (v :: 'a::len word) @ rest) = Some (unat v, rest)"
  by (simp add: read_le_def assms(2) le_value_write_le [OF assms(1)])

lemma read_bytes_append: "k = length xs \<Longrightarrow> read_bytes k (xs @ rest) = Some (xs, rest)"
  by (simp add: read_bytes_def)

lemma length_string_bytes [simp]: "length (string_bytes s) = length s"
  by (simp add: string_bytes_def)

lemma bytes_string_string_bytes [simp]: "bytes_string (string_bytes s) = s"
proof -
  have "char_of (unat (of_nat (of_char c) :: u8)) = c" for c
    by (simp add: unsigned_of_nat take_bit_eq_mod)
  then show ?thesis by (simp add: bytes_string_def string_bytes_def comp_def)
qed

section \<open>Well-sized messages\<close>

definition message_bytes :: "wire_message \<Rightarrow> bytes" where
  "message_bytes msg = (case msg of (topic, ts, d) \<Rightarrow>
     serialized_data (serialize_message topic ts d new_serializer))"

text \<open>The sizes that the two length fields can record.\<close>

definition well_sized :: "wire_message \<Rightarrow> bool" where
  "well_sized msg = (case msg of (topic, ts, d) \<Rightarrow> length topic < 2 ^ 16 \<and> length d < 2 ^ 32)"

definition serialize_all :: "wire_message list \<Rightarrow> serializer \<Rightarrow> serializer" where
  "serialize_all msgs s = fold (\<lambda>(topic, ts, d). serialize_message topic ts d) msgs s"

lemma serialize_message_fields:
  "serialized_data (serialize_message topic ts d s)
     = serialized_data s @ message_bytes (topic, ts, d)"
  "message_count (serialize_message topic ts d s) = Suc (message_count s)"
  by (simp_all add: message_bytes_def serialize_message_def Let_def write_str_def
      new_serializer_def write_le_append [of "serialized_data s"]
      write_le_append [of "_ @ _"] write_le_append [of "write_le _ _"])

lemma serialize_all_fields:
  "serialized_data (serialize_all msgs s) = serialized_data s @ concat (map message_bytes msgs)"
  "message_count (serialize_all msgs s) = message_count s + length msgs"
  by (induction msgs arbitrary: s) (auto simp: serialize_all_def serialize_message_fields)

lemma message_bytes_split:
  "message_bytes (topic, ts, d) =
     write_le [] (of_nat (length topic) :: u16) @ string_bytes topic @ write_le [] ts
     @ write_le [] (of_nat (length d) :: u32) @ take (unat (of_nat (length d) :: u32)) d"
  by (simp add: message_bytes_def serialize_message_def Let_def write_str_def new_serializer_def
      write_le_append [of "_ @ _"] write_le_append [of "write_le _ _"])

lemma parse_message_bytes:
  assumes "well_sized msg"
  shows "parse_message (message_bytes msg @ rest) = Some (msg, rest)"
proof -
  obtain topic ts d where msg: "msg = (topic, ts, d)" by (cases msg)
  from assms have t: "unat (of_nat (length topic) :: u16) = length topic"
      and d: "unat (of_nat (length d) :: u32) = length d"
    by (simp_all add: msg well_sized_def unsigned_of_nat take_bit_eq_mod)
  show ?thesis
    by (simp add: msg message_bytes_split parse_message_def read_le_write_le read_bytes_append t d)
qed

lemma parse_payload_concat:
  assumes "\<forall>msg \<in> set msgs. well_sized msg"
  shows "parse_payload (length msgs) (concat (map message_bytes msgs)) = Some msgs"
  using assms by (induction msgs) (simp_all add: parse_message_bytes)

lemma length_message_bytes: "well_sized (topic, ts, d) \<Longrightarrow>
    length (message_bytes (topic, ts, d)) = 14 + length topic + length d"
  by (simp add: message_bytes_split well_sized_def unsigned_of_nat take_bit_eq_mod)

lemma le_value_bound: "le_value bs < 256 ^ length bs"
proof (induction bs)
  case Nil
  then show ?case by simp
next
  case (Cons b bs)
  have "unat b < 256" using unsigned_less [of b, where 'a = nat] by simp
  with Cons show ?case by simp
qed

lemma parse_message_topic_bound:
  assumes "parse_message bs = Some ((topic, ts, d), rest)"
  shows "length topic < 2 ^ 16"
proof -
  from assms obtain n bs1 name where n: "read_le 2 bs = Some (n, bs1)"
      and "read_bytes n bs1 = Some (name, drop n bs1)" and "topic = bytes_string name"
    by (auto simp: parse_message_def read_bytes_def bind_eq_Some_conv split: if_splits)
  then have "length topic = n" by (auto simp: bytes_string_def read_bytes_def split: if_splits)
  moreover have "n < 256 ^ 2"
    using n le_value_bound [of "take 2 bs"] by (auto simp: read_le_def split: if_splits)
  ultimately show ?thesis by simp
qed

lemma finalize_decodes:
  assumes lossless: "\<And>d. d \<noteq> [] \<Longrightarrow> \<exists>z. zstd d = Some z \<and> z \<noteq> [] \<and> unpack z = Some d"
    and sized: "\<forall>msg \<in> set msgs. well_sized msg"
    and count: "length msgs < 2 ^ 32"
    and size: "length (concat (map message_bytes msgs)) < 2 ^ 32"
  shows "\<exists>frame. finalize zstd flags (serialize_all msgs new_serializer) = Inr frame \<and>
           decode_frame unpack frame = Some (unat flags, msgs)"
proof -
  let ?s = "serialize_all msgs new_serializer"
  let ?body = "concat (map message_bytes msgs)"
  have data: "serialized_data ?s = ?body" and n: "message_count ?s = length msgs"
    by (simp_all add: serialize_all_fields) (simp_all add: new_serializer_def)
  from count size have words: "unat (of_nat (length msgs) :: u32) = length msgs"
      "unat (of_nat (length ?body) :: u32) = length ?body"
    by (simp_all add: unsigned_of_nat take_bit_eq_mod)
  have decode: "decode_frame unpack (frame_header flags ?s @ packed) = Some (unat flags, msgs)"
    if "(if packed = [] then Some [] else unpack packed) = Some ?body" for packed
    using that parse_payload_concat [OF sized]
    by (simp add: decode_frame_def frame_header_split read_le_write_le data n words)
  show ?thesis
  proof (cases "?body = []")
    case True
    with decode [of "[]"] show ?thesis by (simp add: finalize_def data)
  next
    case False
    with lossless obtain z where z: "zstd ?body = Some z" "z \<noteq> []" "unpack z = Some ?body"
      by blast
    have "finalize zstd flags ?s = Inr (frame_header flags ?s @ z)"
      using z False by (simp add: finalize_def data del: concat_eq_Nil_conv)
    with decode [of z] z show ?thesis by auto
  qed
qed

section \<open>Properties\<close>

text \<open>
  C16. A frame can be read back: for messages whose topic and payload fit their length fields,
  with fewer than two to the 32nd messages and payload bytes, \<^verbatim>\<open>finalize\<close> succeeds and the
  format of \<^verbatim>\<open>docs/API.md\<close> decodes the frame to the flags and exactly these messages in order.
  The hypothesis on Zstandard is that compression succeeds and is lossless.
\<close>

theorem frame_roundtrip:
  assumes lossless: "\<And>d. d \<noteq> [] \<Longrightarrow> \<exists>z. zstd d = Some z \<and> z \<noteq> [] \<and> unpack z = Some d"
    and sized: "\<forall>msg \<in> set msgs. well_sized msg"
    and count: "length msgs < 2 ^ 32"
    and size: "length (concat (map message_bytes msgs)) < 2 ^ 32"
  shows "\<exists>frame. finalize zstd flags (serialize_all msgs new_serializer) = Inr frame \<and>
           decode_frame unpack frame = Some (unat flags, msgs)"
  by (rule finalize_decodes [OF assms])

theorem frame_roundtrip_witness:
  "\<exists>frame. finalize (\<lambda>d. Some (40 # d)) 0
       (serialize_all [(''/imu'', 5, [1, 2]), (''/odom'', 6, [])] new_serializer) = Inr frame \<and>
     decode_frame (\<lambda>z. Some (tl z)) frame
       = Some (unat (0 :: u32), [(''/imu'', 5, [1, 2]), (''/odom'', 6, [])])"
  by (rule frame_roundtrip)
    (simp_all add: well_sized_def message_bytes_split)

text \<open>
  The frame header is 16 bytes and starts with the magic word; a frame of no message is
  the bare header.
\<close>

theorem frame_header_layout:
  "length (frame_header flags s) = kBinaryHeaderSize \<and>
   take 4 (frame_header flags s) = [0x50, 0x4A, 0x52, 0x42] \<and>
   finalize zstd flags (clear_serializer s) = Inr (frame_header flags new_serializer)"
proof -
  have "write_le [] kBinaryFrameMagic = [0x50, 0x4A, 0x52, 0x42]"
    unfolding kBinaryFrameMagic_def by code_simp
  then show ?thesis
    by (simp add: frame_header_split kBinaryHeaderSize_def finalize_def clear_serializer_def
        new_serializer_def)
qed

text \<open>
  A topic name of 65536 bytes or more corrupts the stream: its length field is the length
  modulo two to the 16th while all of its bytes are written, and no client that follows the
  documented format reads the message back.
\<close>

theorem long_topic_not_decodable:
  assumes "2 ^ 16 \<le> length topic"
  shows "parse_payload 1 (message_bytes (topic, ts, d)) \<noteq> Some [(topic, ts, d)]"
proof
  assume "parse_payload 1 (message_bytes (topic, ts, d)) = Some [(topic, ts, d)]"
  then obtain rest where "parse_message (message_bytes (topic, ts, d)) = Some ((topic, ts, d), rest)"
    by (auto split: option.splits if_splits simp: numeral_eq_Suc)
  then have "length topic < 2 ^ 16" by (rule parse_message_topic_bound)
  with assms show False by simp
qed

theorem long_topic_not_decodable_witness:
  "parse_payload 1 (message_bytes (replicate 65536 (CHR ''a''), 0, []))
     \<noteq> Some [(replicate 65536 (CHR ''a''), 0, [])]"
  by (rule long_topic_not_decodable) simp

end
