(* ===== verification/Whitelist_Filter.thy ===== *)
theory Whitelist_Filter
  imports Prelude
begin

text \<open>
  \<^verbatim>\<open>WhitelistFilter\<close> (\<^verbatim>\<open>whitelist_filter.hpp\<close>, \<^verbatim>\<open>whitelist_filter.cpp\<close>). The regular expression
  engine is a parameter: a compiler from patterns that returns the engine's message on a
  malformed pattern, and the full-match test on a compiled expression.
\<close>

type_synonym 're regex_compiler = "string \<Rightarrow> string + 're"
type_synonym 're regex_matcher = "string \<Rightarrow> 're \<Rightarrow> bool"

record 're whitelist_filter =
  patterns :: "'re list"

definition default_whitelist :: "'re whitelist_filter" where
  "default_whitelist = \<lparr>patterns = []\<rparr>"

definition regex_error_text :: "string \<Rightarrow> string \<Rightarrow> string" where
  "regex_error_text pattern what =
     ''Invalid whitelist regex '' @ [CHR 0x27] @ pattern @ [CHR 0x27] @ '': '' @ what"

text \<open>The loop of \<^verbatim>\<open>create\<close>: it returns at the first pattern that does not compile.\<close>

fun create_loop ::
    "'re regex_compiler \<Rightarrow> string list \<Rightarrow> 're whitelist_filter \<Rightarrow> string + 're whitelist_filter" where
  "create_loop regex [] flt = Inr flt"
| "create_loop regex (pattern # rest) flt =
     (case regex pattern of
        Inl what \<Rightarrow> Inl (regex_error_text pattern what)
      | Inr re \<Rightarrow> create_loop regex rest (flt\<lparr>patterns := patterns flt @ [re]\<rparr>))"

definition create :: "'re regex_compiler \<Rightarrow> string list \<Rightarrow> string + 're whitelist_filter" where
  "create regex ps = create_loop regex ps default_whitelist"

fun matches_loop :: "'re regex_matcher \<Rightarrow> string \<Rightarrow> 're list \<Rightarrow> bool" where
  "matches_loop regex_match topic [] = False"
| "matches_loop regex_match topic (p # ps) =
     (if regex_match topic p then True else matches_loop regex_match topic ps)"

definition matches :: "'re regex_matcher \<Rightarrow> 're whitelist_filter \<Rightarrow> string \<Rightarrow> bool" where
  "matches regex_match flt topic =
     (if patterns flt = [] then True else matches_loop regex_match topic (patterns flt))"

section \<open>Lemmas\<close>

lemma matches_loop_iff: "matches_loop rm topic ps \<longleftrightarrow> (\<exists>p \<in> set ps. rm topic p)"
  by (induction ps) auto

lemma matches_iff:
  "matches rm flt topic \<longleftrightarrow>
     patterns flt = [] \<or> (\<exists>p \<in> set (patterns flt). rm topic p)"
  by (simp add: matches_def matches_loop_iff)

lemma matches_default [simp]: "matches rm default_whitelist topic"
  by (simp add: matches_def default_whitelist_def)

text \<open>The patterns that compile, up to the first that does not.\<close>

fun first_error :: "'re regex_compiler \<Rightarrow> string list \<Rightarrow> (string \<times> string) option" where
  "first_error regex [] = None"
| "first_error regex (p # ps) =
     (case regex p of Inl what \<Rightarrow> Some (p, what) | Inr _ \<Rightarrow> first_error regex ps)"

lemma first_error_None: "first_error regex ps = None \<longleftrightarrow> (\<forall>p \<in> set ps. \<exists>re. regex p = Inr re)"
  by (induction ps) (auto split: sum.splits)

lemma create_loop_cases:
  "create_loop regex ps f =
     (case first_error regex ps of
        Some (p, what) \<Rightarrow> Inl (regex_error_text p what)
      | None \<Rightarrow> Inr (f\<lparr>patterns := patterns f @ map (projr \<circ> regex) ps\<rparr>))"
  by (induction ps arbitrary: f) (auto split: sum.splits option.splits)

section \<open>Properties\<close>

text \<open>
  A whitelist is built exactly when every pattern compiles, and the error names the first
  pattern that does not. The filter built allows a topic when there is no pattern at all, or
  when the whole name matches one of the patterns given.
\<close>

theorem whitelist_create_correct:
  "(case create regex ps of
      Inl err \<Rightarrow> \<exists>before p after what.
        ps = before @ p # after \<and> (\<forall>q \<in> set before. \<exists>re. regex q = Inr re) \<and>
        regex p = Inl what \<and> err = regex_error_text p what
    | Inr flt \<Rightarrow>
        (\<forall>p \<in> set ps. \<exists>re. regex p = Inr re) \<and>
        (\<forall>topic. matches rm flt topic \<longleftrightarrow>
           ps = [] \<or> (\<exists>p \<in> set ps. \<exists>re. regex p = Inr re \<and> rm topic re)))"
proof (cases "first_error regex ps")
  case None
  then have ok: "\<forall>p \<in> set ps. \<exists>re. regex p = Inr re" by (simp add: first_error_None)
  then show ?thesis
    using None by (fastforce simp: create_def create_loop_cases matches_iff default_whitelist_def)
next
  case (Some pw)
  then obtain p what where e: "first_error regex ps = Some (p, what)" by (cases pw) simp
  then have "\<exists>before after. ps = before @ p # after \<and> regex p = Inl what \<and>
      (\<forall>q \<in> set before. \<exists>re. regex q = Inr re)"
  proof (induction ps)
    case Nil
    then show ?case by simp
  next
    case (Cons q qs)
    show ?case
    proof (cases "regex q")
      case (Inl w)
      with Cons.prems show ?thesis by (intro exI [of _ "[]"] exI [of _ qs]) auto
    next
      case (Inr re)
      with Cons obtain before after where "qs = before @ p # after" "regex p = Inl what"
          "\<forall>q \<in> set before. \<exists>re. regex q = Inr re" by auto
      with Inr show ?thesis by (intro exI [of _ "q # before"] exI [of _ after]) auto
    qed
  qed
  then show ?thesis by (auto simp: create_def create_loop_cases e)
qed

theorem whitelist_create_correct_witness:
  "\<exists>before p after what. [''/imu'', ''(''] = before @ p # after \<and>
     (if p = ''('' then Inl ''paren'' else Inr p) = (Inl what :: string + string) \<and>
     create (\<lambda>p. if p = ''('' then Inl ''paren'' else Inr p) [''/imu'', ''(''] =
       (Inl (regex_error_text p what) :: string + string whitelist_filter)"
proof -
  let ?re = "\<lambda>p. if p = ''('' then Inl ''paren'' else (Inr p :: string + string)"
  have run: "create ?re [''/imu'', ''(''] = Inl (regex_error_text ''('' ''paren'')"
    by (simp add: create_def)
  show ?thesis
    using whitelist_create_correct [where regex = ?re and ps = "[''/imu'', ''('']"]
    by (simp only: run sum.case) metis
qed

end
