(* ===== verification/Bounded_Frame_Queue.thy ===== *)
theory Bounded_Frame_Queue
  imports Prelude "HOL-Library.Sublist"
begin

text \<open>
  \<^verbatim>\<open>BoundedFrameQueue\<close> (\<^verbatim>\<open>bounded_frame_queue.hpp\<close>): the backlog of one slow client. The locale
  \<open>drop_oldest_queue\<close> is its contract, with what follows from the contract for any history of
  operations; the interpretation discharges it for the code's model.
\<close>

section \<open>The queue\<close>

type_synonym frame = bytes

record frame_queue =
  max_frames :: nat
  frames :: "frame list"
  dropped_total :: u64

definition new_frame_queue :: "nat \<Rightarrow> frame_queue" where
  "new_frame_queue n = \<lparr>max_frames = n, frames = [], dropped_total = 0\<rparr>"

definition push :: "frame \<Rightarrow> frame_queue \<Rightarrow> nat \<times> frame_queue" where
  "push frame q =
     (if max_frames q = 0 then (1, q\<lparr>dropped_total := dropped_total q + 1\<rparr>)
      else if max_frames q \<le> length (frames q)
      then (1, q\<lparr>frames := tl (frames q) @ [frame], dropped_total := dropped_total q + 1\<rparr>)
      else (0, q\<lparr>frames := frames q @ [frame]\<rparr>))"

definition pop_front :: "frame_queue \<Rightarrow> frame option \<times> frame_queue" where
  "pop_front q =
     (case frames q of
        [] \<Rightarrow> (None, q)
      | f # fs \<Rightarrow> (Some f, q\<lparr>frames := fs\<rparr>))"

definition frame_queue_empty :: "frame_queue \<Rightarrow> bool" where
  "frame_queue_empty q = (frames q = [])"

definition frame_queue_size :: "frame_queue \<Rightarrow> nat" where
  "frame_queue_size q = length (frames q)"

definition frame_queue_wf :: "frame_queue \<Rightarrow> bool" where
  "frame_queue_wf q \<longleftrightarrow> length (frames q) \<le> max_frames q"

section \<open>The contract of a drop-oldest queue\<close>

text \<open>
  \<open>elems\<close> reads the queued frames, oldest first. A push appends the frame and drops from the
  front as many as it reports; it never reports more than it must.
\<close>

locale drop_oldest_queue =
  fixes push_op :: "'f \<Rightarrow> 'q \<Rightarrow> nat \<times> 'q"
    and pop_op :: "'q \<Rightarrow> 'f option \<times> 'q"
    and elems :: "'q \<Rightarrow> 'f list"
    and capacity :: "'q \<Rightarrow> nat"
    and inv :: "'q \<Rightarrow> bool"
  assumes bounded: "inv q \<Longrightarrow> length (elems q) \<le> capacity q"
    and push_elems: "inv q \<Longrightarrow> push_op f q = (n, q') \<Longrightarrow>
      elems q' = drop n (elems q @ [f]) \<and> n \<le> length (elems q) + 1"
    and push_drops: "inv q \<Longrightarrow> push_op f q = (n, q') \<Longrightarrow>
      n = (if length (elems q) < capacity q then 0 else 1)"
    and pop_elems: "inv q \<Longrightarrow> pop_op q = (r, q') \<Longrightarrow>
      (case elems q of [] \<Rightarrow> r = None \<and> elems q' = [] | f # fs \<Rightarrow> r = Some f \<and> elems q' = fs)"
    and push_keeps: "inv q \<Longrightarrow> push_op f q = (n, q') \<Longrightarrow> inv q' \<and> capacity q' = capacity q"
    and pop_keeps: "inv q \<Longrightarrow> pop_op q = (r, q') \<Longrightarrow> inv q' \<and> capacity q' = capacity q"
begin

text \<open>
  A history of pushes (\<open>Some\<close>) and pops (\<open>None\<close>) gives the frames popped, the number dropped
  and the final queue.
\<close>

fun history :: "'f option list \<Rightarrow> 'q \<Rightarrow> 'f list \<times> nat \<times> 'q" where
  "history [] q = ([], 0, q)"
| "history (Some f # ops) q =
     (let (n, q1) = push_op f q; (out, d, q2) = history ops q1 in (out, n + d, q2))"
| "history (None # ops) q =
     (let (r, q1) = pop_op q; (out, d, q2) = history ops q1
      in ((case r of None \<Rightarrow> [] | Some f \<Rightarrow> [f]) @ out, d, q2))"

abbreviation pushed :: "'f option list \<Rightarrow> 'f list" where
  "pushed ops \<equiv> List.map_filter (\<lambda>x. x) ops"

lemma history_keeps: "inv q \<Longrightarrow> history ops q = (out, d, q') \<Longrightarrow> inv q' \<and> capacity q' = capacity q"
proof (induction ops q arbitrary: out d rule: history.induct)
  case (1 q)
  then show ?case by simp
next
  case (2 f ops q)
  then show ?case by (auto split: prod.splits dest: push_keeps)
next
  case (3 ops q)
  then show ?case by (auto split: prod.splits dest: pop_keeps)
qed

lemma history_count:
  "inv q \<Longrightarrow> history ops q = (out, d, q') \<Longrightarrow>
    length out + length (elems q') + d = length (elems q) + length (pushed ops)"
proof (induction ops q arbitrary: out d rule: history.induct)
  case (1 q)
  then show ?case by (simp add: map_filter_simps)
next
  case (2 f ops q)
  obtain n q1 where p: "push_op f q = (n, q1)" by (cases "push_op f q")
  with 2 show ?case
    using push_elems [OF 2(2) p] push_keeps [OF 2(2) p]
    by (fastforce simp: map_filter_simps split: prod.splits)
next
  case (3 ops q)
  obtain r q1 where p: "pop_op q = (r, q1)" by (cases "pop_op q")
  with 3 show ?case
    using pop_elems [OF 3(2) p] pop_keeps [OF 3(2) p]
    by (cases "elems q") (fastforce simp: map_filter_simps split: prod.splits)+
qed

lemma history_order:
  "inv q \<Longrightarrow> history ops q = (out, d, q') \<Longrightarrow> subseq (out @ elems q') (elems q @ pushed ops)"
proof (induction ops q arbitrary: out d rule: history.induct)
  case (1 q)
  then show ?case by (simp add: map_filter_simps)
next
  case (2 f ops q)
  obtain n q1 where p: "push_op f q = (n, q1)" by (cases "push_op f q")
  with 2 have "subseq (out @ elems q') (elems q1 @ pushed ops)"
    using push_keeps [OF 2(2) p] by (auto split: prod.splits)
  moreover have "subseq (elems q1 @ pushed ops) ((elems q @ [f]) @ pushed ops)"
    using push_elems [OF 2(2) p] by (simp only: subseq_append suffix_drop suffix_imp_subseq)
  ultimately show ?case
    by (simp add: map_filter_simps)
next
  case (3 ops q)
  obtain r q1 where p: "pop_op q = (r, q1)" by (cases "pop_op q")
  with 3 show ?case
    using pop_elems [OF 3(2) p] pop_keeps [OF 3(2) p]
    by (cases "elems q") (auto simp: map_filter_simps split: prod.splits)
qed

lemma suffix_append_same: "suffix xs ys \<Longrightarrow> suffix (xs @ zs) (ys @ zs)"
  by (auto simp: suffix_def)

lemma history_suffix:
  "inv q \<Longrightarrow> history ops q = (out, d, q') \<Longrightarrow> suffix (elems q') (elems q @ pushed ops)"
proof (induction ops q arbitrary: out d rule: history.induct)
  case (1 q)
  then show ?case by (simp add: map_filter_simps)
next
  case (2 f ops q)
  obtain n q1 where p: "push_op f q = (n, q1)" by (cases "push_op f q")
  with 2 have "suffix (elems q') (elems q1 @ pushed ops)"
    using push_keeps [OF 2(2) p] by (auto split: prod.splits)
  moreover have "suffix (elems q1 @ pushed ops) ((elems q @ [f]) @ pushed ops)"
    using push_elems [OF 2(2) p] by (metis suffix_append_same suffix_drop)
  ultimately show ?case
    by (simp add: map_filter_simps)
next
  case (3 ops q)
  obtain r q1 where p: "pop_op q = (r, q1)" by (cases "pop_op q")
  with 3 have "suffix (elems q') (elems q1 @ pushed ops)"
    using pop_keeps [OF 3(2) p] by (auto split: prod.splits)
  moreover have "suffix (elems q1 @ pushed ops) (elems q @ pushed ops)"
    using pop_elems [OF 3(2) p] by (cases "elems q") (auto simp: suffix_Cons)
  ultimately show ?case
    unfolding map_filter_simps by (simp add: suffix_order.trans)
qed

end

interpretation backlog: drop_oldest_queue push pop_front frames max_frames frame_queue_wf
  by unfold_locales
    (auto simp: frame_queue_wf_def push_def pop_front_def drop_Suc not_less_eq_eq
      neq_Nil_conv split: if_splits list.splits)

section \<open>Histories of the code's queue\<close>

text \<open>The drop counter counts the frames dropped, modulo its width.\<close>

fun queue_history :: "frame option list \<Rightarrow> frame_queue \<Rightarrow> frame list \<times> nat \<times> frame_queue" where
  "queue_history [] q = ([], 0, q)"
| "queue_history (Some f # ops) q =
     (let (n, q1) = push f q; (out, d, q2) = queue_history ops q1 in (out, n + d, q2))"
| "queue_history (None # ops) q =
     (let (r, q1) = pop_front q; (out, d, q2) = queue_history ops q1
      in ((case r of None \<Rightarrow> [] | Some f \<Rightarrow> [f]) @ out, d, q2))"

lemma queue_history_eq: "queue_history ops q = backlog.history ops q"
  by (induction ops q rule: queue_history.induct) (auto split: prod.splits)

lemma push_dropped_total: "push f q = (n, q') \<Longrightarrow> dropped_total q' = dropped_total q + of_nat n"
  by (auto simp: push_def split: if_splits)

lemma pop_front_dropped_total: "pop_front q = (r, q') \<Longrightarrow> dropped_total q' = dropped_total q"
  by (auto simp: pop_front_def split: list.splits)

lemma history_dropped_total:
  "queue_history ops q = (out, d, q') \<Longrightarrow> dropped_total q' = dropped_total q + of_nat d"
proof (induction ops q arbitrary: out d rule: queue_history.induct)
  case (2 f ops q)
  then show ?case by (fastforce split: prod.splits dest: push_dropped_total)
next
  case (3 ops q)
  then show ?case by (fastforce split: prod.splits dest: pop_front_dropped_total)
qed simp

lemma new_frame_queue_wf [simp]: "frame_queue_wf (new_frame_queue n)"
  by (simp add: frame_queue_wf_def new_frame_queue_def)

section \<open>Properties\<close>

text \<open>
  C32. Whatever the history of pushes and pops, the backlog of a client holds at most its
  bound, holds exactly the most recent pushes that are still queued, hands frames out in the
  order they were pushed, and accounts for every frame: each was popped, is still queued, or
  is in the dropped total.
\<close>

theorem frame_queue_history:
  assumes "queue_history ops (new_frame_queue n) = (out, d, q)"
  shows "length (frames q) \<le> n \<and>
         suffix (frames q) (List.map_filter (\<lambda>x. x) ops) \<and>
         subseq (out @ frames q) (List.map_filter (\<lambda>x. x) ops) \<and>
         length out + length (frames q) + d = length (List.map_filter (\<lambda>x. x) ops) \<and>
         dropped_total q = of_nat d"
proof -
  have h: "backlog.history ops (new_frame_queue n) = (out, d, q)"
    using assms by (simp add: queue_history_eq)
  have n: "frame_queue_wf (new_frame_queue n)" "frames (new_frame_queue n) = []"
      "max_frames (new_frame_queue n) = n" "dropped_total (new_frame_queue n) = 0"
    by (simp_all add: frame_queue_wf_def new_frame_queue_def)
  have "frame_queue_wf q \<and> max_frames q = n"
    using backlog.history_keeps [OF n(1) h] n by simp
  then show ?thesis
    using backlog.history_suffix [OF n(1) h] backlog.history_order [OF n(1) h]
      backlog.history_count [OF n(1) h] history_dropped_total [OF assms] backlog.bounded [of q] n
    by simp
qed

theorem frame_queue_history_witness:
  "queue_history [Some [1], Some [2], Some [3], None, Some [4]] (new_frame_queue 2)
     = ([[2]], 1, \<lparr>max_frames = 2, frames = [[3], [4]], dropped_total = 1\<rparr>) \<and>
   suffix [[3], [4]] (List.map_filter (\<lambda>x. x) [Some [1], Some [2], Some [3], None, Some [4 :: u8]])"
proof
  show run: "queue_history [Some [1], Some [2], Some [3], None, Some [4]] (new_frame_queue 2)
     = ([[2]], 1, \<lparr>max_frames = 2, frames = [[3], [4]], dropped_total = 1\<rparr>)"
    by (simp add: new_frame_queue_def push_def pop_front_def)
  show "suffix [[3], [4]]
      (List.map_filter (\<lambda>x. x) [Some [1], Some [2], Some [3], None, Some [4 :: u8]])"
    using frame_queue_history [OF run] by simp
qed

end
