(* ===== verification/Backpressure.thy ===== *)
theory Backpressure
  imports Bounded_Frame_Queue
begin

text \<open>
  \<^verbatim>\<open>run_backpressure\<close> (\<^verbatim>\<open>middleware/backpressure.hpp\<close>) and the types it shares with
  \<^verbatim>\<open>middleware/middleware_interface.hpp\<close>. The function is a template over four callables with
  side effects; here it is polymorphic in the state that they thread. The locale \<open>transport\<close>
  states what a socket with a backlog promises, the connection possibly vanishing during any
  socket call.
\<close>

section \<open>The policy\<close>

datatype frame_priority = KNormal | KHeavy

datatype send_result = KDelivered | KQueued | KShed | KClientGone

record send_outcome =
  result :: send_result
  frames_flushed :: nat
  dropped :: nat

record 's callables =
  buffered_amount :: "'s \<Rightarrow> nat \<times> 's"
  pop_pending :: "'s \<Rightarrow> frame option \<times> 's"
  send :: "frame \<Rightarrow> 's \<Rightarrow> bool \<times> 's"
  queue_pending :: "frame \<Rightarrow> 's \<Rightarrow> nat option \<times> 's"

text \<open>
  The flush loop. Its first argument is what is left of \<^verbatim>\<open>max_flush\<close>, so the recursion ends; the
  result is whether a send failed, the frames flushed and the state.
\<close>

fun flush_backlog :: "'s callables \<Rightarrow> nat \<Rightarrow> nat \<Rightarrow> 's \<Rightarrow> bool \<times> nat \<times> 's" where
  "flush_backlog ops watermark 0 s = (False, 0, s)"
| "flush_backlog ops watermark (Suc left) s =
     (let (amount, s1) = buffered_amount ops s
      in if \<not> amount < watermark then (False, 0, s1)
         else let (queued, s2) = pop_pending ops s1
              in (case queued of
                    None \<Rightarrow> (False, 0, s2)
                  | Some frame \<Rightarrow>
                      let (ok, s3) = send ops frame s2
                      in if \<not> ok then (True, 0, s3)
                         else let (gone, n, s4) = flush_backlog ops watermark left s3
                              in (gone, Suc n, s4)))"

definition run_backpressure ::
    "frame_priority \<Rightarrow> frame \<Rightarrow> nat \<Rightarrow> nat \<Rightarrow> 's callables \<Rightarrow> 's \<Rightarrow> send_outcome \<times> 's" where
  "run_backpressure priority frame watermark max_flush ops s =
     (let (gone, n, s1) = flush_backlog ops watermark max_flush s
      in if gone then (\<lparr>result = KClientGone, frames_flushed = n, dropped = 0\<rparr>, s1)
         else let (amount, s2) = buffered_amount ops s1
              in if amount < watermark
                 then let (ok, s3) = send ops frame s2
                      in (\<lparr>result = (if ok then KDelivered else KClientGone),
                           frames_flushed = n, dropped = 0\<rparr>, s3)
                 else if priority = KHeavy
                 then (\<lparr>result = KShed, frames_flushed = n, dropped = 0\<rparr>, s2)
                 else let (queued, s3) = queue_pending ops frame s2
                      in (case queued of
                            None \<Rightarrow>
                              (\<lparr>result = KClientGone, frames_flushed = n, dropped = 0\<rparr>, s3)
                          | Some d \<Rightarrow>
                              (\<lparr>result = KQueued, frames_flushed = n, dropped = d\<rparr>, s3)))"

text \<open>What every callable preserves, the policy preserves.\<close>

definition preserved_by :: "'s callables \<Rightarrow> ('s \<Rightarrow> bool) \<Rightarrow> bool" where
  "preserved_by ops P \<longleftrightarrow>
     (\<forall>s. P s \<longrightarrow> P (snd (buffered_amount ops s)) \<and> P (snd (pop_pending ops s)) \<and>
        (\<forall>f. P (snd (send ops f s)) \<and> P (snd (queue_pending ops f s))))"

lemma preserved_byD:
  assumes "preserved_by ops P"
  shows "buffered_amount ops s = (n, s') \<Longrightarrow> P s \<Longrightarrow> P s'"
    and "pop_pending ops s = (r, s') \<Longrightarrow> P s \<Longrightarrow> P s'"
    and "send ops f s = (ok, s') \<Longrightarrow> P s \<Longrightarrow> P s'"
    and "queue_pending ops f s = (d, s') \<Longrightarrow> P s \<Longrightarrow> P s'"
  using assms unfolding preserved_by_def by (metis snd_conv)+

text \<open>The flush does not enqueue.\<close>

definition preserved_upto_queue :: "'s callables \<Rightarrow> ('s \<Rightarrow> bool) \<Rightarrow> bool" where
  "preserved_upto_queue ops P \<longleftrightarrow> preserved_by (ops\<lparr>queue_pending := \<lambda>f s. (None, s)\<rparr>) P"

lemma preserved_upto_queueD:
  assumes "preserved_upto_queue ops P"
  shows "buffered_amount ops s = (n, s') \<Longrightarrow> P s \<Longrightarrow> P s'"
    and "pop_pending ops s = (r, s') \<Longrightarrow> P s \<Longrightarrow> P s'"
    and "send ops f s = (ok, s') \<Longrightarrow> P s \<Longrightarrow> P s'"
  using assms preserved_byD(1-3) [of "ops\<lparr>queue_pending := \<lambda>f s. (None, s)\<rparr>" P]
  by (simp_all add: preserved_upto_queue_def)

lemma preserved_by_upto: "preserved_by ops P \<Longrightarrow> preserved_upto_queue ops P"
  by (simp add: preserved_by_def preserved_upto_queue_def)

lemma flush_preserves:
  assumes "preserved_upto_queue ops P"
  shows "flush_backlog ops w left s = (gone, n, s') \<Longrightarrow> P s \<Longrightarrow> P s'"
proof (induction left arbitrary: s gone n s')
  case 0
  then show ?case by simp
next
  case (Suc left)
  from Suc.prems show ?case
    by (auto simp: Let_def split: prod.splits if_splits option.splits
        dest: preserved_upto_queueD [OF assms] Suc.IH)
qed

lemma backpressure_cases:
  assumes "run_backpressure priority f w m ops s = (out, s')" "preserved_upto_queue ops P" "P s"
  obtains (unqueued) "P s'" "dropped out = 0" "result out \<noteq> KQueued"
  | (queued) s2 where "P s2" "queue_pending ops f s2 = (Some (dropped out), s')"
      "priority = KNormal" "result out = KQueued"
  | (refused) s2 where "P s2" "queue_pending ops f s2 = (None, s')" "priority = KNormal"
      "result out = KClientGone" "dropped out = 0"
proof -
  obtain gone n s1 where fl: "flush_backlog ops w m s = (gone, n, s1)"
    by (cases "flush_backlog ops w m s") auto
  then have P1: "P s1" using flush_preserves [OF assms(2)] assms(3) by blast
  obtain a s2 where a: "buffered_amount ops s1 = (a, s2)" by (cases "buffered_amount ops s1")
  then have P2: "P s2" using P1 preserved_upto_queueD(1) [OF assms(2)] by blast
  obtain ok s3 where ok: "send ops f s2 = (ok, s3)" by (cases "send ops f s2")
  then have P3: "P s3" using P2 preserved_upto_queueD(3) [OF assms(2)] by blast
  obtain d s4 where d: "queue_pending ops f s2 = (d, s4)" by (cases "queue_pending ops f s2")
  consider (gone) gone | (room) "\<not> gone" "a < w" | (shed) "\<not> gone" "\<not> a < w" "priority = KHeavy"
    | (queue) "\<not> gone" "\<not> a < w" "priority = KNormal"
    by (cases priority) auto
  then show ?thesis
  proof cases
    case gone
    with assms(1) fl have "s' = s1" "result out = KClientGone" "dropped out = 0"
      by (auto simp: run_backpressure_def)
    with P1 show ?thesis by (intro unqueued) simp_all
  next
    case room
    with assms(1) fl a ok have "s' = s3" "result out \<noteq> KQueued" "dropped out = 0"
      by (auto simp: run_backpressure_def split: if_splits)
    with P3 show ?thesis by (intro unqueued) simp_all
  next
    case shed
    with assms(1) fl a have "s' = s2" "result out = KShed" "dropped out = 0"
      by (auto simp: run_backpressure_def)
    with P2 show ?thesis by (intro unqueued) simp_all
  next
    case queue
    show ?thesis
    proof (cases d)
      case None
      with queue assms(1) fl a d have "s' = s4" "result out = KClientGone" "dropped out = 0"
        by (auto simp: run_backpressure_def)
      with P2 d None queue show ?thesis by (intro refused [of s2]) simp_all
    next
      case (Some n)
      with queue assms(1) fl a d have "s' = s4" "result out = KQueued" "dropped out = n"
        by (auto simp: run_backpressure_def)
      with P2 d Some queue show ?thesis by (intro queued [of s2]) simp_all
    qed
  qed
qed

lemma backpressure_preserves:
  assumes "preserved_by ops P" "P s" "run_backpressure priority f w m ops s = (out, s')"
  shows "P s'"
  using assms(3) preserved_by_upto [OF assms(1)] assms(2)
  by (cases rule: backpressure_cases) (auto dest: preserved_byD(4) [OF assms(1)])

section \<open>What is called, in which order\<close>

text \<open>The callables with a record of the calls made, for any callables at all.\<close>

datatype call =
    Read_Amount nat
  | Popped "frame option"
  | Sent frame bool
  | Enqueued frame "nat option"

definition traced :: "'s callables \<Rightarrow> ('s \<times> call list) callables" where
  "traced ops =
     \<lparr>buffered_amount = \<lambda>(s, log). (let (n, s') = buffered_amount ops s in (n, s', log @ [Read_Amount n])),
      pop_pending = \<lambda>(s, log). (let (f, s') = pop_pending ops s in (f, s', log @ [Popped f])),
      send = \<lambda>f (s, log). (let (ok, s') = send ops f s in (ok, s', log @ [Sent f ok])),
      queue_pending = \<lambda>f (s, log). (let (d, s') = queue_pending ops f s in (d, s', log @ [Enqueued f d]))\<rparr>"

text \<open>
  A frame is sent only when the last reading was below the watermark and has not been used
  for another send; a frame is enqueued only when the last reading was not below it.
\<close>

fun admits :: "nat \<Rightarrow> bool \<Rightarrow> call list \<Rightarrow> bool" where
  "admits w room [] = True"
| "admits w room (Read_Amount n # cs) = admits w (n < w) cs"
| "admits w room (Popped f # cs) = admits w room cs"
| "admits w room (Sent f ok # cs) = (room \<and> admits w False cs)"
| "admits w room (Enqueued f d # cs) = (\<not> room \<and> admits w room cs)"

definition sends :: "call list \<Rightarrow> frame list" where
  "sends cs = List.map_filter (\<lambda>c. case c of Sent f ok \<Rightarrow> Some f | _ \<Rightarrow> None) cs"

definition enqueues :: "call list \<Rightarrow> frame list" where
  "enqueues cs = List.map_filter (\<lambda>c. case c of Enqueued f d \<Rightarrow> Some f | _ \<Rightarrow> None) cs"

lemma sends_simps [simp]:
  "sends [] = []"
  "sends (cs @ ds) = sends cs @ sends ds"
  "sends (Sent f ok # cs) = f # sends cs"
  "sends (Read_Amount n # cs) = sends cs"
  "sends (Popped p # cs) = sends cs"
  "sends (Enqueued f d # cs) = sends cs"
  by (simp_all add: sends_def List.map_filter_def)

lemma enqueues_simps [simp]:
  "enqueues [] = []"
  "enqueues (cs @ ds) = enqueues cs @ enqueues ds"
  "enqueues (Sent f ok # cs) = enqueues cs"
  "enqueues (Read_Amount n # cs) = enqueues cs"
  "enqueues (Popped p # cs) = enqueues cs"
  "enqueues (Enqueued f d # cs) = f # enqueues cs"
  by (simp_all add: enqueues_def List.map_filter_def)

lemma traced_simps [simp]:
  "buffered_amount (traced ops) (s, log)
     = (fst (buffered_amount ops s), snd (buffered_amount ops s),
        log @ [Read_Amount (fst (buffered_amount ops s))])"
  "pop_pending (traced ops) (s, log)
     = (fst (pop_pending ops s), snd (pop_pending ops s), log @ [Popped (fst (pop_pending ops s))])"
  "send (traced ops) f (s, log)
     = (fst (send ops f s), snd (send ops f s), log @ [Sent f (fst (send ops f s))])"
  "queue_pending (traced ops) f (s, log)
     = (fst (queue_pending ops f s), snd (queue_pending ops f s),
        log @ [Enqueued f (fst (queue_pending ops f s))])"
  by (simp_all add: traced_def case_prod_beta)

text \<open>The log of a flush: a segment that ends without an unused reading below the watermark
  unless the queue was empty.\<close>

lemma flush_traced:
  assumes "flush_backlog (traced ops) w left (s, log) = (gone, n, s', log')"
  shows "flush_backlog ops w left s = (gone, n, s') \<and> n + of_bool gone \<le> left \<and>
    (\<exists>cs. log' = log @ cs \<and> enqueues cs = [] \<and> length (sends cs) = n + of_bool gone \<and>
      admits w False cs \<and>
      (\<forall>room ds. admits w room (cs @ Read_Amount m # ds) = admits w (m < w) ds))"
  using assms
proof (induction left arbitrary: s log gone n s' log')
  case 0
  then show ?case by auto
next
  case (Suc left)
  obtain a s1 where a: "buffered_amount ops s = (a, s1)" by (cases "buffered_amount ops s")
  obtain q s2 where q: "pop_pending ops s1 = (q, s2)" by (cases "pop_pending ops s1")
  show ?case
  proof (cases "a < w \<and> q \<noteq> None")
    case False
    with Suc.prems a q show ?thesis by (cases "a < w") (auto split: option.splits)
  next
    case True
    then obtain f where f: "q = Some f" by auto
    obtain ok s3 where ok: "send ops f s2 = (ok, s3)" by (cases "send ops f s2")
    show ?thesis
    proof (cases ok)
      case False
      with Suc.prems a q f ok True show ?thesis by auto
    next
      case ok_true: True
      define log3 where "log3 = log @ [Read_Amount a, Popped (Some f), Sent f True]"
      obtain gone' n' s4 log4
        where r: "flush_backlog (traced ops) w left (s3, log3) = (gone', n', s4, log4)"
        by (cases "flush_backlog (traced ops) w left (s3, log3)") auto
      have res: "gone = gone'" "n = Suc n'" "s' = s4" "log' = log4"
        using Suc.prems a q f ok ok_true True r by (auto simp: log3_def)
      from Suc.IH [OF r] obtain cs
        where ih: "flush_backlog ops w left s3 = (gone', n', s4)" "n' + of_bool gone' \<le> left"
          "log4 = log3 @ cs" "enqueues cs = []" "length (sends cs) = n' + of_bool gone'"
          "\<forall>room ds. admits w room (cs @ Read_Amount m # ds) = admits w (m < w) ds"
          "admits w False cs"
        by auto
      let ?cs = "[Read_Amount a, Popped (Some f), Sent f True] @ cs"
      have "log' = log @ ?cs \<and> enqueues ?cs = [] \<and> length (sends ?cs) = n + of_bool gone \<and>
          admits w False ?cs \<and>
          (\<forall>room ds. admits w room (?cs @ Read_Amount m # ds) = admits w (m < w) ds)"
        using ih True by (simp add: res log3_def)
      moreover have "flush_backlog ops w (Suc left) s = (gone, n, s')" "n + of_bool gone \<le> Suc left"
        using ih a q f ok ok_true True by (simp_all add: res)
      ultimately show ?thesis by (intro conjI exI [of _ ?cs]) (simp_all del: append.simps)
    qed
  qed
qed

section \<open>A socket with a backlog\<close>

text \<open>
  \<open>wire\<close> reads the frames handed to the socket so far, \<open>pending\<close> the backlog of this client,
  \<open>alive\<close> whether the client is still connected. The client may vanish during a socket call,
  and its backlog with it.
\<close>

locale transport =
  fixes ops :: "'s callables"
    and alive :: "'s \<Rightarrow> bool"
    and pending :: "'s \<Rightarrow> frame list"
    and wire :: "'s \<Rightarrow> frame list"
    and inv :: "'s \<Rightarrow> bool"
  assumes read_law: "inv s \<Longrightarrow> buffered_amount ops s = (n, s') \<Longrightarrow>
      inv s' \<and> wire s' = wire s \<and> (alive s' \<longrightarrow> alive s \<and> pending s' = pending s)"
    and pop_law: "inv s \<Longrightarrow> pop_pending ops s = (popped, s') \<Longrightarrow>
      inv s' \<and> wire s' = wire s \<and> alive s' = alive s \<and>
      (popped, pending s') = (if alive s then (case pending s of [] \<Rightarrow> (None, []) | f # fs \<Rightarrow> (Some f, fs))
                         else (None, pending s))"
    and send_law: "inv s \<Longrightarrow> send ops f s = (ok, s') \<Longrightarrow>
      inv s' \<and> wire s' = wire s @ (if ok then [f] else []) \<and>
      (alive s' \<longrightarrow> alive s \<and> pending s' = pending s)"
    and queue_law: "inv s \<Longrightarrow> queue_pending ops f s = (r, s') \<Longrightarrow>
      inv s' \<and> wire s' = wire s \<and> alive s' = alive s \<and>
      (if alive s then \<exists>d. r = Some d \<and> pending s' = drop d (pending s @ [f])
       else r = None \<and> pending s' = pending s)"
begin

lemma flush_dead:
  assumes "inv s" "\<not> alive s" "flush_backlog ops w left s = (gone, n, s')"
  shows "inv s' \<and> \<not> alive s' \<and> wire s' = wire s \<and> \<not> gone \<and> n = 0"
proof (cases left)
  case 0
  with assms show ?thesis by simp
next
  case (Suc m)
  obtain a s1 where a: "buffered_amount ops s = (a, s1)" by (cases "buffered_amount ops s")
  obtain q s2 where q: "pop_pending ops s1 = (q, s2)" by (cases "pop_pending ops s1")
  have 1: "inv s1 \<and> \<not> alive s1 \<and> wire s1 = wire s" using read_law [OF assms(1) a] assms(2) by auto
  then have "q = None \<and> inv s2 \<and> \<not> alive s2 \<and> wire s2 = wire s"
    using pop_law [OF _ q] by auto
  with 1 assms(3) a q Suc show ?thesis by (auto split: if_splits)
qed

text \<open>What a flush does to the wire and to the backlog.\<close>

lemma flush_effect:
  assumes "inv s" "alive s" "flush_backlog ops w left s = (gone, n, s')"
  shows "inv s' \<and> n \<le> left \<and> n \<le> length (pending s) \<and> wire s' = wire s @ take n (pending s) \<and>
    (alive s' \<longrightarrow> pending s' = drop (n + of_bool gone) (pending s))"
  using assms
proof (induction left arbitrary: s gone n s')
  case 0
  then show ?case by auto
next
  case (Suc left)
  obtain a s1 where a: "buffered_amount ops s = (a, s1)" by (cases "buffered_amount ops s")
  obtain q s2 where q: "pop_pending ops s1 = (q, s2)" by (cases "pop_pending ops s1")
  note 1 = read_law [OF Suc.prems(1) a]
  then have inv1: "inv s1" by simp
  note 2 = pop_law [OF inv1 q]
  show ?case
  proof (cases "a < w \<and> q \<noteq> None")
    case False
    then have "gone = False \<and> n = 0 \<and> s' = (if a < w then s2 else s1)"
      using Suc.prems(3) a q by (auto split: if_splits)
    then show ?thesis using 1 2 False by (auto split: if_splits list.splits)
  next
    case True
    then obtain f where f: "q = Some f" by auto
    then have p: "alive s1" "pending s = f # pending s2" "alive s2" "inv s2" "wire s2 = wire s"
      using 1 2 by (auto split: if_splits list.splits)
    obtain ok s3 where ok: "send ops f s2 = (ok, s3)" by (cases "send ops f s2")
    note 3 = send_law [OF p(4) ok]
    show ?thesis
    proof (cases ok)
      case False
      with Suc.prems(3) a q f ok True p 3 show ?thesis by auto
    next
      case ok_true: True
      obtain gone' n' s4 where r: "flush_backlog ops w left s3 = (gone', n', s4)"
        by (cases "flush_backlog ops w left s3") auto
      have res: "gone = gone'" "n = Suc n'" "s' = s4"
        using Suc.prems(3) a q f ok ok_true True r by auto
      have inv3: "inv s3" and wire3: "wire s3 = wire s @ [f]" using 3 p ok_true by auto
      show ?thesis
      proof (cases "alive s3")
        case True
        then have "pending s3 = pending s2" using 3 by simp
        with Suc.IH [OF inv3 True r] show ?thesis by (simp add: res p wire3)
      next
        case False
        from flush_dead [OF inv3 False r] show ?thesis by (simp add: res p wire3)
      qed
    qed
  qed
qed

text \<open>
  What the policy does, when the client is still there at the end: a prefix of the backlog
  goes to the wire in order, then the frame is sent, shed or queued.
\<close>

lemma backpressure_effect:
  assumes "inv s" "alive s" "run_backpressure priority frame w m ops s = (out, s')" "alive s'"
  shows "inv s' \<and> frames_flushed out \<le> m \<and> frames_flushed out \<le> length (pending s) \<and>
    (let sent = take (frames_flushed out) (pending s); rest = drop (frames_flushed out) (pending s)
     in case result out of
          KDelivered \<Rightarrow> wire s' = wire s @ sent @ [frame] \<and> pending s' = rest
        | KQueued \<Rightarrow> priority = KNormal \<and> wire s' = wire s @ sent \<and>
            pending s' = drop (dropped out) (rest @ [frame])
        | KShed \<Rightarrow> priority = KHeavy \<and> wire s' = wire s @ sent \<and> pending s' = rest
        | KClientGone \<Rightarrow> wire s' = wire s @ sent \<and> (pending s' = rest \<or> pending s' = tl rest))"
proof -
  obtain gone n s1 where fl: "flush_backlog ops w m s = (gone, n, s1)"
    by (cases "flush_backlog ops w m s") auto
  note fe = flush_effect [OF assms(1,2) fl]
  then have inv1: "inv s1" by simp
  show ?thesis
  proof (cases gone)
    case True
    then have "out = \<lparr>result = KClientGone, frames_flushed = n, dropped = 0\<rparr>" "s' = s1"
      using assms(3) fl by (simp_all add: run_backpressure_def)
    with True fe assms(4) show ?thesis by (simp add: drop_Suc tl_drop)
  next
    case False
    obtain a s2 where a: "buffered_amount ops s1 = (a, s2)" by (cases "buffered_amount ops s1")
    note ra = read_law [OF inv1 a]
    then have inv2: "inv s2" by simp
    consider (room) "a < w" | (shed) "\<not> a < w" "priority = KHeavy"
      | (queue) "\<not> a < w" "priority = KNormal"
      by (cases priority) auto
    then show ?thesis
    proof cases
      case room
      obtain ok s3 where ok: "send ops frame s2 = (ok, s3)" by (cases "send ops frame s2")
      have "out = \<lparr>result = (if ok then KDelivered else KClientGone), frames_flushed = n, dropped = 0\<rparr>"
          "s' = s3"
        using assms(3) fl a ok room False by (simp_all add: run_backpressure_def)
      with False fe ra send_law [OF inv2 ok] assms(4) show ?thesis by (cases ok) simp_all
    next
      case shed
      have "out = \<lparr>result = KShed, frames_flushed = n, dropped = 0\<rparr>" "s' = s2"
        using assms(3) fl a shed False by (simp_all add: run_backpressure_def)
      with False fe ra assms(4) shed show ?thesis by simp
    next
      case queue
      obtain r s3 where r: "queue_pending ops frame s2 = (r, s3)"
        by (cases "queue_pending ops frame s2")
      note q = queue_law [OF inv2 r]
      have "s' = s3"
        using assms(3) fl a r queue False by (auto simp: run_backpressure_def split: option.splits)
      moreover then obtain d where "r = Some d" "pending s3 = drop d (pending s2 @ [frame])"
        using q assms(4) by auto
      moreover then have "out = \<lparr>result = KQueued, frames_flushed = n, dropped = d\<rparr>"
        using assms(3) fl a r queue False by (simp add: run_backpressure_def)
      ultimately show ?thesis using False fe ra q assms(4) queue by simp
    qed
  qed
qed

end

section \<open>A socket with a backlog and a log\<close>

text \<open>The trace of a flush that sends the given frames after the given readings.\<close>

definition flush_events :: "(nat \<Rightarrow> 'e) \<Rightarrow> (frame \<Rightarrow> bool \<Rightarrow> 'e) \<Rightarrow> nat list \<Rightarrow> frame list \<Rightarrow> 'e list" where
  "flush_events read_event send_event amounts fs =
     concat (map2 (\<lambda>a f. [read_event a, send_event f True]) amounts fs)"

lemma flush_events_simps [simp]:
  "flush_events re se [] fs = []"
  "flush_events re se (a # as) (f # fs) = re a # se f True # flush_events re se as fs"
  by (simp_all add: flush_events_def)

text \<open>A transport whose readings and sends are on record, and whose backlog has a bound.\<close>

locale logged_transport = transport ops alive pending wire inv
  for ops :: "'s callables" and alive pending wire inv +
  fixes log :: "'s \<Rightarrow> 'e list"
    and read_event :: "nat \<Rightarrow> 'e"
    and send_event :: "frame \<Rightarrow> bool \<Rightarrow> 'e"
    and capacity :: "'s \<Rightarrow> nat"
  assumes read_log: "inv s \<Longrightarrow> buffered_amount ops s = (n, s') \<Longrightarrow>
      log s' = log s @ [read_event n] \<and> capacity s' = capacity s"
    and pop_log: "inv s \<Longrightarrow> pop_pending ops s = (popped, s') \<Longrightarrow> log s' = log s \<and> capacity s' = capacity s"
    and send_log: "inv s \<Longrightarrow> send ops f s = (ok, s') \<Longrightarrow>
      log s' = log s @ [send_event f ok] \<and> capacity s' = capacity s"
    and queue_log: "inv s \<Longrightarrow> alive s \<Longrightarrow> queue_pending ops f s = (r, s') \<Longrightarrow>
      log s' = log s \<and>
      (if length (pending s) < capacity s then r = Some 0 \<and> pending s' = pending s @ [f]
       else r = Some 1 \<and> pending s' = tl (pending s @ [f]))"
begin

text \<open>A flush stops at a failed send, at a reading that is too high or with nothing left.\<close>

lemma flush_log:
  assumes "inv s" "flush_backlog ops w left s = (gone, n, s')" "alive s'"
  shows "alive s \<and> inv s' \<and> capacity s' = capacity s \<and>
    (\<exists>as fs rest stop. pending s = fs @ rest \<and> length fs = n \<and> length as = n \<and> (\<forall>a \<in> set as. a < w) \<and> n \<le> left \<and>
      log s' = log s @ flush_events read_event send_event as fs @ stop \<and>
      (if gone then \<exists>a f. a < w \<and> rest = f # pending s' \<and> stop = [read_event a, send_event f False]
       else pending s' = rest \<and>
         (if n = left then stop = [] else \<exists>a. stop = [read_event a] \<and> (rest = [] \<or> w \<le> a))))"
  using assms
proof (induction left arbitrary: s gone n s')
  case 0
  then show ?case by (intro conjI exI [of _ "[]"] exI [of _ "pending s"]) auto
next
  case (Suc left)
  obtain a s1 where a: "buffered_amount ops s = (a, s1)" by (cases "buffered_amount ops s")
  obtain q s2 where q: "pop_pending ops s1 = (q, s2)" by (cases "pop_pending ops s1")
  note 1 = read_law [OF Suc.prems(1) a] read_log [OF Suc.prems(1) a]
  then have inv1: "inv s1" by simp
  note 2 = pop_law [OF inv1 q] pop_log [OF inv1 q]
  show ?case
  proof (cases "a < w \<and> q \<noteq> None")
    case False
    then have "gone = False \<and> n = 0 \<and> s' = (if a < w then s2 else s1)"
      using Suc.prems(2) a q by (auto split: if_splits)
    with 1 2 False Suc.prems(3) show ?thesis
      by (intro conjI exI [of _ "[]"] exI [of _ "pending s"] exI [of _ "[read_event a]"])
        (auto split: if_splits list.splits)
  next
    case True
    then obtain f where f: "q = Some f" by auto
    then have p: "alive s1" "pending s = f # pending s2" "alive s2" "inv s2" "alive s"
      using 1 2 by (auto split: if_splits list.splits)
    obtain ok s3 where ok: "send ops f s2 = (ok, s3)" by (cases "send ops f s2")
    note 3 = send_law [OF p(4) ok] send_log [OF p(4) ok]
    have log3: "log s3 = log s @ [read_event a, send_event f ok]" and cap3: "capacity s3 = capacity s"
      using 1 2 3 by simp_all
    show ?thesis
    proof (cases ok)
      case False
      then have "gone" "n = 0" "s' = s3" using Suc.prems(2) a q f ok True by auto
      with 3 p True False log3 cap3 Suc.prems(3) show ?thesis
        by (intro conjI exI [of _ "[]"] exI [of _ "pending s"] exI [of _ "[read_event a, send_event f False]"]) auto
    next
      case ok_true: True
      obtain gone' n' s4 where r: "flush_backlog ops w left s3 = (gone', n', s4)"
        by (cases "flush_backlog ops w left s3") auto
      have res: "gone = gone'" "n = Suc n'" "s' = s4"
        using Suc.prems(2) a q f ok ok_true True r by auto
      from Suc.IH [OF _ r] 3 Suc.prems(3) res obtain as fs rest stop where
        ih: "alive s3" "inv s4" "capacity s4 = capacity s3" "pending s3 = fs @ rest" "length fs = n'" "length as = n'"
          "\<forall>a \<in> set as. a < w" "n' \<le> left" "log s4 = log s3 @ flush_events read_event send_event as fs @ stop"
          "if gone' then \<exists>a f. a < w \<and> rest = f # pending s4 \<and> stop = [read_event a, send_event f False]
           else pending s4 = rest \<and>
             (if n' = left then stop = [] else \<exists>a. stop = [read_event a] \<and> (rest = [] \<or> w \<le> a))"
        by blast
      moreover then have "pending s2 = fs @ rest" using 3 by simp
      ultimately show ?thesis
        using True log3 cap3 ok_true p unfolding res
        by (intro conjI, simp_all only:)
          (rule exI [of _ "a # as"], rule exI [of _ "f # fs"], rule exI [of _ rest], rule exI [of _ stop],
            auto split: if_splits)
    qed
  qed
qed

text \<open>
  The whole call, when it may flush all of the backlog and the client is there at the end: either a
  frame of the backlog fails, or the flush ends and a last reading decides about the frame.
\<close>

lemma backpressure_log:
  assumes "inv s" "run_backpressure priority frame w (length (pending s)) ops s = (out, s')" "alive s'"
  shows "\<exists>as fs rest. pending s = fs @ rest \<and> length as = length fs \<and> (\<forall>a \<in> set as. a < w) \<and>
    (let begun = log s @ flush_events read_event send_event as fs
     in (\<exists>a f. a < w \<and> result out = KClientGone \<and> rest = f # pending s' \<and>
          log s' = begun @ [read_event a, send_event f False]) \<or>
        (\<exists>stop a. (if rest = [] then stop = [] else \<exists>b \<ge> w. stop = [read_event b]) \<and>
          (case result out of
             KDelivered \<Rightarrow> a < w \<and> log s' = begun @ stop @ [read_event a, send_event frame True] \<and> pending s' = rest
           | KClientGone \<Rightarrow> a < w \<and> log s' = begun @ stop @ [read_event a, send_event frame False] \<and> pending s' = rest
           | KShed \<Rightarrow> w \<le> a \<and> priority = KHeavy \<and> log s' = begun @ stop @ [read_event a] \<and> pending s' = rest
           | KQueued \<Rightarrow> w \<le> a \<and> priority = KNormal \<and> log s' = begun @ stop @ [read_event a] \<and>
               (if length rest < capacity s then dropped out = 0 \<and> pending s' = rest @ [frame]
                else dropped out = 1 \<and> pending s' = tl (rest @ [frame])))))"
proof -
  obtain gone n s1 where fl: "flush_backlog ops w (length (pending s)) s = (gone, n, s1)"
    by (cases "flush_backlog ops w (length (pending s)) s") auto
  obtain a s2 where a: "buffered_amount ops s1 = (a, s2)" by (cases "buffered_amount ops s1")
  obtain ok s3 where ok: "send ops frame s2 = (ok, s3)" by (cases "send ops frame s2")
  obtain r s4 where r: "queue_pending ops frame s2 = (r, s4)" by (cases "queue_pending ops frame s2")
  have inv1: "inv s1"
    using fl assms(1) flush_dead flush_effect by (cases "alive s") blast+
  note 1 = read_law [OF inv1 a] read_log [OF inv1 a]
  then have inv2: "inv s2" by simp
  note sent = send_law [OF inv2 ok] send_log [OF inv2 ok]
  consider (gone) gone | (room) "\<not> gone" "a < w" | (shed) "\<not> gone" "\<not> a < w" "priority = KHeavy"
    | (queue) "\<not> gone" "\<not> a < w" "priority = KNormal"
    by (cases priority) auto
  then have "alive s1 \<and> (\<not> gone \<longrightarrow> alive s2)"
    using assms(2,3) fl a ok r 1 sent queue_law [OF inv2 r]
    by cases (auto simp: run_backpressure_def split: option.splits)
  then have alive1: "alive s1" and alive2: "\<not> gone \<Longrightarrow> alive s2" by simp_all
  note queued = queue_log [OF inv2 alive2 r]
  from flush_log [OF assms(1) fl alive1] obtain as fs rest stop where
    fl': "capacity s1 = capacity s" "pending s = fs @ rest" "length fs = n" "length as = n" "\<forall>a \<in> set as. a < w"
      "log s1 = log s @ flush_events read_event send_event as fs @ stop"
      "if gone then \<exists>a f. a < w \<and> rest = f # pending s1 \<and> stop = [read_event a, send_event f False]
       else pending s1 = rest \<and>
         (if n = length (pending s) then stop = [] else \<exists>a. stop = [read_event a] \<and> (rest = [] \<or> w \<le> a))"
    by blast
  have stop: "\<not> gone \<Longrightarrow> (if rest = [] then stop = [] else \<exists>b \<ge> w. stop = [read_event b])"
    using fl'(2,3,7) by (auto split: if_splits)
  show ?thesis
  proof (cases gone)
    case True
    then have "result out = KClientGone" "s' = s1" using assms(2) fl by (auto simp: run_backpressure_def)
    with True fl' show ?thesis
      unfolding Let_def by - (rule exI [of _ as], rule exI [of _ fs], rule exI [of _ rest], force)
  next
    case False
    note alive2 = alive2 [OF False] and queued = queued [OF False] and stop = stop [OF False]
    have s2: "pending s2 = rest" "log s2 = log s @ flush_events read_event send_event as fs @ stop @ [read_event a]"
        "capacity s2 = capacity s"
      using 1 alive2 False fl' by simp_all
    have "case result out of
        KDelivered \<Rightarrow> a < w \<and> log s' = log s2 @ [send_event frame True] \<and> pending s' = rest
      | KClientGone \<Rightarrow> a < w \<and> log s' = log s2 @ [send_event frame False] \<and> pending s' = rest
      | KShed \<Rightarrow> w \<le> a \<and> priority = KHeavy \<and> log s' = log s2 \<and> pending s' = rest
      | KQueued \<Rightarrow> w \<le> a \<and> priority = KNormal \<and> log s' = log s2 \<and>
          (if length rest < capacity s then dropped out = 0 \<and> pending s' = rest @ [frame]
           else dropped out = 1 \<and> pending s' = tl (rest @ [frame]))"
      using assms(2,3) fl a ok r False queued sent s2(1,3)
      by (cases "a < w"; cases priority; cases ok) (auto simp: run_backpressure_def split: if_splits)
    with fl'(2-5) stop show ?thesis
      unfolding Let_def s2(2)
      by - (rule exI [of _ as], rule exI [of _ fs], rule exI [of _ rest], intro conjI, simp_all only: append_assoc,
        rule disjI2, rule exI [of _ stop], rule exI [of _ a], simp split: send_result.splits)
  qed
qed

end

section \<open>Properties\<close>

text \<open>
  C21. Whatever the socket and the queue do, one call of the policy sends a frame only right
  after a reading of the socket buffer below the watermark, each reading admitting at most one
  frame; it flushes at most \<^verbatim>\<open>max_flush\<close> frames, never enqueues a heavy frame, and enqueues
  only after a reading that found the socket congested.
\<close>

theorem backpressure_admission:
  "\<exists>out s' log. run_backpressure priority frame w max_flush (traced ops) (s, []) = (out, s', log) \<and>
     run_backpressure priority frame w max_flush ops s = (out, s') \<and>
     admits w False log \<and> frames_flushed out \<le> max_flush \<and>
     length (sends log) \<le> Suc max_flush \<and>
     enqueues log \<in> (if priority = KHeavy then {[]} else {[], [frame]}) \<and>
     (result out = KQueued \<longrightarrow> enqueues log = [frame]) \<and>
     (result out = KShed \<longrightarrow> priority = KHeavy) \<and> (result out \<noteq> KQueued \<longrightarrow> dropped out = 0)"
proof -
  obtain gone n s1 log1 where fl: "flush_backlog (traced ops) w max_flush (s, []) = (gone, n, s1, log1)"
    by (cases "flush_backlog (traced ops) w max_flush (s, [])") auto
  obtain a s2 where a: "buffered_amount ops s1 = (a, s2)" by (cases "buffered_amount ops s1")
  obtain ok s3 where ok: "send ops frame s2 = (ok, s3)" by (cases "send ops frame s2")
  obtain r s4 where r: "queue_pending ops frame s2 = (r, s4)" by (cases "queue_pending ops frame s2")
  from flush_traced [OF fl, of a]
  have f: "flush_backlog ops w max_flush s = (gone, n, s1)" "n + of_bool gone \<le> max_flush" "enqueues log1 = []"
      "length (sends log1) = n + of_bool gone" "admits w False log1"
      "\<And>ds. admits w False (log1 @ Read_Amount a # ds) = admits w (a < w) ds"
    by auto
  consider (gone) gone | (room) "\<not> gone" "a < w" | (shed) "\<not> gone" "\<not> a < w" "priority = KHeavy"
    | (queue) "\<not> gone" "\<not> a < w" "priority = KNormal"
    by (cases priority) auto
  then show ?thesis
    by cases
      (use f fl a ok r in \<open>auto simp: run_backpressure_def split: option.splits\<close>)
qed

theorem backpressure_admission_witness:
  "\<exists>out s' log.
     run_backpressure KHeavy [9] 5 0
       (traced \<lparr>buffered_amount = \<lambda>s. (7, s), pop_pending = \<lambda>s. (None, s),
                send = \<lambda>f s. (True, s), queue_pending = \<lambda>f s. (Some 0, s)\<rparr>) ((), []) = (out, s', log) \<and>
     enqueues log = []"
  using backpressure_admission [of KHeavy "[9]" 5 0
      "\<lparr>buffered_amount = \<lambda>s. (7, s), pop_pending = \<lambda>s. (None, s),
        send = \<lambda>f s. (True, s), queue_pending = \<lambda>f s. (Some 0, s)\<rparr>" "()"]
  by auto

end
