(* ===== verification/Websocket_Middleware.thy ===== *)
theory Websocket_Middleware
  imports Backpressure
begin

text \<open>
  \<^verbatim>\<open>WebSocketMiddleware\<close> (\<^verbatim>\<open>middleware/websocket_middleware.hpp\<close>, \<^verbatim>\<open>.cpp\<close>): connected clients,
  their backlogs, the queue of incoming requests and the lossy send path. IXWebSocket is a
  parameter. The field \<open>net\<close> is a history variable: every use of a socket, in order; what a
  socket answers is a function of that history, so two readings of the same buffer may differ.
  After every socket call, any set of connections may be reported closed by the library's
  threads: those the parameter \<open>ix_closed\<close> names. The methods hold \<^verbatim>\<open>clients_mutex_\<close> between
  socket calls only, which is where such a report can take effect.
\<close>

section \<open>State\<close>

datatype net_event =
    Amount_Read string nat
  | Binary_Sent string frame bool
  | Text_Sent string bytes bool
  | Clock_Read int

record network =
  ix_buffered_amount :: "net_event list \<Rightarrow> string \<Rightarrow> nat"
  ix_send_success :: "net_event list \<Rightarrow> string \<Rightarrow> bool"
  ix_closed :: "net_event list \<Rightarrow> string list"

record tls_config =
  certfile :: string
  keyfile :: string

record middleware =
  client_backlog_size :: nat
  socket_buffer_watermark :: nat
  tls :: "tls_config option"
  ready :: bool
  connect_callback :: bool
  disconnect_callback :: bool
  clients :: "string list"
  incoming_queue :: "(string \<times> bytes) list"
  pending_frames :: "frame_queue umap"
  last_drop_warn :: "int umap"
  dropped_from_disconnected :: u64
  heavy_shed_total :: u64
  net :: "net_event list"

definition kSocketBufferHighWatermark :: nat where
  "kSocketBufferHighWatermark = 2 ^ 20"

definition kMaxIncomingQueueSize :: nat where
  "kMaxIncomingQueueSize = 1024"

definition kDropWarnIntervalSeconds :: int where
  "kDropWarnIntervalSeconds = 30"

definition new_middleware :: "nat \<Rightarrow> tls_config option \<Rightarrow> nat \<Rightarrow> middleware" where
  "new_middleware backlog tls_option watermark =
     \<lparr>client_backlog_size = backlog, socket_buffer_watermark = watermark, tls = tls_option,
      ready = False, connect_callback = False, disconnect_callback = False,
      clients = [], incoming_queue = [], pending_frames = [], last_drop_warn = [],
      dropped_from_disconnected = 0, heavy_shed_total = 0, net = []\<rparr>"

section \<open>Connections\<close>

text \<open>What the server and the file system answer when the server is started.\<close>

record listener =
  built_with_tls :: bool
  readable :: "string \<Rightarrow> bool"
  listen_error :: "nat \<Rightarrow> string option"

definition mw_initialize :: "listener \<Rightarrow> u16 \<Rightarrow> middleware \<Rightarrow> (string + unit) \<times> middleware" where
  "mw_initialize l port m =
     (if ready m then (Inl ''WebSocket middleware already initialized'', m)
      else
        case (case tls m of
                None \<Rightarrow> None
              | Some cfg \<Rightarrow>
                  if \<not> built_with_tls l
                  then Some ''TLS requested but IXWebSocket was built without TLS support''
                  else if \<not> readable l (certfile cfg)
                  then Some (''TLS certificate file not found or not readable: '' @ certfile cfg)
                  else if \<not> readable l (keyfile cfg)
                  then Some (''TLS key file not found or not readable: '' @ keyfile cfg)
                  else None) of
          Some err \<Rightarrow> (Inl err, m)
        | None \<Rightarrow>
            (case listen_error l (unat port) of
               Some what \<Rightarrow>
                 (Inl (''Failed to listen on port '' @ decimal (unat port) @ '': '' @ what), m)
             | None \<Rightarrow> (Inr (), m\<lparr>ready := True\<rparr>)))"

text \<open>Moving a client's drop count to the lifetime total and erasing its backlog.\<close>

definition fold_pending :: "string \<Rightarrow> middleware \<Rightarrow> middleware" where
  "fold_pending c m =
     (case map_of (pending_frames m) c of
        None \<Rightarrow> m
      | Some q \<Rightarrow>
          m\<lparr>dropped_from_disconnected := dropped_from_disconnected m + dropped_total q,
            pending_frames := AList.delete c (pending_frames m)\<rparr>)"

definition drop_pending :: "string \<Rightarrow> middleware \<Rightarrow> middleware" where
  "drop_pending c m =
     (let m1 = fold_pending c m in m1\<lparr>last_drop_warn := AList.delete c (last_drop_warn m1)\<rparr>)"

definition shutdown :: "middleware \<Rightarrow> middleware" where
  "shutdown m =
     (if \<not> ready m then m
      else m\<lparr>ready := False, connect_callback := False, disconnect_callback := False,
             clients := [],
             dropped_from_disconnected :=
               dropped_from_disconnected m + sum_list (map (dropped_total \<circ> snd) (pending_frames m)),
             pending_frames := [], last_drop_warn := [], incoming_queue := []\<rparr>)"

text \<open>
  The three kinds of message of the client callback. \<open>listed\<close> tells whether the server's
  client list holds the new socket; the disconnect callback runs before the erasure and is
  part of the server (\<^verbatim>\<open>cleanup_session\<close>).
\<close>

definition on_open :: "bool \<Rightarrow> string \<Rightarrow> middleware \<Rightarrow> middleware" where
  "on_open listed c m =
     (if \<not> ready m then m
      else if listed then m\<lparr>clients := List.insert c (clients m)\<rparr> else m)"

definition on_close :: "string \<Rightarrow> middleware \<Rightarrow> middleware" where
  "on_close c m =
     (if \<not> ready m then m
      else let m1 = fold_pending c (m\<lparr>clients := remove1 c (clients m)\<rparr>)
           in m1\<lparr>last_drop_warn := AList.delete c (last_drop_warn m1)\<rparr>)"

definition on_message :: "string \<Rightarrow> bool \<Rightarrow> bytes \<Rightarrow> middleware \<Rightarrow> middleware" where
  "on_message c binary d m =
     (if \<not> ready m then m
      else if binary then m
      else if kMaxIncomingQueueSize \<le> length (incoming_queue m) then m
      else m\<lparr>incoming_queue := incoming_queue m @ [(c, d)]\<rparr>)"

definition set_on_connect :: "middleware \<Rightarrow> middleware" where
  "set_on_connect m = m\<lparr>connect_callback := True\<rparr>"

definition set_on_disconnect :: "middleware \<Rightarrow> middleware" where
  "set_on_disconnect m = m\<lparr>disconnect_callback := True\<rparr>"

definition is_ready :: "middleware \<Rightarrow> bool" where
  "is_ready m = ready m"

definition receive_request :: "middleware \<Rightarrow> (string \<times> bytes) option \<times> middleware" where
  "receive_request m =
     (if \<not> ready m then (None, m)
      else case incoming_queue m of
             [] \<Rightarrow> (None, m)
           | req # rest \<Rightarrow> (Some req, m\<lparr>incoming_queue := rest\<rparr>))"

section \<open>Sending\<close>

text \<open>One use of a socket, and the connections reported closed while it runs.\<close>

definition observe :: "network \<Rightarrow> net_event \<Rightarrow> middleware \<Rightarrow> middleware" where
  "observe nw e m =
     (let m1 = m\<lparr>net := net m @ [e]\<rparr> in fold on_close (ix_closed nw (net m1)) m1)"

definition send_reply :: "network \<Rightarrow> string \<Rightarrow> bytes \<Rightarrow> middleware \<Rightarrow> bool \<times> middleware" where
  "send_reply nw c d m =
     (if c \<notin> set (clients m) then (False, m)
      else let ok = ix_send_success nw (net m) c
           in (ok, observe nw (Text_Sent c d ok) m))"

text \<open>The four callables that \<^verbatim>\<open>send_binary\<close> binds to the client's socket and backlog.\<close>

definition client_callables :: "network \<Rightarrow> string \<Rightarrow> middleware callables" where
  "client_callables nw c =
     \<lparr>buffered_amount =
        (\<lambda>m. let n = ix_buffered_amount nw (net m) c in (n, observe nw (Amount_Read c n) m)),
      pop_pending =
        (\<lambda>m. case map_of (pending_frames m) c of
               None \<Rightarrow> (None, m)
             | Some q \<Rightarrow>
                 let (f, q') = pop_front q
                 in (f, m\<lparr>pending_frames := AList.update c q' (pending_frames m)\<rparr>)),
      send =
        (\<lambda>f m. let ok = ix_send_success nw (net m) c in (ok, observe nw (Binary_Sent c f ok) m)),
      queue_pending =
        (\<lambda>f m. if c \<notin> set (clients m) then (None, m)
               else let q = (case map_of (pending_frames m) c of
                               None \<Rightarrow> new_frame_queue (client_backlog_size m)
                             | Some q \<Rightarrow> q);
                        (d, q') = push f q
                    in (Some d, m\<lparr>pending_frames := AList.update c q' (pending_frames m)\<rparr>))\<rparr>"

text \<open>The throttled warning: at most one per client and interval.\<close>

definition drop_warning :: "network \<Rightarrow> int \<Rightarrow> string \<Rightarrow> middleware \<Rightarrow> bool \<times> middleware" where
  "drop_warning nw now c m0 =
     (let m = observe nw (Clock_Read now) m0;
          should_warn = (case map_of (last_drop_warn m) c of
                           None \<Rightarrow> True
                         | Some t \<Rightarrow> now - t \<ge> kDropWarnIntervalSeconds * 10 ^ 9)
      in (should_warn,
          if should_warn then m\<lparr>last_drop_warn := AList.update c now (last_drop_warn m)\<rparr> else m))"

definition backlog_size :: "middleware \<Rightarrow> string \<Rightarrow> nat" where
  "backlog_size m c =
     (case map_of (pending_frames m) c of None \<Rightarrow> 0 | Some q \<Rightarrow> frame_queue_size q)"

definition send_binary ::
    "network \<Rightarrow> int \<Rightarrow> string \<Rightarrow> frame \<Rightarrow> frame_priority \<Rightarrow> middleware \<Rightarrow> send_result \<times> middleware" where
  "send_binary nw now c d priority m =
     (if c \<notin> set (clients m) then (KClientGone, m)
      else
        let (out, m1) = run_backpressure priority d (socket_buffer_watermark m) (backlog_size m c)
                          (client_callables nw c) m
        in if result out = KShed \<and> c \<notin> set (clients m1) then (KClientGone, m1)
           else
             let m2 = (if result out = KShed
                       then m1\<lparr>heavy_shed_total := heavy_shed_total m1 + 1\<rparr> else m1);
                 m3 = (if result out = KQueued \<and> dropped out > 0 \<or> result out = KShed
                       then snd (drop_warning nw now c m2) else m2)
             in (result out, m3))"

definition dropped_frame_count :: "middleware \<Rightarrow> u64" where
  "dropped_frame_count m =
     dropped_from_disconnected m + sum_list (map (dropped_total \<circ> snd) (pending_frames m))"

definition heavy_shed_count :: "middleware \<Rightarrow> u64" where
  "heavy_shed_count m = heavy_shed_total m"

text \<open>The broadcast: the sockets copied first, then sent to in the container's order.\<close>

fun broadcast :: "network \<Rightarrow> bytes \<Rightarrow> string list \<Rightarrow> bool \<Rightarrow> middleware \<Rightarrow> bool \<times> middleware" where
  "broadcast nw d [] any_sent m = (any_sent, m)"
| "broadcast nw d (c # cs) any_sent m =
     (let ok = ix_send_success nw (net m) c
      in broadcast nw d cs (any_sent \<or> ok) (observe nw (Binary_Sent c d ok) m))"

definition publish_data :: "network \<Rightarrow> hash_order \<Rightarrow> bytes \<Rightarrow> middleware \<Rightarrow> bool \<times> middleware" where
  "publish_data nw ho d m =
     (if clients m = [] then (False, m) else broadcast nw d (visit ho (clients m)) False m)"

section \<open>Well-formedness\<close>

text \<open>
  A backlog exists only for a connected client and has the configured bound; the queue of
  requests is bounded; a middleware that is not running holds no client.
\<close>

definition mw_wf :: "middleware \<Rightarrow> bool" where
  "mw_wf m \<longleftrightarrow>
     distinct (clients m) \<and> unique_keys (pending_frames m) \<and> unique_keys (last_drop_warn m) \<and>
     set (keys (pending_frames m)) \<subseteq> set (clients m) \<and>
     (\<forall>c q. (c, q) \<in> set (pending_frames m) \<longrightarrow>
        frame_queue_wf q \<and> max_frames q = client_backlog_size m) \<and>
     length (incoming_queue m) \<le> kMaxIncomingQueueSize \<and>
     (\<not> ready m \<longrightarrow> clients m = [])"

definition backlog_of :: "middleware \<Rightarrow> string \<Rightarrow> frame list" where
  "backlog_of m c = (case map_of (pending_frames m) c of None \<Rightarrow> [] | Some q \<Rightarrow> frames q)"

text \<open>The binary frames that the socket of a client has accepted.\<close>

fun accepted_by :: "string \<Rightarrow> net_event \<Rightarrow> frame list" where
  "accepted_by c (Binary_Sent c' f ok) = (if c' = c \<and> ok then [f] else [])"
| "accepted_by c _ = []"

definition wire_of :: "middleware \<Rightarrow> string \<Rightarrow> frame list" where
  "wire_of m c = concat (map (accepted_by c) (net m))"

named_theorems mw_simps \<open>what the middleware operations leave unchanged\<close>

lemma mw_wf_unique: "mw_wf m \<Longrightarrow> unique_keys (pending_frames m)"
  by (simp add: mw_wf_def)

lemma mw_wf_queue:
  "mw_wf m \<Longrightarrow> map_of (pending_frames m) c = Some q \<Longrightarrow>
     frame_queue_wf q \<and> max_frames q = client_backlog_size m \<and> c \<in> set (clients m)"
  by (metis (mono_tags, lifting) map_of_SomeD map_of_Some_in_keys mw_wf_def subsetD)

lemma backlog_of_disconnected: "mw_wf m \<Longrightarrow> c \<notin> set (clients m) \<Longrightarrow>
    map_of (pending_frames m) c = None"
  by (metis mw_wf_queue not_None_eq)

lemma mw_wf_new [simp]: "mw_wf (new_middleware n t w)"
  by (simp add: mw_wf_def new_middleware_def)

lemma fold_pending_fields [mw_simps]:
  "clients (fold_pending c m) = clients m"
  "ready (fold_pending c m) = ready m"
  "net (fold_pending c m) = net m"
  "incoming_queue (fold_pending c m) = incoming_queue m"
  "client_backlog_size (fold_pending c m) = client_backlog_size m"
  "socket_buffer_watermark (fold_pending c m) = socket_buffer_watermark m"
  "last_drop_warn (fold_pending c m) = last_drop_warn m"
  "map_of (pending_frames (fold_pending c m)) = (map_of (pending_frames m))(c := None)"
  by (auto simp: fold_pending_def split: option.splits)

lemma drop_pending_fields [mw_simps]:
  "clients (drop_pending c m) = clients m"
  "ready (drop_pending c m) = ready m"
  "net (drop_pending c m) = net m"
  "incoming_queue (drop_pending c m) = incoming_queue m"
  "backlog_of (drop_pending c m) c' = (if c' = c then [] else backlog_of m c')"
  by (simp_all add: drop_pending_def Let_def mw_simps backlog_of_def)

lemma fold_pending_pending:
  "pending_frames (fold_pending c m) = AList.delete c (pending_frames m)"
  by (auto simp: fold_pending_def map_of_eq_None_keys AList.delete_id split: option.splits)

lemma on_close_pending:
  "ready m \<Longrightarrow> pending_frames (on_close c m) = AList.delete c (pending_frames m)"
  by (simp add: on_close_def Let_def fold_pending_pending)

lemma on_close_fields [mw_simps]:
  "clients (on_close c m) = (if ready m then remove1 c (clients m) else clients m)"
  "ready (on_close c m) = ready m"
  "net (on_close c m) = net m"
  "incoming_queue (on_close c m) = incoming_queue m"
  "client_backlog_size (on_close c m) = client_backlog_size m"
  "socket_buffer_watermark (on_close c m) = socket_buffer_watermark m"
  by (simp_all add: on_close_def Let_def mw_simps)

lemma drop_pending_wf [wf_intros]: "mw_wf m \<Longrightarrow> mw_wf (drop_pending c m)"
  by (auto simp: mw_wf_def drop_pending_def Let_def mw_simps fold_pending_pending in_delete_iff)

lemma on_close_wf [wf_intros]: "mw_wf m \<Longrightarrow> mw_wf (on_close c m)"
  by (cases "ready m")
    (auto simp: mw_wf_def on_close_def Let_def mw_simps fold_pending_pending in_delete_iff)

lemma fold_on_close_wf: "mw_wf m \<Longrightarrow> mw_wf (fold on_close cs m)"
  by (induction cs arbitrary: m) (auto intro: on_close_wf)

lemma fold_on_close_fields [mw_simps]:
  "ready (fold on_close cs m) = ready m"
  "net (fold on_close cs m) = net m"
  "incoming_queue (fold on_close cs m) = incoming_queue m"
  "client_backlog_size (fold on_close cs m) = client_backlog_size m"
  "socket_buffer_watermark (fold on_close cs m) = socket_buffer_watermark m"
  by (induction cs arbitrary: m) (auto simp: mw_simps)

lemma fold_on_close_clients:
  "mw_wf m \<Longrightarrow> set (clients (fold on_close cs m)) = (if ready m then set (clients m) - set cs else {})"
proof (induction cs arbitrary: m)
  case Nil
  then show ?case by (auto simp: mw_wf_def)
next
  case (Cons c cs)
  then have "distinct (clients m)" by (simp add: mw_wf_def)
  moreover have "mw_wf (on_close c m)" using Cons.prems by (rule on_close_wf)
  ultimately show ?case using Cons.IH [of "on_close c m"] by (auto simp: mw_simps)
qed

lemma fold_on_close_pending:
  "ready m \<Longrightarrow> c' \<notin> set cs \<Longrightarrow>
    map_of (pending_frames (fold on_close cs m)) c' = map_of (pending_frames m) c'"
  by (induction cs arbitrary: m) (simp_all add: mw_simps on_close_pending)

text \<open>A socket call records itself, may disconnect clients, and changes nothing else.\<close>

lemma observe_wf [wf_intros]: "mw_wf m \<Longrightarrow> mw_wf (observe nw e m)"
  unfolding observe_def Let_def by (rule fold_on_close_wf) (simp add: mw_wf_def)

lemma observe_fields [mw_simps]:
  "ready (observe nw e m) = ready m"
  "net (observe nw e m) = net m @ [e]"
  "incoming_queue (observe nw e m) = incoming_queue m"
  "client_backlog_size (observe nw e m) = client_backlog_size m"
  "socket_buffer_watermark (observe nw e m) = socket_buffer_watermark m"
  by (simp_all add: observe_def Let_def mw_simps)

lemma observe_clients:
  assumes "mw_wf m"
  shows "set (clients (observe nw e m)) = set (clients m) - set (ix_closed nw (net m @ [e]))"
proof -
  have "mw_wf (m\<lparr>net := net m @ [e]\<rparr>)" using assms by (simp add: mw_wf_def)
  moreover have "\<not> ready m \<Longrightarrow> clients m = []" using assms by (simp add: mw_wf_def)
  ultimately show ?thesis by (auto simp: observe_def Let_def fold_on_close_clients)
qed

lemma observe_backlog:
  assumes "mw_wf m" and "c \<in> set (clients (observe nw e m))"
  shows "map_of (pending_frames (observe nw e m)) c = map_of (pending_frames m) c"
proof -
  have "c \<in> set (clients m)" "c \<notin> set (ix_closed nw (net m @ [e]))"
    using assms by (simp_all add: observe_clients)
  moreover then have "ready m" using assms(1) by (auto simp: mw_wf_def)
  ultimately show ?thesis by (simp add: observe_def Let_def fold_on_close_pending)
qed

lemma wire_of_observe:
  "wire_of (observe nw e m) c = wire_of m c @ accepted_by c e"
  by (simp add: wire_of_def mw_simps)

lemma update_pending_wf:
  assumes "mw_wf m" "c \<in> set (clients m)" "frame_queue_wf q" "max_frames q = client_backlog_size m"
  shows "mw_wf (m\<lparr>pending_frames := AList.update c q (pending_frames m)\<rparr>)"
  using assms by (auto simp: mw_wf_def in_update_iff split: if_splits)

section \<open>The socket of a client as a transport\<close>

lemma send_callables [simp]:
  "buffered_amount (client_callables nw c) m =
     (ix_buffered_amount nw (net m) c, observe nw (Amount_Read c (ix_buffered_amount nw (net m) c)) m)"
  "send (client_callables nw c) f m =
     (ix_send_success nw (net m) c, observe nw (Binary_Sent c f (ix_send_success nw (net m) c)) m)"
  by (simp_all add: client_callables_def Let_def)

lemma pop_callable:
  assumes "mw_wf m" and "pop_pending (client_callables nw c) m = (r, m')"
  shows "mw_wf m' \<and> net m' = net m \<and> clients m' = clients m \<and>
    (r, backlog_of m' c) = (case backlog_of m c of [] \<Rightarrow> (None, []) | f # fs \<Rightarrow> (Some f, fs))"
proof (cases "map_of (pending_frames m) c")
  case None
  with assms show ?thesis by (simp add: client_callables_def backlog_of_def)
next
  case (Some q)
  obtain r' q' where p: "pop_front q = (r', q')" by (cases "pop_front q")
  with assms Some have "r' = r" and m': "m' = m\<lparr>pending_frames := AList.update c q' (pending_frames m)\<rparr>"
    by (simp_all add: client_callables_def)
  note q = mw_wf_queue [OF assms(1) Some]
  have "mw_wf m'" unfolding m'
    using q backlog.pop_keeps [OF _ p] by (intro update_pending_wf assms(1)) auto
  with q show ?thesis
    using backlog.pop_elems [OF _ p] \<open>r' = r\<close>
    by (cases "frames q") (simp_all add: m' backlog_of_def Some)
qed

lemma queue_callable:
  assumes "mw_wf m" and "queue_pending (client_callables nw c) f m = (r, m')"
  shows "mw_wf m' \<and> net m' = net m \<and> clients m' = clients m \<and>
    (if c \<in> set (clients m)
     then \<exists>d. r = Some d \<and> backlog_of m' c = drop d (backlog_of m c @ [f]) \<and>
              d = (if length (backlog_of m c) < client_backlog_size m then 0 else 1)
     else r = None \<and> m' = m)"
proof (cases "c \<in> set (clients m)")
  case False
  with assms show ?thesis by (simp add: client_callables_def)
next
  case True
  define q where "q = (case map_of (pending_frames m) c of
                         None \<Rightarrow> new_frame_queue (client_backlog_size m) | Some q \<Rightarrow> q)"
  have q: "frame_queue_wf q" "max_frames q = client_backlog_size m" "frames q = backlog_of m c"
    using mw_wf_queue [OF assms(1), of c]
    by (auto simp: q_def backlog_of_def new_frame_queue_def [of "client_backlog_size m"]
        frame_queue_wf_def split: option.splits)
  obtain d q' where p: "push f q = (d, q')" by (cases "push f q")
  with assms True have r: "r = Some d"
      and m': "m' = m\<lparr>pending_frames := AList.update c q' (pending_frames m)\<rparr>"
    by (simp_all add: client_callables_def q_def [symmetric])
  have "mw_wf m'" unfolding m'
    using q backlog.push_keeps [OF q(1) p] by (intro update_pending_wf assms(1) True) auto
  then show ?thesis
    using backlog.push_elems [OF q(1) p] backlog.push_drops [OF q(1) p] True q
    by (simp add: m' backlog_of_def [of "m\<lparr>pending_frames := x\<rparr>" c for x] r)
qed

interpretation client_socket: transport "client_callables nw c" "\<lambda>m. c \<in> set (clients m)"
    "\<lambda>m. backlog_of m c" "\<lambda>m. wire_of m c" mw_wf
  for nw c
proof unfold_locales
  fix m n m' f ok
  assume wf: "mw_wf m"
  { assume "buffered_amount (client_callables nw c) m = (n, m')"
    then have "m' = observe nw (Amount_Read c n) m" by auto
    then show "mw_wf m' \<and> wire_of m' c = wire_of m c \<and>
        (c \<in> set (clients m') \<longrightarrow> c \<in> set (clients m) \<and> backlog_of m' c = backlog_of m c)"
      using wf by (simp add: observe_wf wire_of_observe observe_backlog backlog_of_def)
        (simp add: observe_clients) }
  { assume "send (client_callables nw c) f m = (ok, m')"
    then have "m' = observe nw (Binary_Sent c f ok) m" by auto
    then show "mw_wf m' \<and> wire_of m' c = wire_of m c @ (if ok then [f] else []) \<and>
        (c \<in> set (clients m') \<longrightarrow> c \<in> set (clients m) \<and> backlog_of m' c = backlog_of m c)"
      using wf by (simp add: observe_wf wire_of_observe observe_backlog backlog_of_def)
        (simp add: observe_clients) }
next
  fix m r m'
  assume wf: "mw_wf m" and "pop_pending (client_callables nw c) m = (r, m')"
  note p = pop_callable [OF this]
  show "mw_wf m' \<and> wire_of m' c = wire_of m c \<and> (c \<in> set (clients m')) = (c \<in> set (clients m)) \<and>
      (r, backlog_of m' c) =
        (if c \<in> set (clients m)
         then (case backlog_of m c of [] \<Rightarrow> (None, []) | f # fs \<Rightarrow> (Some f, fs))
         else (None, backlog_of m c))"
    using p backlog_of_disconnected [OF wf, of c] by (auto simp: wire_of_def backlog_of_def)
next
  fix m f r m'
  assume wf: "mw_wf m" and "queue_pending (client_callables nw c) f m = (r, m')"
  note q = queue_callable [OF this]
  show "mw_wf m' \<and> wire_of m' c = wire_of m c \<and> (c \<in> set (clients m')) = (c \<in> set (clients m)) \<and>
      (if c \<in> set (clients m)
       then \<exists>d. r = Some d \<and> backlog_of m' c = drop d (backlog_of m c @ [f])
       else r = None \<and> backlog_of m' c = backlog_of m c)"
    using q by (auto simp: wire_of_def split: if_splits)
qed

text \<open>The history \<open>net\<close> is the log of this transport.\<close>

interpretation client_log: logged_transport "client_callables nw c" "\<lambda>m. c \<in> set (clients m)"
    "\<lambda>m. backlog_of m c" "\<lambda>m. wire_of m c" mw_wf net "Amount_Read c" "Binary_Sent c" client_backlog_size
  for nw c
proof unfold_locales
  fix m n m' f ok
  { assume "buffered_amount (client_callables nw c) m = (n, m')"
    then show "net m' = net m @ [Amount_Read c n] \<and> client_backlog_size m' = client_backlog_size m"
      by (auto simp: mw_simps) }
  { assume "send (client_callables nw c) f m = (ok, m')"
    then show "net m' = net m @ [Binary_Sent c f ok] \<and> client_backlog_size m' = client_backlog_size m"
      by (auto simp: mw_simps) }
next
  fix m r m'
  assume "pop_pending (client_callables nw c) m = (r, m')"
  then show "net m' = net m \<and> client_backlog_size m' = client_backlog_size m"
    by (auto simp: client_callables_def case_prod_beta split: option.splits)
next
  fix m f r m'
  assume "mw_wf m" "c \<in> set (clients m)" "queue_pending (client_callables nw c) f m = (r, m')"
  then show "net m' = net m \<and>
      (if length (backlog_of m c) < client_backlog_size m then r = Some 0 \<and> backlog_of m' c = backlog_of m c @ [f]
       else r = Some 1 \<and> backlog_of m' c = tl (backlog_of m c @ [f]))"
    using queue_callable [of m nw c f r m'] by (auto simp: drop_Suc simp del: drop_append tl_append2)
qed

section \<open>What a send leaves alone\<close>

lemma send_binary_cases:
  assumes "send_binary nw now c d priority m = (r, m')"
  obtains (gone) "c \<notin> set (clients m)" "r = KClientGone" "m' = m"
  | (run_case) out m1 m2 where "c \<in> set (clients m)"
      "run_backpressure priority d (socket_buffer_watermark m) (backlog_size m c)
         (client_callables nw c) m = (out, m1)"
      "m2 = m1 \<or> m2 = m1\<lparr>heavy_shed_total := heavy_shed_total m1 + 1\<rparr>"
      "m' = m2 \<or> m' = snd (drop_warning nw now c m2)"
      "r = result out \<or> result out = KShed \<and> r = KClientGone \<and> c \<notin> set (clients m1) \<and> m' = m1"
proof (cases "c \<in> set (clients m)")
  case False
  then have "r = KClientGone" "m' = m" using assms by (simp_all add: send_binary_def)
  with False show ?thesis by (rule gone)
next
  case True
  obtain out m1 where run: "run_backpressure priority d (socket_buffer_watermark m)
      (backlog_size m c) (client_callables nw c) m = (out, m1)" by (meson surj_pair)
  define m2 where "m2 = (if result out = KShed
      then m1\<lparr>heavy_shed_total := heavy_shed_total m1 + 1\<rparr> else m1)"
  have e: "(r, m') = (if result out = KShed \<and> c \<notin> set (clients m1) then (KClientGone, m1)
      else (result out, if result out = KQueued \<and> dropped out > 0 \<or> result out = KShed
                        then snd (drop_warning nw now c m2) else m2))"
    unfolding assms [symmetric] send_binary_def run m2_def using True
    by (simp only: Let_def prod.case if_False not_True_eq_False)
  show ?thesis
  proof (cases "result out = KShed \<and> c \<notin> set (clients m1)")
    case shed: True
    with e have "r = KClientGone" "m' = m1" by simp_all
    with shed show ?thesis by (intro run_case [OF True run, of m1]) simp_all
  next
    case False
    with e have "r = result out" "m' = m2 \<or> m' = snd (drop_warning nw now c m2)"
      by (simp_all split: if_splits)
    then show ?thesis by (intro run_case [OF True run, of m2]) (simp_all add: m2_def)
  qed
qed

lemma backlog_size_eq: "backlog_size m c = length (backlog_of m c)"
  by (simp add: backlog_size_def backlog_of_def frame_queue_size_def split: option.splits)

lemma drop_warning_fields [mw_simps]:
  "net (snd (drop_warning nw now c m)) = net m @ [Clock_Read now]"
  "incoming_queue (snd (drop_warning nw now c m)) = incoming_queue m"
  "ready (snd (drop_warning nw now c m)) = ready m"
  "client_backlog_size (snd (drop_warning nw now c m)) = client_backlog_size m"
  "clients (snd (drop_warning nw now c m)) = clients (observe nw (Clock_Read now) m)"
  "pending_frames (snd (drop_warning nw now c m)) = pending_frames (observe nw (Clock_Read now) m)"
  by (simp_all add: drop_warning_def Let_def mw_simps)

lemma mw_wf_shed: "mw_wf m \<Longrightarrow> mw_wf (m\<lparr>heavy_shed_total := n\<rparr>)"
  by (simp add: mw_wf_def)

lemma drop_warning_wf [wf_intros]: "mw_wf m \<Longrightarrow> mw_wf (snd (drop_warning nw now c m))"
  using observe_wf [of m nw "Clock_Read now"]
  by (auto simp: drop_warning_def Let_def mw_wf_def)

text \<open>An invariant of the state that no callable and no warning breaks survives the send.\<close>

lemma send_binary_preserves:
  assumes "send_binary nw now c d priority m = (r, m')" and "P m"
    and "preserved_by (client_callables nw c) P"
    and "\<And>m n. P m \<Longrightarrow> P (m\<lparr>heavy_shed_total := n\<rparr>)"
    and "\<And>m. P m \<Longrightarrow> P (snd (drop_warning nw now c m))"
  shows "P m'"
  using assms(1)
proof (cases rule: send_binary_cases)
  case gone
  with assms(2) show ?thesis by simp
next
  case (run_case out m1 m2)
  have "P m1" using backpressure_preserves [OF assms(3,2) run_case(2)] .
  then have "P m2" using run_case(3) assms(4) by auto
  then show ?thesis using run_case(4) assms(5) by auto
qed

lemma callables_preserve_wf: "preserved_by (client_callables nw c) mw_wf"
  unfolding preserved_by_def
  by (auto intro: observe_wf dest: pop_callable [OF _ surjective_pairing]
      queue_callable [OF _ surjective_pairing])

lemma send_binary_wf [wf_intros]:
  "mw_wf m \<Longrightarrow> send_binary nw now c d priority m = (r, m') \<Longrightarrow> mw_wf m'"
  by (erule send_binary_preserves [where P = mw_wf, OF _ _ callables_preserve_wf])
    (simp_all add: drop_warning_wf mw_wf_shed)

lemma callables_preserve_fields:
  "preserved_by (client_callables nw c)
     (\<lambda>m. incoming_queue m = iq \<and> ready m = b \<and> client_backlog_size m = n)"
  by (auto simp: preserved_by_def client_callables_def Let_def mw_simps case_prod_beta
      split: option.splits)

lemma send_binary_fields:
  assumes "send_binary nw now c d priority m = (r, m')"
  shows "incoming_queue m' = incoming_queue m" "ready m' = ready m"
    "client_backlog_size m' = client_backlog_size m"
  using send_binary_preserves [OF assms _ callables_preserve_fields]
  by (simp_all add: mw_simps)

lemma send_reply_wf [wf_intros]: "mw_wf m \<Longrightarrow> mw_wf (snd (send_reply nw c d m))"
  by (auto simp: send_reply_def Let_def intro: observe_wf)

lemma receive_request_wf [wf_intros]: "mw_wf m \<Longrightarrow> mw_wf (snd (receive_request m))"
  by (auto simp: receive_request_def mw_wf_def split: list.splits)

lemma on_open_wf [wf_intros]: "mw_wf m \<Longrightarrow> mw_wf (on_open l c m)"
  by (auto simp: on_open_def mw_wf_def)

lemma on_message_wf [wf_intros]: "mw_wf m \<Longrightarrow> mw_wf (on_message c b d m)"
  by (auto simp: on_message_def mw_wf_def)

lemma shutdown_wf [wf_intros]: "mw_wf m \<Longrightarrow> mw_wf (shutdown m)"
  by (auto simp: shutdown_def mw_wf_def)

lemma callbacks_wf [wf_intros]:
  "mw_wf m \<Longrightarrow> mw_wf (set_on_connect m)" "mw_wf m \<Longrightarrow> mw_wf (set_on_disconnect m)"
  by (simp_all add: set_on_connect_def set_on_disconnect_def mw_wf_def)

lemma mw_initialize_wf [wf_intros]: "mw_wf m \<Longrightarrow> mw_wf (snd (mw_initialize l port m))"
  by (auto simp: mw_initialize_def mw_wf_def split: option.splits)

lemma broadcast_wf: "mw_wf m \<Longrightarrow> mw_wf (snd (broadcast nw d cs any m))"
  by (induction cs arbitrary: any m) (auto simp: Let_def intro: observe_wf)

lemma publish_data_wf [wf_intros]: "mw_wf m \<Longrightarrow> mw_wf (snd (publish_data nw ho d m))"
  by (simp add: publish_data_def broadcast_wf)

section \<open>The drop counter\<close>

lemma sum_values_delete:
  fixes f :: "'v \<Rightarrow> 'a::ab_group_add"
  assumes "unique_keys kvs"
  shows "sum_list (map (f \<circ> snd) (AList.delete k kvs)) =
    sum_list (map (f \<circ> snd) kvs) - (case map_of kvs k of None \<Rightarrow> 0 | Some v \<Rightarrow> f v)"
  using assms
proof (induction kvs)
  case Nil
  then show ?case by simp
next
  case (Cons a kvs)
  show ?case
  proof (cases "fst a = k")
    case True
    with Cons.prems have "AList.delete k kvs = kvs" by (intro AList.delete_id) auto
    with True show ?thesis by (cases a) simp
  next
    case False
    with Cons show ?thesis by (cases a) (auto split: option.splits)
  qed
qed

lemma sum_values_update:
  fixes f :: "'v \<Rightarrow> 'a::ab_group_add"
  assumes "unique_keys kvs"
  shows "sum_list (map (f \<circ> snd) (AList.update k v kvs)) =
    sum_list (map (f \<circ> snd) kvs) - (case map_of kvs k of None \<Rightarrow> 0 | Some w \<Rightarrow> f w) + f v"
  using assms by (induction kvs) (auto split: option.splits)

lemma dropped_fold_pending:
  "unique_keys (pending_frames m) \<Longrightarrow> dropped_frame_count (fold_pending c m) = dropped_frame_count m"
  by (simp add: dropped_frame_count_def fold_pending_def sum_values_delete split: option.splits)

lemma dropped_drop_pending:
  "mw_wf m \<Longrightarrow> dropped_frame_count (drop_pending c m) = dropped_frame_count m"
  using dropped_fold_pending [OF mw_wf_unique, of m c]
  by (simp add: drop_pending_def Let_def dropped_frame_count_def)

lemma dropped_on_close:
  "mw_wf m \<Longrightarrow> dropped_frame_count (on_close c m) = dropped_frame_count m"
  using dropped_fold_pending [of "m\<lparr>clients := remove1 c (clients m)\<rparr>" c]
  by (simp add: on_close_def Let_def dropped_frame_count_def mw_wf_unique)

lemma dropped_shutdown: "dropped_frame_count (shutdown m) = dropped_frame_count m"
  by (simp add: shutdown_def dropped_frame_count_def)

lemma dropped_fold_on_close:
  "mw_wf m \<Longrightarrow> dropped_frame_count (fold on_close cs m) = dropped_frame_count m"
  by (induction cs arbitrary: m) (simp_all add: on_close_wf dropped_on_close)

lemma dropped_observe:
  "mw_wf m \<Longrightarrow> dropped_frame_count (observe nw e m) = dropped_frame_count m"
  unfolding observe_def Let_def
  by (subst dropped_fold_on_close) (simp_all add: mw_wf_def dropped_frame_count_def)

lemma dropped_update_pending:
  assumes "mw_wf m"
  shows "dropped_frame_count (m\<lparr>pending_frames := AList.update c q (pending_frames m)\<rparr>) =
    dropped_frame_count m + dropped_total q
      - (case map_of (pending_frames m) c of None \<Rightarrow> 0 | Some w \<Rightarrow> dropped_total w)"
  using sum_values_update [of "pending_frames m" dropped_total c q] mw_wf_unique [OF assms]
  by (simp add: dropped_frame_count_def)

lemma dropped_pop:
  assumes "mw_wf m"
  shows "dropped_frame_count (snd (pop_pending (client_callables nw c) m)) = dropped_frame_count m"
  using assms
  by (auto simp: client_callables_def case_prod_beta dropped_update_pending
      pop_front_dropped_total [OF surjective_pairing] split: option.splits)

lemma dropped_queue:
  assumes "mw_wf m" "queue_pending (client_callables nw c) f m = (Some d, m')"
  shows "dropped_frame_count m' = dropped_frame_count m + of_nat d"
proof -
  define q where "q = (case map_of (pending_frames m) c of
                         None \<Rightarrow> new_frame_queue (client_backlog_size m) | Some q \<Rightarrow> q)"
  have t: "dropped_total q = (case map_of (pending_frames m) c of None \<Rightarrow> 0 | Some w \<Rightarrow> dropped_total w)"
    by (simp add: q_def new_frame_queue_def split: option.splits)
  obtain d' q' where p: "push f q = (d', q')" by (cases "push f q")
  have "d' = d" "m' = m\<lparr>pending_frames := AList.update c q' (pending_frames m)\<rparr>"
    using assms(2) p by (auto simp: client_callables_def q_def [symmetric] split: if_splits)
  with push_dropped_total [OF p] show ?thesis
    by (simp add: dropped_update_pending [OF assms(1)] t)
qed

text \<open>Up to the final enqueue, a run of the policy drops nothing.\<close>

lemma dropped_backpressure:
  assumes "mw_wf m" "run_backpressure priority f w k (client_callables nw c) m = (out, m')"
  shows "mw_wf m' \<and> dropped_frame_count m' = dropped_frame_count m + of_nat (dropped out) \<and>
    dropped out \<le> 1 \<and> (dropped out \<noteq> 0 \<longrightarrow> result out = KQueued)"
proof -
  let ?P = "\<lambda>x. mw_wf x \<and> dropped_frame_count x = dropped_frame_count m"
  have start: "?P m" using assms(1) by simp
  have keeps: "preserved_upto_queue (client_callables nw c) ?P"
    unfolding preserved_upto_queue_def preserved_by_def
    using pop_callable [OF _ surjective_pairing]
    by (simp add: observe_wf dropped_observe dropped_pop)
  from assms(2) keeps start show ?thesis
  proof (cases rule: backpressure_cases)
    case (queued m2)
    then have wf2: "mw_wf m2" and same: "dropped_frame_count m2 = dropped_frame_count m" by simp_all
    from queue_callable [OF wf2 queued(2)] dropped_queue [OF wf2 queued(2)] queued(4)
    show ?thesis by (auto simp: same split: if_splits)
  next
    case (refused m2)
    with queue_callable [of m2 nw c f None m'] show ?thesis by (auto split: if_splits)
  qed simp_all
qed

lemma dropped_warning:
  assumes "mw_wf m"
  shows "dropped_frame_count (snd (drop_warning nw now c m)) = dropped_frame_count m"
proof -
  have "dropped_frame_count (snd (drop_warning nw now c m))
      = dropped_frame_count (observe nw (Clock_Read now) m)"
    by (simp add: drop_warning_def Let_def dropped_frame_count_def)
  then show ?thesis using assms by (simp add: dropped_observe)
qed

section \<open>Reachable states\<close>

text \<open>
  The callers of the middleware: the library's callback threads, the request loop and the
  publish loop, in any order, each operation with any answers from the network.
\<close>

inductive mw_step :: "middleware \<Rightarrow> middleware \<Rightarrow> bool" where
  initialize: "mw_step m (snd (mw_initialize l port m))"
| shutdown: "mw_step m (shutdown m)"
| connect_cb: "mw_step m (set_on_connect m)"
| disconnect_cb: "mw_step m (set_on_disconnect m)"
| opened: "mw_step m (on_open listed c m)"
| closed: "mw_step m (on_close c m)"
| message: "mw_step m (on_message c binary d m)"
| receive: "mw_step m (snd (receive_request m))"
| reply: "mw_step m (snd (send_reply nw c d m))"
| binary: "mw_step m (snd (send_binary nw now c d priority m))"
| drop: "mw_step m (drop_pending c m)"
| publish: "mw_step m (snd (publish_data nw ho d m))"

definition mw_reachable :: "nat \<Rightarrow> tls_config option \<Rightarrow> nat \<Rightarrow> middleware \<Rightarrow> bool" where
  "mw_reachable backlog tls_option watermark m =
     mw_step\<^sup>*\<^sup>* (new_middleware backlog tls_option watermark) m"

lemma mw_step_wf: "mw_step m m' \<Longrightarrow> mw_wf m \<Longrightarrow> mw_wf m'"
  by (induction rule: mw_step.induct)
    (auto intro: wf_intros send_binary_wf [OF _ surjective_pairing])

lemma broadcast_backlog_size:
  "client_backlog_size (snd (broadcast nw d cs any m)) = client_backlog_size m"
  by (induction cs arbitrary: any m) (simp_all add: Let_def mw_simps)

lemma mw_step_backlog_size: "mw_step m m' \<Longrightarrow> client_backlog_size m' = client_backlog_size m"
  by (induction rule: mw_step.induct)
    (auto simp: mw_initialize_def shutdown_def set_on_connect_def set_on_disconnect_def on_open_def
      on_message_def receive_request_def send_reply_def drop_pending_def publish_data_def Let_def
      mw_simps broadcast_backlog_size send_binary_fields [OF surjective_pairing]
      split: option.splits list.splits)

lemma mw_reachable_wf:
  assumes "mw_reachable n t w m"
  shows "mw_wf m \<and> client_backlog_size m = n"
  using assms unfolding mw_reachable_def
proof (induction rule: rtranclp_induct)
  case base
  then show ?case by (simp add: new_middleware_def [of n]) (simp add: new_middleware_def [symmetric])
next
  case (step m m')
  then show ?case by (simp add: mw_step_wf mw_step_backlog_size)
qed

section \<open>Properties\<close>

text \<open>
  C20. In every state that connections, requests, sends and closes can produce, a backlog
  belongs to a connected client and holds at most the configured number of frames, and at
  most 1024 requests wait.
\<close>

theorem middleware_bounded:
  assumes "mw_reachable backlog_bound tls_option watermark m"
  shows "length (backlog_of m c) \<le> backlog_bound \<and>
         (backlog_of m c \<noteq> [] \<longrightarrow> c \<in> set (clients m)) \<and>
         length (incoming_queue m) \<le> 1024 \<and> (\<not> is_ready m \<longrightarrow> clients m = [])"
proof -
  from mw_reachable_wf [OF assms] have wf: "mw_wf m" and n: "client_backlog_size m = backlog_bound"
    by simp_all
  have "length (backlog_of m c) \<le> backlog_bound \<and> (backlog_of m c \<noteq> [] \<longrightarrow> c \<in> set (clients m))"
    using mw_wf_queue [OF wf, of c] n
    by (auto simp: backlog_of_def frame_queue_wf_def split: option.splits)
  with wf show ?thesis by (simp add: mw_wf_def is_ready_def kMaxIncomingQueueSize_def)
qed

lemma send_binary_effect:
  assumes "mw_wf m" and "send_binary nw now c d priority m = (r, m')" and "c \<in> set (clients m')"
  shows "c \<in> set (clients m) \<and>
    (\<exists>n. n \<le> length (backlog_of m c) \<and>
       wire_of m' c = wire_of m c @ take n (backlog_of m c) @ (if r = KDelivered then [d] else []) \<and>
       (let rest = drop n (backlog_of m c)
        in case r of
             KDelivered \<Rightarrow> backlog_of m' c = rest
           | KShed \<Rightarrow> priority = KHeavy \<and> backlog_of m' c = rest
           | KQueued \<Rightarrow> priority = KNormal \<and>
               (\<exists>k. backlog_of m' c = drop k (rest @ [d]) \<and> length (backlog_of m' c) \<le> client_backlog_size m)
           | KClientGone \<Rightarrow> backlog_of m' c = rest \<or> backlog_of m' c = tl rest))"
  using assms(2)
proof (cases rule: send_binary_cases)
  case gone
  with assms show ?thesis by auto
next
  case (run_case out m1 m2)
  have wf1: "mw_wf m1"
    using backpressure_preserves [OF callables_preserve_wf assms(1) run_case(2)] .
  then have wf2: "mw_wf m2" using run_case(3) by (auto simp: mw_wf_shed)
  have same2: "clients m2 = clients m1" "wire_of m2 c = wire_of m1 c" "backlog_of m2 c = backlog_of m1 c"
    using run_case(3) by (auto simp: wire_of_def backlog_of_def)
  have "m' = m2 \<or> c \<in> set (clients (observe nw (Clock_Read now) m2)) \<and>
      net m' = net m2 @ [Clock_Read now] \<and>
      pending_frames m' = pending_frames (observe nw (Clock_Read now) m2)"
    using run_case(4) assms(3) by (auto simp: mw_simps)
  then have in2: "c \<in> set (clients m2)"
      and same: "wire_of m' c = wire_of m2 c" "backlog_of m' c = backlog_of m2 c"
    using assms(3) observe_backlog [OF wf2, of c nw "Clock_Read now"]
    by (auto simp: wire_of_def backlog_of_def observe_clients [OF wf2])
  then have r: "r = result out" using run_case(5) same2 by auto
  have bound: "length (backlog_of m' c) \<le> client_backlog_size m"
    using mw_wf_queue [OF send_binary_wf [OF assms(1,2)], of c] send_binary_fields(3) [OF assms(2)]
    by (auto simp: backlog_of_def frame_queue_wf_def split: option.splits)
  from client_socket.backpressure_effect [OF assms(1) run_case(1,2)] in2 same same2 bound
  show ?thesis
    unfolding r using run_case(1)
    by (intro conjI exI [of _ "frames_flushed out"])
      (auto simp: Let_def split: send_result.splits)
qed

text \<open>A client that is still there at the end saw the whole call.\<close>

lemma send_binary_run:
  assumes "mw_wf m" and "send_binary nw now c d priority m = (r, m')" and "c \<in> set (clients m')"
  obtains out m1 where "c \<in> set (clients m)" "c \<in> set (clients m1)" "r = result out"
    "run_backpressure priority d (socket_buffer_watermark m) (length (backlog_of m c)) (client_callables nw c) m
       = (out, m1)"
    "net m' = net m1 @ (if r = KShed \<or> r = KQueued \<and> 0 < dropped out then [Clock_Read now] else [])"
    "backlog_of m' c = backlog_of m1 c"
proof -
  have c: "c \<in> set (clients m)" using assms(2,3) by (auto simp: send_binary_def split: if_splits)
  obtain out m1 where run: "run_backpressure priority d (socket_buffer_watermark m)
      (length (backlog_of m c)) (client_callables nw c) m = (out, m1)" by (meson surj_pair)
  have wf1: "mw_wf m1" using backpressure_preserves [OF callables_preserve_wf assms(1) run] .
  define m2 where "m2 = (if result out = KShed
      then m1\<lparr>heavy_shed_total := heavy_shed_total m1 + 1\<rparr> else m1)"
  have m2: "mw_wf m2" "net m2 = net m1" "clients m2 = clients m1" "pending_frames m2 = pending_frames m1"
    using wf1 by (simp_all add: m2_def mw_wf_shed)
  have e: "(r, m') = (if result out = KShed \<and> c \<notin> set (clients m1) then (KClientGone, m1)
      else (result out, if result out = KQueued \<and> dropped out > 0 \<or> result out = KShed
                        then snd (drop_warning nw now c m2) else m2))"
    unfolding assms(2) [symmetric] send_binary_def backlog_size_eq run m2_def using c
    by (simp only: Let_def prod.case if_False not_True_eq_False)
  with assms(3) have c1: "c \<in> set (clients m1)"
    by (auto simp: m2 mw_simps observe_clients [OF m2(1)] split: if_splits)
  with e assms(3) have "r = result out"
      "net m' = net m1 @ (if r = KShed \<or> r = KQueued \<and> 0 < dropped out then [Clock_Read now] else [])"
      "backlog_of m' c = backlog_of m1 c"
    by (auto simp: m2 mw_simps backlog_of_def observe_backlog [OF m2(1), of c] split: if_splits)
  then show ?thesis by (intro that [OF c c1 _ run]) simp_all
qed

text \<open>
  C6. One call of \<^verbatim>\<open>send_binary\<close>, for a client that is still connected when it returns, in terms
  of all that it does to the network, in order. A prefix of the backlog goes out, one frame after
  one reading below the watermark each. The flush ends only when the backlog is empty, at a
  reading not below the watermark, or at a failed send, which loses that frame and ends the call. A
  last reading decides about the new frame: below the watermark it is sent; otherwise a heavy
  frame is shed, and a normal one is appended to what is left of the backlog, the oldest frame
  giving way if and only if the backlog is full. The clock is read exactly when a frame was shed or
  gave way.
\<close>

theorem send_binary_delivery:
  assumes "mw_wf m" and "send_binary nw now c d priority m = (r, m')" and "c \<in> set (clients m')"
  shows "c \<in> set (clients m) \<and>
    (\<exists>amounts flushed rest. backlog_of m c = flushed @ rest \<and> length amounts = length flushed \<and>
       (\<forall>a \<in> set amounts. a < socket_buffer_watermark m) \<and>
       (let begun = net m @ concat (map2 (\<lambda>a f. [Amount_Read c a, Binary_Sent c f True]) amounts flushed)
        in (\<exists>a f. a < socket_buffer_watermark m \<and> r = KClientGone \<and> rest = f # backlog_of m' c \<and>
              net m' = begun @ [Amount_Read c a, Binary_Sent c f False]) \<or>
           (\<exists>stop a. (if rest = [] then stop = []
                      else \<exists>b \<ge> socket_buffer_watermark m. stop = [Amount_Read c b]) \<and>
              (case r of
                 KDelivered \<Rightarrow> a < socket_buffer_watermark m \<and> backlog_of m' c = rest \<and>
                   net m' = begun @ stop @ [Amount_Read c a, Binary_Sent c d True]
               | KClientGone \<Rightarrow> a < socket_buffer_watermark m \<and> backlog_of m' c = rest \<and>
                   net m' = begun @ stop @ [Amount_Read c a, Binary_Sent c d False]
               | KShed \<Rightarrow> socket_buffer_watermark m \<le> a \<and> priority = KHeavy \<and> backlog_of m' c = rest \<and>
                   net m' = begun @ stop @ [Amount_Read c a, Clock_Read now]
               | KQueued \<Rightarrow> socket_buffer_watermark m \<le> a \<and> priority = KNormal \<and>
                   (if length rest < client_backlog_size m
                    then backlog_of m' c = rest @ [d] \<and> net m' = begun @ stop @ [Amount_Read c a]
                    else backlog_of m' c = tl (rest @ [d]) \<and>
                      net m' = begun @ stop @ [Amount_Read c a, Clock_Read now])))))"
  using assms
proof (cases rule: send_binary_run)
  case (1 out m1)
  let ?w = "socket_buffer_watermark m"
  let ?begun = "\<lambda>as fs. net m @ concat (map2 (\<lambda>a f. [Amount_Read c a, Binary_Sent c f True]) as fs)"
  from client_log.backpressure_log [OF assms(1) 1(4,2)] obtain as fs rest where
    split: "backlog_of m c = fs @ rest" "length as = length fs" "\<forall>a \<in> set as. a < ?w" and
    ended: "(\<exists>a f. a < ?w \<and> result out = KClientGone \<and> rest = f # backlog_of m1 c \<and>
          net m1 = ?begun as fs @ [Amount_Read c a, Binary_Sent c f False]) \<or>
        (\<exists>stop a. (if rest = [] then stop = [] else \<exists>b \<ge> ?w. stop = [Amount_Read c b]) \<and>
          (case result out of
             KDelivered \<Rightarrow> a < ?w \<and> net m1 = ?begun as fs @ stop @ [Amount_Read c a, Binary_Sent c d True] \<and>
               backlog_of m1 c = rest
           | KClientGone \<Rightarrow> a < ?w \<and> net m1 = ?begun as fs @ stop @ [Amount_Read c a, Binary_Sent c d False] \<and>
               backlog_of m1 c = rest
           | KShed \<Rightarrow> ?w \<le> a \<and> priority = KHeavy \<and> net m1 = ?begun as fs @ stop @ [Amount_Read c a] \<and>
               backlog_of m1 c = rest
           | KQueued \<Rightarrow> ?w \<le> a \<and> priority = KNormal \<and> net m1 = ?begun as fs @ stop @ [Amount_Read c a] \<and>
               (if length rest < client_backlog_size m then dropped out = 0 \<and> backlog_of m1 c = rest @ [d]
                else dropped out = 1 \<and> backlog_of m1 c = tl (rest @ [d]))))"
    unfolding Let_def flush_events_def by blast
  note same = 1(3,5,6)
  show ?thesis
    unfolding Let_def
  proof (intro conjI 1(1), rule exI [of _ as], rule exI [of _ fs], rule exI [of _ rest], intro conjI split)
    from ended show "(\<exists>a f. a < ?w \<and> r = KClientGone \<and> rest = f # backlog_of m' c \<and>
          net m' = ?begun as fs @ [Amount_Read c a, Binary_Sent c f False]) \<or>
        (\<exists>stop a. (if rest = [] then stop = [] else \<exists>b \<ge> ?w. stop = [Amount_Read c b]) \<and>
          (case r of
             KDelivered \<Rightarrow> a < ?w \<and> backlog_of m' c = rest \<and>
               net m' = ?begun as fs @ stop @ [Amount_Read c a, Binary_Sent c d True]
           | KClientGone \<Rightarrow> a < ?w \<and> backlog_of m' c = rest \<and>
               net m' = ?begun as fs @ stop @ [Amount_Read c a, Binary_Sent c d False]
           | KShed \<Rightarrow> ?w \<le> a \<and> priority = KHeavy \<and> backlog_of m' c = rest \<and>
               net m' = ?begun as fs @ stop @ [Amount_Read c a, Clock_Read now]
           | KQueued \<Rightarrow> ?w \<le> a \<and> priority = KNormal \<and>
               (if length rest < client_backlog_size m
                then backlog_of m' c = rest @ [d] \<and> net m' = ?begun as fs @ stop @ [Amount_Read c a]
                else backlog_of m' c = tl (rest @ [d]) \<and>
                  net m' = ?begun as fs @ stop @ [Amount_Read c a, Clock_Read now])))"
      unfolding same
      by (rule disj_forward; elim ex_forward conj_forward; cases "result out") (auto split: if_splits)
  qed
qed

text \<open>
  The lifetime drop count survives disconnects, dropped sessions and shutdown, and a send
  adds to it one frame at most, when the frame was queued.
\<close>

theorem dropped_count_lifetime:
  assumes "mw_wf m"
  shows "dropped_frame_count (on_close c m) = dropped_frame_count m \<and>
    dropped_frame_count (drop_pending c m) = dropped_frame_count m \<and>
    dropped_frame_count (shutdown m) = dropped_frame_count m \<and>
    (\<exists>d. d \<le> 1 \<and> (d = 1 \<longrightarrow> fst (send_binary nw now c f priority m) = KQueued) \<and>
       dropped_frame_count (snd (send_binary nw now c f priority m)) = dropped_frame_count m + d)"
proof -
  obtain r m' where s: "send_binary nw now c f priority m = (r, m')" by fastforce
  have "\<exists>d. d \<le> 1 \<and> (d = 1 \<longrightarrow> r = KQueued) \<and> dropped_frame_count m' = dropped_frame_count m + d"
    using s
  proof (cases rule: send_binary_cases)
    case gone
    then show ?thesis by (intro exI [of _ 0]) simp
  next
    case (run_case out m1 m2)
    note b = dropped_backpressure [OF assms run_case(2)]
    then have wf2: "mw_wf m2" and "dropped_frame_count m2 = dropped_frame_count m1"
      using run_case(3) by (auto simp: mw_wf_shed dropped_frame_count_def)
    with run_case(4) have "dropped_frame_count m' = dropped_frame_count m1"
      using dropped_warning [OF wf2] by auto
    moreover have "dropped out = 0 \<or> dropped out = 1 \<and> r = KQueued"
      using b run_case(5) by auto
    ultimately show ?thesis using b by (intro exI [of _ "of_nat (dropped out)"]) auto
  qed
  then show ?thesis
    unfolding s fst_conv snd_conv dropped_on_close [OF assms] dropped_drop_pending [OF assms]
      dropped_shutdown by simp
qed

text \<open>A concrete network: the socket accepts everything, nobody leaves, and the buffer holds
  \<open>amount n\<close> bytes after \<open>n\<close> events.\<close>

definition calm_network :: "(nat \<Rightarrow> nat) \<Rightarrow> network" where
  "calm_network amount =
     \<lparr>ix_buffered_amount = \<lambda>log c. amount (length log), ix_send_success = \<lambda>log c. True,
      ix_closed = \<lambda>log. []\<rparr>"

definition plain_listener :: listener where
  "plain_listener =
     \<lparr>built_with_tls = False, readable = \<lambda>_. False, listen_error = \<lambda>_. None\<rparr>"

text \<open>One client whose backlog of at most two frames holds the frame \<open>[1]\<close>.\<close>

definition congested :: middleware where
  "congested = snd (send_binary (calm_network (\<lambda>_. 5)) 0 ''a'' [1] KNormal
     (on_open True ''a'' (snd (mw_initialize plain_listener 9090 (new_middleware 2 None 5)))))"

lemma congested_reachable: "mw_reachable 2 None 5 congested"
  unfolding mw_reachable_def congested_def
  by (rule rtranclp.rtrancl_into_rtrancl, rule rtranclp.rtrancl_into_rtrancl,
      rule rtranclp.rtrancl_into_rtrancl, rule rtranclp.rtrancl_refl)
    (rule mw_step.initialize mw_step.opened mw_step.binary)+

lemma congested_state:
  "congested =
     \<lparr>client_backlog_size = 2, socket_buffer_watermark = 5, tls = None, ready = True,
      connect_callback = False, disconnect_callback = False, clients = [''a''],
      incoming_queue = [], pending_frames = [(''a'', \<lparr>max_frames = 2, frames = [[1]], dropped_total = 0\<rparr>)],
      last_drop_warn = [], dropped_from_disconnected = 0, heavy_shed_total = 0,
      net = [Amount_Read ''a'' 5]\<rparr>"
  by (simp add: congested_def send_binary_def run_backpressure_def client_callables_def
      calm_network_def plain_listener_def mw_initialize_def new_middleware_def on_open_def
      backlog_size_def observe_def push_def new_frame_queue_def)

lemma congested_wf: "mw_wf congested"
  using mw_reachable_wf [OF congested_reachable] by simp

theorem middleware_bounded_witness:
  "backlog_of congested ''a'' = [[1]] \<and> length (backlog_of congested ''a'') \<le> 2 \<and>
   ''a'' \<in> set (clients congested)"
  using middleware_bounded [OF congested_reachable, of "''a''"]
  by (simp add: congested_state backlog_of_def)

theorem send_binary_delivery_witness:
  "mw_wf congested \<and> backlog_of congested ''a'' = [[1]] \<and>
   (\<exists>m'. send_binary (calm_network (\<lambda>_. 0)) 0 ''a'' [2] KNormal congested = (KDelivered, m') \<and>
      (\<exists>amounts flushed rest stop a. [[1]] = flushed @ rest \<and>
         (if rest = [] then stop = [] else \<exists>b \<ge> 5. stop = [Amount_Read ''a'' b]) \<and> a < 5 \<and>
         net m' = net congested @ concat (map2 (\<lambda>a f. [Amount_Read ''a'' a, Binary_Sent ''a'' f True]) amounts flushed)
           @ stop @ [Amount_Read ''a'' a, Binary_Sent ''a'' [2] True]))"
proof -
  let ?call = "send_binary (calm_network (\<lambda>_. 0)) 0 ''a'' [2] KNormal congested"
  have delivered: "fst ?call = KDelivered" and here: "''a'' \<in> set (clients (snd ?call))"
    by (simp_all add: congested_state send_binary_def run_backpressure_def client_callables_def
        calm_network_def backlog_size_def frame_queue_size_def observe_def pop_front_def numeral_eq_Suc)
  from delivered have call: "?call = (KDelivered, snd ?call)" by (metis prod.collapse)
  have facts: "backlog_of congested ''a'' = [[1]]" "socket_buffer_watermark congested = 5"
    by (simp_all add: congested_state backlog_of_def)
  from send_binary_delivery [OF congested_wf call here] obtain amounts flushed rest stop a where
    "[[1]] = flushed @ rest" "if rest = [] then stop = [] else \<exists>b \<ge> 5. stop = [Amount_Read ''a'' b]" "a < 5"
    "net (snd ?call) = (net congested @ concat (map2 (\<lambda>a f. [Amount_Read ''a'' a, Binary_Sent ''a'' f True]) amounts flushed))
       @ stop @ [Amount_Read ''a'' a, Binary_Sent ''a'' [2] True]"
    unfolding facts Let_def by auto
  then show ?thesis
    by (intro conjI congested_wf facts(1), intro exI [of _ "snd ?call"] conjI call, intro exI conjI)
      (simp_all only: append.assoc)
qed

theorem dropped_count_lifetime_witness:
  "dropped_frame_count (on_close ''a'' congested) = dropped_frame_count congested"
  using dropped_count_lifetime [OF congested_wf] by blast

text \<open>
  The order of frames is not guaranteed: when the socket drains between the reading that
  stops the flush and the reading that decides about the current frame, the current frame goes
  out ahead of the frames queued before it.
\<close>

theorem send_binary_can_overtake:
  "\<exists>m m'. mw_reachable 2 None 5 m \<and> backlog_of m ''a'' = [[1]] \<and> wire_of m ''a'' = [] \<and>
     send_binary (calm_network (\<lambda>n. if n = 1 then 5 else 0)) 0 ''a'' [2] KNormal m = (KDelivered, m') \<and>
     wire_of m' ''a'' = [[2]] \<and> backlog_of m' ''a'' = [[1]]"
proof (intro exI conjI)
  let ?m' = "congested\<lparr>net := [Amount_Read ''a'' 5, Amount_Read ''a'' 5, Amount_Read ''a'' 0,
                               Binary_Sent ''a'' [2] True]\<rparr>"
  show "mw_reachable 2 None 5 congested" by (rule congested_reachable)
  show "backlog_of congested ''a'' = [[1]]" "wire_of congested ''a'' = []"
    by (simp_all add: congested_state backlog_of_def wire_of_def)
  show "send_binary (calm_network (\<lambda>n. if n = 1 then 5 else 0)) 0 ''a'' [2] KNormal congested
      = (KDelivered, ?m')"
    by (simp add: congested_state send_binary_def run_backpressure_def client_callables_def
        calm_network_def backlog_size_def frame_queue_size_def observe_def)
  show "wire_of ?m' ''a'' = [[2]]" "backlog_of ?m' ''a'' = [[1]]"
    by (simp_all add: congested_state backlog_of_def wire_of_def)
qed

text \<open>
  Requests are handed to the server in the order they arrived, nothing in between: a text
  message is appended when fewer than 1024 wait, and discarded otherwise; a binary message is
  ignored.
\<close>

theorem request_queue_fifo:
  "(case receive_request m of
      (Some req, m') \<Rightarrow> ready m \<and> incoming_queue m = req # incoming_queue m'
    | (None, m') \<Rightarrow> m' = m \<and> (ready m \<longrightarrow> incoming_queue m = [])) \<and>
   incoming_queue (on_message c binary d m) =
     (if ready m \<and> \<not> binary \<and> length (incoming_queue m) < 1024
      then incoming_queue m @ [(c, d)] else incoming_queue m) \<and>
   (\<forall>nw now c f p. incoming_queue (snd (send_binary nw now c f p m)) = incoming_queue m)"
  using send_binary_fields(1) [OF surjective_pairing, of _ _ _ _ _ m]
  by (auto simp: receive_request_def on_message_def kMaxIncomingQueueSize_def split: list.splits)

theorem request_queue_fifo_witness:
  "incoming_queue (on_message ''a'' False [1] congested) = [(''a'', [1])] \<and>
   receive_request (on_message ''a'' False [1] congested) = (Some (''a'', [1]), congested)"
  using request_queue_fifo [of congested "''a''" False "[1]"]
    request_queue_fifo [of "on_message ''a'' False [1] congested" "''a''" False "[1]"]
  by (simp add: congested_state receive_request_def on_message_def kMaxIncomingQueueSize_def)

end
