(* ===== verification/Subscription_Manager.thy ===== *)
theory Subscription_Manager
  imports Prelude
begin

text \<open>
  The interface between the server and a backend (\<^verbatim>\<open>subscription_manager_interface.hpp\<close>):
  the virtual methods as a record of functions on the backend's state, and the contract as
  locales. What the middleware answers may change from one call to the next: the methods are
  indexed by the view \<open>g\<close> of the middleware at the time of the call.
\<close>

section \<open>The virtual methods\<close>

record 'b sm_ops =
  sm_subscribe :: "string \<Rightarrow> string \<Rightarrow> 'b \<Rightarrow> bool \<times> 'b"
  sm_unsubscribe :: "string \<Rightarrow> 'b \<Rightarrow> bool \<times> 'b"
  sm_unsubscribe_all :: "'b \<Rightarrow> 'b"
  sm_is_transient_local :: "string \<Rightarrow> 'b \<Rightarrow> bool"
  sm_is_subscribed :: "string \<Rightarrow> 'b \<Rightarrow> bool"

text \<open>The defaults of the interface, for backends that do not track these.\<close>

definition default_is_transient_local :: "string \<Rightarrow> 'b \<Rightarrow> bool" where
  "default_is_transient_local t b = False"

definition default_is_subscribed :: "string \<Rightarrow> 'b \<Rightarrow> bool" where
  "default_is_subscribed t b = False"

section \<open>The contract\<close>

text \<open>
  \<open>refs b t\<close> counts the references held on a topic. Subscribing takes one or fails without
  effect, and cannot fail on a topic that is already subscribed; unsubscribing gives one back.
\<close>

locale ref_counted_manager =
  fixes ops :: "'g \<Rightarrow> 'b sm_ops"
    and inv :: "'b \<Rightarrow> bool"
    and refs :: "'b \<Rightarrow> string \<Rightarrow> nat"
  assumes subscribe_law: "inv b \<Longrightarrow> sm_subscribe (ops g) t ty b = (ok, b') \<Longrightarrow>
      inv b' \<and> refs b' = (if ok then (refs b)(t := Suc (refs b t)) else refs b)"
    and subscribe_shared: "inv b \<Longrightarrow> 0 < refs b t \<Longrightarrow> fst (sm_subscribe (ops g) t ty b)"
    and unsubscribe_law: "inv b \<Longrightarrow> sm_unsubscribe (ops g) t b = (ok, b') \<Longrightarrow>
      inv b' \<and> refs b' = (refs b)(t := refs b t - 1) \<and> ok = (0 < refs b t)"
    and unsubscribe_all_law: "inv b \<Longrightarrow> inv (sm_unsubscribe_all (ops g) b) \<and>
      refs (sm_unsubscribe_all (ops g) b) = (\<lambda>_. 0)"
    and released_law: "inv b \<Longrightarrow> refs b t = 0 \<Longrightarrow> \<not> sm_is_subscribed (ops g) t b"
begin

text \<open>The outcome of a history of subscribes and unsubscribes, with the view of each call.\<close>

fun ledger :: "('g \<times> string \<times> string option) list \<Rightarrow> 'b \<Rightarrow> (string \<times> bool) list \<times> 'b" where
  "ledger [] b = ([], b)"
| "ledger ((g, t, Some ty) # xs) b =
     (let (ok, b1) = sm_subscribe (ops g) t ty b; (rs, b2) = ledger xs b1
      in ((t, ok) # rs, b2))"
| "ledger ((g, t, None) # xs) b =
     (let (ok, b1) = sm_unsubscribe (ops g) t b; (rs, b2) = ledger xs b1 in (rs, b2))"

lemma ledger_inv: "inv b \<Longrightarrow> ledger xs b = (rs, b') \<Longrightarrow> inv b'"
  by (induction xs b arbitrary: rs rule: ledger.induct)
    (auto split: prod.splits dest: subscribe_law unsubscribe_law)

text \<open>The references never exceed the successful subscribes.\<close>

lemma ledger_bound:
  "inv b \<Longrightarrow> ledger xs b = (rs, b') \<Longrightarrow>
    refs b' t \<le> refs b t + length (filter (\<lambda>r. r = (t, True)) rs)"
proof (induction xs b arbitrary: rs rule: ledger.induct)
  case (1 b)
  then show ?case by simp
next
  case (2 g u ty xs b)
  obtain ok b1 where s: "sm_subscribe (ops g) u ty b = (ok, b1)"
    by (cases "sm_subscribe (ops g) u ty b")
  obtain rs1 b2 where l: "ledger xs b1 = (rs1, b2)" by (cases "ledger xs b1")
  from 2 s l subscribe_law [OF 2(2) s] show ?case by (cases ok) (auto split: if_splits)
next
  case (3 g u xs b)
  obtain ok b1 where s: "sm_unsubscribe (ops g) u b = (ok, b1)"
    by (cases "sm_unsubscribe (ops g) u b")
  from 3 s unsubscribe_law [OF 3(2) s] show ?case
    by (fastforce split: prod.splits if_splits)
qed

end

text \<open>A backend that also knows which topics are subscribed and which are latched.\<close>

locale tracking_manager = ref_counted_manager ops inv refs
  for ops :: "'g \<Rightarrow> 'b sm_ops" and inv and refs +
  assumes is_subscribed_law: "inv b \<Longrightarrow> sm_is_subscribed (ops g) t b \<longleftrightarrow> 0 < refs b t"
    and transient_local_law: "inv b \<Longrightarrow> sm_is_transient_local (ops g) t b \<Longrightarrow> 0 < refs b t"
begin

lemma subscribed_after: "inv b \<Longrightarrow> sm_subscribe (ops g) t ty b = (True, b') \<Longrightarrow>
    sm_is_subscribed (ops g') t b'"
  using subscribe_law [of b g t ty True b'] is_subscribed_law [of b' g' t] by simp

lemma last_reference: "inv b \<Longrightarrow> sm_unsubscribe (ops g) t b = (ok, b') \<Longrightarrow>
    sm_is_subscribed (ops g') t b' \<longleftrightarrow> 1 < refs b t"
  using unsubscribe_law [of b g t ok b'] is_subscribed_law [of b' g' t] by auto

end

section \<open>The reference-counted map shared by the backends\<close>

text \<open>
  Each backend keeps a map from topics to an entry with a \<^verbatim>\<open>reference_count\<close>; the three
  implementations of \<^verbatim>\<open>unsubscribe\<close> are the same code on it.
\<close>

record 'e ref_entry =
  reference_count :: nat
  entry :: 'e

definition ref_of :: "'e ref_entry umap \<Rightarrow> string \<Rightarrow> nat" where
  "ref_of m t = (case map_of m t of None \<Rightarrow> 0 | Some e \<Rightarrow> reference_count e)"

definition ref_map_wf :: "'e ref_entry umap \<Rightarrow> bool" where
  "ref_map_wf m \<longleftrightarrow> unique_keys m \<and> (\<forall>t e. (t, e) \<in> set m \<longrightarrow> 0 < reference_count e)"

definition ref_increment :: "string \<Rightarrow> 'e ref_entry \<Rightarrow> 'e ref_entry umap \<Rightarrow> 'e ref_entry umap" where
  "ref_increment t e m = AList.update t (e\<lparr>reference_count := reference_count e + 1\<rparr>) m"

definition ref_unsubscribe :: "string \<Rightarrow> 'e ref_entry umap \<Rightarrow> bool \<times> 'e ref_entry umap" where
  "ref_unsubscribe t m =
     (case map_of m t of
        None \<Rightarrow> (False, m)
      | Some e \<Rightarrow>
          if reference_count e = 0 then (False, m)
          else let e' = e\<lparr>reference_count := reference_count e - 1\<rparr>
               in if reference_count e' = 0 then (True, AList.delete t m)
                  else (True, AList.update t e' m))"

lemma ref_map_wf_Nil [simp]: "ref_map_wf []"
  by (simp add: ref_map_wf_def)

lemma ref_map_wf_lookup: "ref_map_wf m \<Longrightarrow> map_of m t = Some e \<Longrightarrow> 0 < reference_count e"
  by (auto simp: ref_map_wf_def dest: map_of_SomeD)

lemma ref_of_pos_iff: "ref_map_wf m \<Longrightarrow> 0 < ref_of m t \<longleftrightarrow> map_of m t \<noteq> None"
  by (auto simp: ref_of_def dest: ref_map_wf_lookup split: option.splits)

lemma ref_update_wf:
  "ref_map_wf m \<Longrightarrow> 0 < reference_count e \<Longrightarrow> ref_map_wf (AList.update t e m)"
  by (auto simp: ref_map_wf_def in_update_iff split: if_splits)

lemma ref_of_update: "ref_of (AList.update t e m) = (ref_of m)(t := reference_count e)"
  by (auto simp: ref_of_def)

lemma ref_increment_correct:
  assumes "ref_map_wf m" "map_of m t = Some e"
  shows "ref_map_wf (ref_increment t e m) \<and>
    ref_of (ref_increment t e m) = (ref_of m)(t := Suc (ref_of m t))"
  using assms by (simp add: ref_increment_def ref_update_wf ref_of_update) (simp add: ref_of_def)

lemma ref_unsubscribe_correct:
  assumes "ref_map_wf m" "ref_unsubscribe t m = (ok, m')"
  shows "ref_map_wf m' \<and> ref_of m' = (ref_of m)(t := ref_of m t - 1) \<and> ok = (0 < ref_of m t)"
proof (cases "map_of m t")
  case None
  then have "ref_of m t = 0" by (simp add: ref_of_def)
  with None assms show ?thesis by (simp add: ref_unsubscribe_def fun_eq_iff)
next
  case (Some e)
  note pos = ref_map_wf_lookup [OF assms(1) Some]
  have r: "ref_of m t = reference_count e" by (simp add: ref_of_def Some)
  show ?thesis
  proof (cases "reference_count e = 1")
    case True
    then have "m' = AList.delete t m" "ok"
      using assms(2) Some by (simp_all add: ref_unsubscribe_def)
    with True r assms(1) show ?thesis
      by (auto simp: ref_map_wf_def in_delete_iff ref_of_def fun_eq_iff)
  next
    case False
    with pos have "m' = AList.update t (e\<lparr>reference_count := reference_count e - 1\<rparr>) m" "ok"
      using assms(2) Some by (simp_all add: ref_unsubscribe_def)
    with False pos r assms(1) show ?thesis by (simp add: ref_update_wf ref_of_update)
  qed
qed

end
