(* ===== verification/Bridge_Server.thy ===== *)
theory Bridge_Server
  imports Session_Manager Message_Buffer Message_Serializer Whitelist_Filter
    Websocket_Middleware Subscription_Manager
begin

text \<open>
  \<^verbatim>\<open>BridgeServer\<close> (\<^verbatim>\<open>bridge_server.hpp\<close>, \<^verbatim>\<open>bridge_server.cpp\<close>): the request handlers, session
  cleanup, timeouts and topic notifications. The state is the object with the components it
  owns. Everything a call asks of the outside is in a record \<open>env\<close> passed to it: clocks, the
  order in which hash containers are walked, the topic source, the backend's methods, the
  JSON and Zstandard libraries, the regular expression matcher and the network. The handlers
  run on one thread; the disconnect callback runs on others and excludes them through
  \<^verbatim>\<open>cleanup_mutex_\<close>, so it can take effect just before a handler obtains that mutex, and
  during any socket call.
\<close>

section \<open>State and environment\<close>

record ('b, 're) server =
  backend :: 'b
  sess :: session_manager
  buf :: message_buffer
  mw :: middleware
  port :: int
  session_timeout :: rat
  publish_rate :: rat
  whitelist :: "'re whitelist_filter"
  heavy_frame_threshold_bytes :: nat
  initialized :: bool
  last_sent_times :: "u64 umap umap"
  known_topics :: "string umap"
  topics_snapshot_taken :: bool
  pending_replays :: "frame list umap"
  total_messages_published :: u64
  total_bytes_published :: u64
  publish_cycles :: u64
  topic_receive_counts :: "u64 umap"
  topic_forward_counts :: "u64 umap"

record ('b, 're) env =
  methods :: "'b sm_ops"
  steady_now :: int
  order :: hash_order
  source_topics :: "(string \<times> string) list"
  source_schema :: "string \<Rightarrow> string + string"
  source_encoding :: string
  source_transient_local :: "string \<Rightarrow> bool"
  regex_match :: "'re regex_matcher"
  json_parse :: "bytes \<Rightarrow> json option"
  json_dump :: "json \<Rightarrow> string option"
  zstd :: compressor
  network :: network
  bridge_version :: string
  gone_before_lock :: "string list"

text \<open>The configuration that an entry point builds the server with.\<close>

record 're server_config =
  cfg_port :: int
  cfg_session_timeout :: rat
  cfg_publish_rate :: rat
  cfg_whitelist :: "'re whitelist_filter"
  cfg_heavy_threshold :: nat

definition new_server :: "'b \<Rightarrow> middleware \<Rightarrow> 're server_config \<Rightarrow> ('b, 're) server" where
  "new_server b m cfg =
     \<lparr>backend = b, sess = new_session_manager (cfg_session_timeout cfg),
      buf = new_message_buffer kDefaultMaxMessageAgeNs, mw = m,
      port = cfg_port cfg, session_timeout = cfg_session_timeout cfg,
      publish_rate = cfg_publish_rate cfg, whitelist = cfg_whitelist cfg,
      heavy_frame_threshold_bytes = cfg_heavy_threshold cfg, initialized = False,
      last_sent_times = [], known_topics = [], topics_snapshot_taken = False,
      pending_replays = [], total_messages_published = 0, total_bytes_published = 0,
      publish_cycles = 0, topic_receive_counts = [], topic_forward_counts = []\<rparr>"

text \<open>Incrementing a counter of a hash map (\<^verbatim>\<open>m[k] += n\<close>).\<close>

definition count_up :: "string \<Rightarrow> u64 \<Rightarrow> u64 umap \<Rightarrow> u64 umap" where
  "count_up k n m = AList.update k ((case map_of m k of None \<Rightarrow> 0 | Some v \<Rightarrow> v) + n) m"

section \<open>Initialization and ingest\<close>

definition initialize :: "listener \<Rightarrow> ('b, 're) server \<Rightarrow> bool \<times> ('b, 're) server" where
  "initialize l s =
     (if initialized s then (True, s)
      else if publish_rate s \<le> 0 then (False, s)
      else if port s < 1 \<or> port s > 65535 then (False, s)
      else
        let s1 = s\<lparr>buf := new_message_buffer kDefaultMaxMessageAgeNs,
                   sess := new_session_manager (session_timeout s),
                   mw := set_on_disconnect (mw s)\<rparr>
        in (case mw_initialize l (of_int (port s)) (mw s1) of
              (Inl _, m) \<Rightarrow> (False, s1\<lparr>mw := m\<rparr>)
            | (Inr _, m) \<Rightarrow> (True, s1\<lparr>mw := m, initialized := True\<rparr>)))"

text \<open>The global message callback, registered by \<^verbatim>\<open>initialize\<close>.\<close>

definition on_ingest ::
    "u64 \<Rightarrow> u64 \<Rightarrow> string \<Rightarrow> u64 \<Rightarrow> bytes \<Rightarrow> ('b, 're) server \<Rightarrow> ('b, 're) server" where
  "on_ingest now1 now2 t ts d s =
     s\<lparr>topic_receive_counts := count_up t 1 (topic_receive_counts s),
       buf := add_message now1 now2 t ts d (buf s)\<rparr>"

section \<open>References and cleanup\<close>

definition release_subscription_ref ::
    "('b, 're) env \<Rightarrow> string \<Rightarrow> ('b, 're) server \<Rightarrow> ('b, 're) server" where
  "release_subscription_ref e t s =
     (let b = snd (sm_unsubscribe (methods e) t (backend s));
          s1 = s\<lparr>backend := b\<rparr>
      in if \<not> sm_is_subscribed (methods e) t b
         then s1\<lparr>buf := set_latched t False (buf s1)\<rparr> else s1)"

definition cleanup_session ::
    "('b, 're) env \<Rightarrow> string \<Rightarrow> ('b, 're) server \<Rightarrow> ('b, 're) server" where
  "cleanup_session e c s =
     (let s1 = s\<lparr>pending_replays := AList.delete c (pending_replays s)\<rparr>;
          s2 = (if session_exists c (sess s1)
                then let held = visit (order e) (get_ref_held_topics c (sess s1));
                         r = fold (release_subscription_ref e) held s1
                     in r\<lparr>sess := fst (remove_session c (sess r)),
                          last_sent_times := AList.delete c (last_sent_times r)\<rparr>
                else s1)
      in s2\<lparr>mw := drop_pending c (mw s2)\<rparr>)"

text \<open>The close branch of the client callback: the server's callback, then the erasure.\<close>

definition client_closed ::
    "('b, 're) env \<Rightarrow> string \<Rightarrow> ('b, 're) server \<Rightarrow> ('b, 're) server" where
  "client_closed e c s =
     (if \<not> ready (mw s) then s
      else let s1 = (if disconnect_callback (mw s) then cleanup_session e c s else s)
           in s1\<lparr>mw := on_close c (mw s1)\<rparr>)"

text \<open>What the other threads did before this one obtained \<^verbatim>\<open>cleanup_mutex_\<close>.\<close>

definition lock_cleanup :: "('b, 're) env \<Rightarrow> ('b, 're) server \<Rightarrow> ('b, 're) server" where
  "lock_cleanup e s = fold (client_closed e) (gone_before_lock e) s"

text \<open>
  A socket call of the server: the middleware's own part of a disconnect during the call is
  in the middleware's model; the server's callback for those clients runs here.
\<close>

definition after_socket_call ::
    "('b, 're) env \<Rightarrow> middleware \<Rightarrow> ('b, 're) server \<Rightarrow> ('b, 're) server" where
  "after_socket_call e m s =
     (let gone = filter (\<lambda>c. c \<notin> set (clients m)) (clients (mw s));
          s1 = s\<lparr>mw := m\<rparr>
      in if disconnect_callback m then fold (cleanup_session e) gone s1 else s1)"

definition reply_to ::
    "('b, 're) env \<Rightarrow> string \<Rightarrow> bytes \<Rightarrow> ('b, 're) server \<Rightarrow> bool \<times> ('b, 're) server" where
  "reply_to e c d s =
     (let (ok, m) = send_reply (network e) c d (mw s) in (ok, after_socket_call e m s))"

definition send_frame ::
    "('b, 're) env \<Rightarrow> string \<Rightarrow> frame \<Rightarrow> frame_priority \<Rightarrow> ('b, 're) server \<Rightarrow>
     send_result \<times> ('b, 're) server" where
  "send_frame e c f priority s =
     (let (r, m) = send_binary (network e) (steady_now e) c f priority (mw s)
      in (r, after_socket_call e m s))"

text \<open>The replay of a retained sample: the serializer may throw.\<close>

definition collect_latched_replay ::
    "('b, 're) env \<Rightarrow> string \<Rightarrow> string \<Rightarrow> ('b, 're) server \<Rightarrow> exn option \<times> ('b, 're) server" where
  "collect_latched_replay e c t s =
     (let is_latched = sm_is_transient_local (methods e) t (backend s);
          s1 = s\<lparr>buf := set_latched t is_latched (buf s)\<rparr>
      in if \<not> is_latched then (None, s1)
         else case get_latched_for_replay t (buf s1) of
                None \<Rightarrow> (None, s1)
              | Some msg \<Rightarrow>
                  (case finalize (zstd e) 0
                          (serialize_message t (timestamp_ns msg) (payload msg) new_serializer) of
                     Inl ex \<Rightarrow> (Some ex, s1)
                   | Inr f \<Rightarrow>
                       (None, s1\<lparr>pending_replays := AList.update c
                          ((case map_of (pending_replays s1) c of None \<Rightarrow> [] | Some fs \<Rightarrow> fs) @ [f])
                          (pending_replays s1)\<rparr>)))"

section \<open>Responses\<close>

definition inject_response_fields :: "json \<Rightarrow> json \<Rightarrow> json" where
  "inject_response_fields response request =
     (let r = jset ''protocol_version'' (JInt kProtocolVersion) response
      in case jfield_string request ''id'' of None \<Rightarrow> r | Some i \<Rightarrow> jset ''id'' (JString i) r)"

definition quoted :: "string \<Rightarrow> string" where
  "quoted s = [CHR 0x27] @ s @ [CHR 0x27]"

definition error_response :: "string \<Rightarrow> string \<Rightarrow> json \<Rightarrow> json" where
  "error_response code msg request =
     inject_response_fields
       (JObject [(''status'', JString ''error''), (''error_code'', JString code),
                 (''message'', JString msg)]) request"

text \<open>A handler ends with an exception or with the text of its response.\<close>

type_synonym ('b, 're) outcome = "(exn + string) \<times> ('b, 're) server"

definition respond :: "('b, 're) env \<Rightarrow> json \<Rightarrow> ('b, 're) server \<Rightarrow> ('b, 're) outcome" where
  "respond e response s =
     (case json_dump e response of None \<Rightarrow> (Inl JsonExn, s) | Some text \<Rightarrow> (Inr text, s))"

definition create_error_response ::
    "('b, 're) env \<Rightarrow> string \<Rightarrow> string \<Rightarrow> json \<Rightarrow> ('b, 're) server \<Rightarrow> ('b, 're) outcome" where
  "create_error_response e code msg request s = respond e (error_response code msg request) s"

text \<open>The first lines of every handler.\<close>

definition touch_session :: "('b, 're) env \<Rightarrow> string \<Rightarrow> ('b, 're) server \<Rightarrow> ('b, 're) server" where
  "touch_session e c s =
     (let m = (if session_exists c (sess s) then sess s
               else fst (create_session (steady_now e) c (sess s)))
      in s\<lparr>sess := fst (update_heartbeat (steady_now e) c m)\<rparr>)"

definition attach_latched_badge :: "('b, 're) env \<Rightarrow> string \<Rightarrow> json \<Rightarrow> json" where
  "attach_latched_badge e t j =
     (if source_transient_local e t then jset ''latched'' (JBool True) j else j)"

definition extract_schema :: "('b, 're) env \<Rightarrow> string \<Rightarrow> string + string" where
  "extract_schema e t = source_schema e t"

definition attach_schema_fields :: "('b, 're) env \<Rightarrow> string \<Rightarrow> json \<Rightarrow> json" where
  "attach_schema_fields e t j =
     (case extract_schema e t of
        Inl _ \<Rightarrow> j
      | Inr schema \<Rightarrow> jset ''definition'' (JString schema) (jset ''encoding'' (JString (source_encoding e)) j))"

section \<open>Handlers: topics and heartbeat\<close>

definition topic_entry :: "('b, 're) env \<Rightarrow> bool \<Rightarrow> string \<times> string \<Rightarrow> json" where
  "topic_entry e include_schemas = (\<lambda>(name, ty).
     let j = attach_latched_badge e name (JObject [(''name'', JString name), (''type'', JString ty)])
     in if include_schemas then attach_schema_fields e name j else j)"

definition server_info :: "('b, 're) env \<Rightarrow> json" where
  "server_info e =
     JObject [(''name'', JString ''pj_bridge''), (''version'', JString (bridge_version e)),
              (''capabilities'', JArray (map JString kServerCapabilities))]"

text \<open>The loop over the discovered topics, skipping those the whitelist rejects.\<close>

fun topic_entries :: "('b, 're) env \<Rightarrow> 're whitelist_filter \<Rightarrow> bool \<Rightarrow> (string \<times> string) list \<Rightarrow> json list" where
  "topic_entries e w inc [] = []"
| "topic_entries e w inc (t # ts) =
     (if \<not> matches (regex_match e) w (fst t) then topic_entries e w inc ts
      else topic_entry e inc t # topic_entries e w inc ts)"

definition handle_get_topics ::
    "('b, 're) env \<Rightarrow> string \<Rightarrow> json \<Rightarrow> ('b, 're) server \<Rightarrow> ('b, 're) outcome" where
  "handle_get_topics e c request s0 =
     (let s = touch_session e c s0;
          include_schemas = optional_bool request ''include_schemas'';
          response = JObject [(''status'', JString ''success''), (''server'', server_info e),
            (''topics'', JArray (topic_entries e (whitelist s) include_schemas (source_topics e)))]
      in respond e (inject_response_fields response request) s)"

definition handle_heartbeat ::
    "('b, 're) env \<Rightarrow> string \<Rightarrow> json \<Rightarrow> ('b, 're) server \<Rightarrow> ('b, 're) outcome" where
  "handle_heartbeat e c request s0 =
     respond e (inject_response_fields (JObject [(''status'', JString ''ok'')]) request)
       (touch_session e c s0)"

definition handle_subscribe_topic_updates ::
    "('b, 're) env \<Rightarrow> string \<Rightarrow> json \<Rightarrow> ('b, 're) server \<Rightarrow> ('b, 're) outcome" where
  "handle_subscribe_topic_updates e c request s0 =
     (let s = touch_session e c s0;
          m1 = fst (set_topic_updates c True (sess s));
          m2 = fst (set_include_schemas_in_updates c (optional_bool request ''include_schemas'') m1)
      in respond e (inject_response_fields
           (JObject [(''status'', JString ''ok''), (''topic_updates'', JBool True)]) request)
           (s\<lparr>sess := m2\<rparr>))"

definition handle_unsubscribe_topic_updates ::
    "('b, 're) env \<Rightarrow> string \<Rightarrow> json \<Rightarrow> ('b, 're) server \<Rightarrow> ('b, 're) outcome" where
  "handle_unsubscribe_topic_updates e c request s0 =
     (let s = touch_session e c s0
      in respond e (inject_response_fields
           (JObject [(''status'', JString ''ok''), (''topic_updates'', JBool False)]) request)
           (s\<lparr>sess := fst (set_topic_updates c False (sess s))\<rparr>))"

section \<open>Handlers: subscribe\<close>

text \<open>
  The requested topics: a string asks for no particular rate, an object may give one. A later
  element for the same topic overwrites an earlier one; other elements are ignored.
\<close>

definition parse_topic :: "json \<Rightarrow> (string \<times> rat option) option" where
  "parse_topic j =
     (case jstring j of
        Some t \<Rightarrow> Some (t, None)
      | None \<Rightarrow>
          (case jfield_string j ''name'' of
             None \<Rightarrow> None
           | Some t \<Rightarrow>
               Some (t, case jfind j ''max_rate_hz'' of
                          None \<Rightarrow> None
                        | Some r \<Rightarrow> map_option clamp_rate_hz (jnumber r))))"

fun parse_requested :: "json list \<Rightarrow> rat option umap \<Rightarrow> rat option umap" where
  "parse_requested [] m = m"
| "parse_requested (j # js) m =
     parse_requested js
       (case parse_topic j of None \<Rightarrow> m | Some (t, r) \<Rightarrow> AList.update t r m)"

definition failure_entry :: "string \<Rightarrow> string \<Rightarrow> json" where
  "failure_entry t reason = JObject [(''topic'', JString t), (''reason'', JString reason)]"

text \<open>Validation of the topics to add, before any reference is taken.\<close>

definition validate_topic ::
    "('b, 're) env \<Rightarrow> 're whitelist_filter \<Rightarrow> string umap \<Rightarrow> string \<Rightarrow> json + (string \<times> string)" where
  "validate_topic e w topic_types t =
     (if \<not> matches (regex_match e) w t then Inl (failure_entry t ''Topic not whitelisted'')
      else case map_of topic_types t of
             None \<Rightarrow> Inl (failure_entry t ''Topic does not exist'')
           | Some ty \<Rightarrow>
               (case extract_schema e t of
                  Inl what \<Rightarrow> Inl (failure_entry t (''Schema extraction failed: '' @ what))
                | Inr schema \<Rightarrow> Inr (ty, schema)))"

fun validate_topics ::
    "('b, 're) env \<Rightarrow> 're whitelist_filter \<Rightarrow> string umap \<Rightarrow> string list \<Rightarrow>
     (string \<times> string \<times> string) list \<times> json list" where
  "validate_topics e w types [] = ([], [])"
| "validate_topics e w types (t # ts) =
     (let (ok, bad) = validate_topics e w types ts
      in case validate_topic e w types t of
           Inl f \<Rightarrow> (ok, f # bad)
         | Inr (ty, schema) \<Rightarrow> ((t, ty, schema) # ok, bad))"

text \<open>
  The loop that takes the references, under \<^verbatim>\<open>cleanup_mutex_\<close>. It collects the schemas and
  the failures; an exception of the replay ends the handler.
\<close>

fun acquire_loop ::
    "('b, 're) env \<Rightarrow> string \<Rightarrow> bool \<Rightarrow> rat option umap \<Rightarrow> (string \<times> string \<times> string) list \<Rightarrow>
     (string \<times> json) list \<Rightarrow> json list \<Rightarrow> ('b, 're) server \<Rightarrow>
     (exn + (string \<times> json) list \<times> json list) \<times> ('b, 're) server" where
  "acquire_loop e c p requested [] schemas failures s = (Inr (schemas, failures), s)"
| "acquire_loop e c p requested ((t, ty, schema) # rest) schemas failures s =
     (let (ok, b) = (if \<not> p then sm_subscribe (methods e) t ty (backend s)
                     else (True, backend s));
          s1 = s\<lparr>backend := b\<rparr>
      in if \<not> ok
         then acquire_loop e c p requested rest schemas
                (failures @ [failure_entry t ''Subscription manager failed to create subscription'']) s1
         else
           let rate = (case map_of requested t of Some (Some r) \<Rightarrow> r | _ \<Rightarrow> 0);
               (m, recorded) = add_subscription c t rate (sess s1)
           in if \<not> recorded
              then acquire_loop e c p requested rest schemas failures
                     (if \<not> p then release_subscription_ref e t s1 else s1)
              else
                let s2 = s1\<lparr>sess := fst (set_ref_held c t (\<not> p) m)\<rparr>;
                    schemas' = AList.update t
                      (JObject [(''encoding'', JString (source_encoding e)),
                                (''definition'', JString schema)]) schemas
                in if p
                   then acquire_loop e c p requested rest schemas' failures s2
                   else case collect_latched_replay e c t s2 of
                          (Some ex, s3) \<Rightarrow> (Inl ex, s3)
                        | (None, s3) \<Rightarrow> acquire_loop e c p requested rest schemas' failures s3)"

text \<open>Rates of topics that were already subscribed, where one was given.\<close>

fun update_rates ::
    "string \<Rightarrow> rat umap \<Rightarrow> (string \<times> rat option) list \<Rightarrow> session_manager \<Rightarrow> session_manager" where
  "update_rates c current_subs [] m = m"
| "update_rates c current_subs ((t, r) # rest) m =
     update_rates c current_subs rest
       (case r of
          Some rate \<Rightarrow> (if map_of current_subs t \<noteq> None then fst (add_subscription c t rate m) else m)
        | None \<Rightarrow> m)"

definition subscribe_response ::
    "hash_order \<Rightarrow> (string \<times> json) list \<Rightarrow> json list \<Rightarrow> rat umap \<Rightarrow> json" where
  "subscribe_response ho schemas failures updated_subs =
     (let status =
            (if failures = [] then [(''status'', JString ''success'')]
             else if schemas = []
             then [(''status'', JString ''error''),
                   (''error_code'', JString ''ALL_SUBSCRIPTIONS_FAILED''),
                   (''message'', JString ''Failed to subscribe to all requested topics'')]
             else [(''status'', JString ''partial_success''),
                   (''message'', JString ''Some subscriptions failed'')]);
          rate_limits = map (\<lambda>(t, r). (t, JFloat r)) (filter (\<lambda>(t, r). r > 0) (entries ho updated_subs))
      in JObject (status @ [(''schemas'', JObject schemas)]
           @ (if failures \<noteq> [] then [(''failures'', JArray failures)] else [])
           @ (if rate_limits \<noteq> [] then [(''rate_limits'', JObject rate_limits)] else [])))"

definition handle_subscribe ::
    "('b, 're) env \<Rightarrow> string \<Rightarrow> json \<Rightarrow> ('b, 're) server \<Rightarrow> ('b, 're) outcome" where
  "handle_subscribe e c request s0 =
     (let s = touch_session e c s0
      in case jfind request ''topics'' of
           None \<Rightarrow> create_error_response e ''INVALID_REQUEST'' (''Missing '' @ quoted ''topics'' @ '' field'') request s
         | Some topics_json \<Rightarrow>
             case jarray topics_json of
               None \<Rightarrow> create_error_response e ''INVALID_REQUEST'' (quoted ''topics'' @ '' must be an array'') request s
             | Some items \<Rightarrow>
                 let current_subs = get_subscriptions c (sess s);
                     requested = parse_requested items [];
                     topics_to_add =
                       filter (\<lambda>t. map_of current_subs t = None) (keys (entries (order e) requested));
                     topic_types = assign_all [] (source_topics e);
                     (validated, failures) = validate_topics e (whitelist s) topic_types topics_to_add;
                     s1 = lock_cleanup e s;
                     p = is_paused c (sess s1)
                 in (case acquire_loop e c p requested validated [] failures s1 of
                       (Inl ex, s2) \<Rightarrow> (Inl ex, s2)
                     | (Inr (schemas, failures'), s2) \<Rightarrow>
                         let s3 = s2\<lparr>sess := update_rates c current_subs
                                       (entries (order e) requested) (sess s2)\<rparr>;
                             response = subscribe_response (order e) schemas failures'
                                          (get_subscriptions c (sess s3))
                         in respond e (inject_response_fields response request) s3))"

section \<open>Handlers: unsubscribe, pause, resume\<close>

definition item_name :: "json \<Rightarrow> string option" where
  "item_name j = (case jstring j of Some t \<Rightarrow> Some t | None \<Rightarrow> jfield_string j ''name'')"

fun unsubscribe_loop ::
    "('b, 're) env \<Rightarrow> string \<Rightarrow> string list \<Rightarrow> json list \<Rightarrow> string list \<Rightarrow> string list \<Rightarrow>
     ('b, 're) server \<Rightarrow> string list \<times> ('b, 're) server" where
  "unsubscribe_loop e c held [] current removed s = (removed, s)"
| "unsubscribe_loop e c held (j # js) current removed s =
     (case item_name j of
        None \<Rightarrow> unsubscribe_loop e c held js current removed s
      | Some t \<Rightarrow>
          if t \<in> set current
          then let s1 = (if t \<in> set held then release_subscription_ref e t s else s);
                   s2 = s1\<lparr>sess := fst (remove_subscription c t (sess s1))\<rparr>
               in unsubscribe_loop e c held js (remove1 t current) (removed @ [t]) s2
          else unsubscribe_loop e c held js current removed s)"

definition handle_unsubscribe ::
    "('b, 're) env \<Rightarrow> string \<Rightarrow> json \<Rightarrow> ('b, 're) server \<Rightarrow> ('b, 're) outcome" where
  "handle_unsubscribe e c request s0 =
     (let s = touch_session e c s0
      in case Option.bind (jfind request ''topics'') jarray of
           None \<Rightarrow> create_error_response e ''INVALID_REQUEST'' (''Missing or invalid '' @ quoted ''topics'' @ '' array'') request s
         | Some items \<Rightarrow>
             let s1 = lock_cleanup e s;
                 (removed, s2) = unsubscribe_loop e c (get_ref_held_topics c (sess s1)) items
                                   (keys (get_subscriptions c (sess s1))) [] s1
             in respond e (inject_response_fields
                  (JObject [(''status'', JString ''success''),
                            (''removed'', JArray (map JString removed))]) request) s2)"

definition paused_response :: "bool \<Rightarrow> (string \<times> json) list \<Rightarrow> json \<Rightarrow> json" where
  "paused_response b extra request =
     inject_response_fields (JObject ([(''status'', JString ''ok''), (''paused'', JBool b)] @ extra)) request"

fun release_held ::
    "('b, 're) env \<Rightarrow> string \<Rightarrow> string list \<Rightarrow> ('b, 're) server \<Rightarrow> ('b, 're) server" where
  "release_held e c [] s = s"
| "release_held e c (t # ts) s =
     (let s1 = release_subscription_ref e t s
      in release_held e c ts (s1\<lparr>sess := fst (set_ref_held c t False (sess s1))\<rparr>))"

definition handle_pause ::
    "('b, 're) env \<Rightarrow> string \<Rightarrow> json \<Rightarrow> ('b, 're) server \<Rightarrow> ('b, 're) outcome" where
  "handle_pause e c request s0 =
     (let s1 = lock_cleanup e (touch_session e c s0)
      in if is_paused c (sess s1) then respond e (paused_response True [] request) s1
         else
           let s2 = s1\<lparr>sess := fst (set_paused c True (sess s1))\<rparr>;
               s3 = release_held e c (visit (order e) (get_ref_held_topics c (sess s2))) s2
           in respond e (paused_response True [] request) s3)"

fun reacquire_loop ::
    "('b, 're) env \<Rightarrow> string \<Rightarrow> string list \<Rightarrow> string umap \<Rightarrow> string list \<Rightarrow> string list \<Rightarrow>
     ('b, 're) server \<Rightarrow> (exn + string list) \<times> ('b, 're) server" where
  "reacquire_loop e c held types [] failed s = (Inr failed, s)"
| "reacquire_loop e c held types (t # ts) failed s =
     (if t \<in> set held then reacquire_loop e c held types ts failed s
      else case map_of types t of
             None \<Rightarrow> reacquire_loop e c held types ts (failed @ [t]) s
           | Some ty \<Rightarrow>
               let (ok, b) = sm_subscribe (methods e) t ty (backend s);
                   s1 = s\<lparr>backend := b\<rparr>
               in if \<not> ok then reacquire_loop e c held types ts (failed @ [t]) s1
                  else let s2 = s1\<lparr>sess := fst (set_ref_held c t True (sess s1))\<rparr>
                       in case collect_latched_replay e c t s2 of
                            (Some ex, s3) \<Rightarrow> (Inl ex, s3)
                          | (None, s3) \<Rightarrow> reacquire_loop e c held types ts failed s3)"

definition handle_resume ::
    "('b, 're) env \<Rightarrow> string \<Rightarrow> json \<Rightarrow> ('b, 're) server \<Rightarrow> ('b, 're) outcome" where
  "handle_resume e c request s0 =
     (let types = assign_all [] (source_topics e);
          s1 = lock_cleanup e (touch_session e c s0)
      in if \<not> is_paused c (sess s1) then respond e (paused_response False [] request) s1
         else
           let s2 = s1\<lparr>sess := fst (set_paused c False (sess s1))\<rparr>;
               subs = get_subscriptions c (sess s2);
               held = get_ref_held_topics c (sess s2)
           in (case reacquire_loop e c held types (keys (entries (order e) subs)) [] s2 of
                 (Inl ex, s3) \<Rightarrow> (Inl ex, s3)
               | (Inr failed, s3) \<Rightarrow>
                   respond e (paused_response False
                     (if failed \<noteq> [] then [(''unavailable_topics'', JArray (map JString failed))] else [])
                     request) s3))"

section \<open>Requests\<close>

definition dispatch ::
    "('b, 're) env \<Rightarrow> string \<Rightarrow> json \<Rightarrow> ('b, 're) server \<Rightarrow> ('b, 're) outcome" where
  "dispatch e c request s =
     (case jfind request ''command'' of
        None \<Rightarrow> create_error_response e ''INVALID_REQUEST''
                  (''Missing '' @ quoted ''command'' @ '' field'') request s
      | Some cmd \<Rightarrow>
          (case jstring cmd of
             None \<Rightarrow> (Inl JsonExn, s)
           | Some command \<Rightarrow>
               if command = ''get_topics'' then handle_get_topics e c request s
               else if command = ''subscribe'' then handle_subscribe e c request s
               else if command = ''unsubscribe'' then handle_unsubscribe e c request s
               else if command = ''heartbeat'' then handle_heartbeat e c request s
               else if command = ''pause'' then handle_pause e c request s
               else if command = ''resume'' then handle_resume e c request s
               else if command = ''subscribe_topic_updates''
               then handle_subscribe_topic_updates e c request s
               else if command = ''unsubscribe_topic_updates''
               then handle_unsubscribe_topic_updates e c request s
               else create_error_response e ''UNKNOWN_COMMAND'' (''Unknown command: '' @ command) request s))"

text \<open>
  The try block and its handlers: \<open>None\<close> is an exception that leaves the function, which the
  construction of the error response in a catch clause can still throw.
\<close>

definition handle_request ::
    "('b, 're) env \<Rightarrow> string \<Rightarrow> bytes \<Rightarrow> ('b, 're) server \<Rightarrow> string option \<times> ('b, 're) server" where
  "handle_request e c request_data s =
     (let request = json_parse e request_data;
          (r, s1) = (case request of None \<Rightarrow> (Inl JsonExn, s) | Some j \<Rightarrow> dispatch e c j s)
      in case r of
           Inr text \<Rightarrow> (Some text, s1)
         | Inl JsonExn \<Rightarrow>
             (json_dump e (error_response ''INVALID_JSON'' ''Failed to parse JSON request'' (JObject [])), s1)
         | Inl StdExn \<Rightarrow>
             (json_dump e (error_response ''INTERNAL_ERROR'' ''Internal server error''
                (case request of None \<Rightarrow> JNull | Some j \<Rightarrow> j)), s1))"

fun send_replays ::
    "('b, 're) env \<Rightarrow> string \<Rightarrow> frame list \<Rightarrow> ('b, 're) server \<Rightarrow> ('b, 're) server" where
  "send_replays e c [] s = s"
| "send_replays e c (f # fs) s = send_replays e c fs (snd (send_frame e c f KNormal s))"

text \<open>The result is whether an exception left the function.\<close>

definition process_single_request ::
    "('b, 're) env \<Rightarrow> bytes \<Rightarrow> string \<Rightarrow> ('b, 're) server \<Rightarrow> bool \<times> ('b, 're) server" where
  "process_single_request e request_data c s0 =
     (if c = [] then (False, s0)
      else
        case handle_request e c request_data s0 of
          (None, s) \<Rightarrow> (True, s)
        | (Some response, s) \<Rightarrow>
            (let (ok, s1) = reply_to e c (string_bytes response) s
             in if \<not> ok then (False, cleanup_session e c s1)
                else
                  let frames = (case map_of (pending_replays s1) c of None \<Rightarrow> [] | Some fs \<Rightarrow> fs);
                      s2 = s1\<lparr>pending_replays := AList.delete c (pending_replays s1)\<rparr>
                  in (False, send_replays e c frames s2)))"

definition kMaxRequestsPerCall :: nat where
  "kMaxRequestsPerCall = 256"

datatype loop_result = Processed bool | Escaped

text \<open>
  The loop of \<^verbatim>\<open>process_requests\<close>, with an environment for each turn. A request without any
  byte is consumed and ends the loop.
\<close>

fun request_loop ::
    "nat \<Rightarrow> (nat \<Rightarrow> ('b, 're) env) \<Rightarrow> bool \<Rightarrow> ('b, 're) server \<Rightarrow> loop_result \<times> ('b, 're) server" where
  "request_loop 0 envs processed_any s = (Processed processed_any, s)"
| "request_loop (Suc left) envs processed_any s =
     (case receive_request (mw s) of
        (None, m) \<Rightarrow> (Processed processed_any, s\<lparr>mw := m\<rparr>)
      | (Some (c, d), m) \<Rightarrow>
          if d = [] then (Processed processed_any, s\<lparr>mw := m\<rparr>)
          else (case process_single_request (envs 0) d c (s\<lparr>mw := m\<rparr>) of
                  (True, s1) \<Rightarrow> (Escaped, s1)
                | (False, s1) \<Rightarrow> request_loop left (\<lambda>i. envs (Suc i)) True s1))"

definition process_requests ::
    "(nat \<Rightarrow> ('b, 're) env) \<Rightarrow> ('b, 're) server \<Rightarrow> loop_result \<times> ('b, 're) server" where
  "process_requests envs s =
     (if \<not> initialized s then (Processed False, s)
      else request_loop kMaxRequestsPerCall envs False s)"

section \<open>Timeouts and topic notifications\<close>

definition check_session_timeouts ::
    "('b, 're) env \<Rightarrow> ('b, 're) server \<Rightarrow> ('b, 're) server" where
  "check_session_timeouts e s =
     (if \<not> initialized s then s
      else fold (cleanup_session e) (get_timed_out_sessions (order e) (steady_now e) (sess s)) s)"

definition current_topics :: "('b, 're) env \<Rightarrow> 're whitelist_filter \<Rightarrow> string umap" where
  "current_topics e w =
     assign_all [] (filter (\<lambda>(name, ty). matches (regex_match e) w name) (source_topics e))"

text \<open>New or changed topics, and topics gone or changed.\<close>

definition added_topics :: "hash_order \<Rightarrow> string umap \<Rightarrow> string umap \<Rightarrow> (string \<times> string) list" where
  "added_topics ho known current =
     filter (\<lambda>(name, ty). map_of known name \<noteq> Some ty) (entries ho current)"

definition removed_topics :: "hash_order \<Rightarrow> string umap \<Rightarrow> string umap \<Rightarrow> string list" where
  "removed_topics ho known current =
     map fst (filter (\<lambda>(name, ty). map_of current name \<noteq> Some ty) (entries ho known))"

definition notification :: "json list \<Rightarrow> string list \<Rightarrow> json" where
  "notification fresh gone =
     JObject [(''notification'', JString ''topics_changed''), (''added'', JArray fresh),
              (''removed'', JArray (map JString gone)),
              (''protocol_version'', JInt kProtocolVersion)]"

text \<open>
  The loop over the sessions: the variant with schemas is built for the first client that
  asks for it; \<open>None\<close> is an exception of the JSON library.
\<close>

fun notify_clients ::
    "('b, 're) env \<Rightarrow> string list \<Rightarrow> bytes \<Rightarrow> string option \<Rightarrow> string option \<Rightarrow> ('b, 're) server \<Rightarrow>
     bool \<times> ('b, 're) server" where
  "notify_clients e [] plain with_schemas built s = (False, s)"
| "notify_clients e (c # cs) plain with_schemas built s =
     (if \<not> wants_topic_updates c (sess s) then notify_clients e cs plain with_schemas built s
      else if wants_schemas_in_updates c (sess s)
      then (case (case built of None \<Rightarrow> with_schemas | Some b \<Rightarrow> Some b) of
              None \<Rightarrow> (True, s)
            | Some text \<Rightarrow>
                notify_clients e cs plain with_schemas (Some text)
                  (snd (reply_to e c (string_bytes text) s)))
      else notify_clients e cs plain with_schemas built (snd (reply_to e c plain s)))"

definition check_topic_changes ::
    "('b, 're) env \<Rightarrow> ('b, 're) server \<Rightarrow> bool \<times> ('b, 're) server" where
  "check_topic_changes e s =
     (if \<not> initialized s then (False, s)
      else
        let current = current_topics e (whitelist s)
        in if \<not> topics_snapshot_taken s
           then (False, s\<lparr>known_topics := current, topics_snapshot_taken := True\<rparr>)
           else
             let fresh = added_topics (order e) (known_topics s) current;
                 gone = removed_topics (order e) (known_topics s) current;
                 s1 = s\<lparr>known_topics := current\<rparr>
             in if fresh = [] \<and> gone = [] then (False, s1)
                else
                  case json_dump e (notification (map (topic_entry e False) fresh) gone) of
                    None \<Rightarrow> (True, s1)
                  | Some plain \<Rightarrow>
                      notify_clients e (get_active_sessions (order e) (sess s1)) (string_bytes plain)
                        (json_dump e (notification (map (topic_entry e True) fresh) gone)) None s1)"

section \<open>Statistics\<close>

definition get_active_session_count :: "('b, 're) server \<Rightarrow> nat" where
  "get_active_session_count s = session_count (sess s)"

definition get_publish_stats :: "('b, 're) server \<Rightarrow> u64 \<times> u64" where
  "get_publish_stats s = (total_messages_published s, total_bytes_published s)"

record stats_snapshot =
  snap_receive_counts :: "u64 umap"
  snap_forward_counts :: "u64 umap"
  snap_publish_cycles :: u64
  snap_total_bytes :: u64

definition snapshot_and_reset_stats :: "('b, 're) server \<Rightarrow> stats_snapshot \<times> ('b, 're) server" where
  "snapshot_and_reset_stats s =
     (\<lparr>snap_receive_counts = topic_receive_counts s, snap_forward_counts = topic_forward_counts s,
       snap_publish_cycles = publish_cycles s, snap_total_bytes = total_bytes_published s\<rparr>,
      s\<lparr>topic_receive_counts := [], topic_forward_counts := [], publish_cycles := 0,
        total_bytes_published := 0\<rparr>)"

end
