(* ===== verification/Publish_Loop.thy ===== *)
theory Publish_Loop
  imports Bridge_Server "HOL-Library.List_Lexorder" "HOL-Library.Product_Lexorder"
begin

text \<open>
  \<^verbatim>\<open>BridgeServer::publish_aggregated_messages\<close>: the buffer is drained, clients with the same
  subscriptions and rates form a group, and each group gets one frame with its small messages
  and one frame per large message, subject to the rate limits.
\<close>

section \<open>Grouping the clients\<close>

text \<open>
  A group key is a \<^verbatim>\<open>std::map<std::string, int>\<close>: the topics with their rates in milli-hertz,
  in the order of the topic names. The groups are themselves in a map ordered by the
  lexicographic order of the keys, the order of the library's \<^verbatim>\<open>operator<\<close>.
\<close>

type_synonym group_key = "(string \<times> int) list"

definition group_key :: "rat umap \<Rightarrow> group_key" where
  "group_key subs = sort (map (\<lambda>(t, r). (t, rate_mhz r)) subs)"

fun insert_group :: "group_key \<Rightarrow> string \<Rightarrow> (group_key \<times> string list) list \<Rightarrow> (group_key \<times> string list) list" where
  "insert_group k c [] = [(k, [c])]"
| "insert_group k c ((k', cs) # gs) =
     (if k = k' then (k', cs @ [c]) # gs
      else if k < k' then (k, [c]) # (k', cs) # gs
      else (k', cs) # insert_group k c gs)"

fun group_clients ::
    "session_manager \<Rightarrow> string list \<Rightarrow> (group_key \<times> string list) list \<Rightarrow> (group_key \<times> string list) list" where
  "group_clients m [] gs = gs"
| "group_clients m (c # cs) gs =
     (let subs = get_subscriptions c m
      in group_clients m cs (if subs = [] then gs else insert_group (group_key subs) c gs))"

section \<open>Routing messages into frames\<close>

record group_frame =
  compressed_data :: frame
  msg_count :: nat
  client_ids :: "string list"
  is_heavy :: bool
  topic_counts :: "u64 umap"

record group_state =
  light_serializer :: serializer
  heavy_frames :: "group_frame list"
  light_topic_counts :: "u64 umap"
  group_msg_count :: nat

definition new_group_state :: group_state where
  "new_group_state =
     \<lparr>light_serializer = new_serializer, heavy_frames = [], light_topic_counts = [], group_msg_count = 0\<rparr>"

definition heavy_message :: "nat \<Rightarrow> buffered_message \<Rightarrow> bool" where
  "heavy_message threshold msg \<longleftrightarrow> threshold \<noteq> 0 \<and> threshold \<le> length (payload msg)"

text \<open>\<^verbatim>\<open>route_message\<close>: \<open>None\<close> is an exception of the serializer of a heavy frame.\<close>

definition route_message ::
    "compressor \<Rightarrow> nat \<Rightarrow> string list \<Rightarrow> string \<Rightarrow> buffered_message \<Rightarrow> group_state \<Rightarrow> group_state option" where
  "route_message z threshold ids t msg g =
     (if heavy_message threshold msg
      then (case finalize z 0 (serialize_message t (timestamp_ns msg) (payload msg) new_serializer) of
              Inl _ \<Rightarrow> None
            | Inr f \<Rightarrow>
                Some (g\<lparr>heavy_frames := heavy_frames g @
                          [\<lparr>compressed_data = f, msg_count = 1, client_ids = ids, is_heavy = True,
                            topic_counts = [(t, 1)]\<rparr>],
                        group_msg_count := group_msg_count g + 1\<rparr>))
      else Some (g\<lparr>light_serializer :=
                     serialize_message t (timestamp_ns msg) (payload msg) (light_serializer g),
                   light_topic_counts := count_up t 1 (light_topic_counts g),
                   group_msg_count := group_msg_count g + 1\<rparr>))"

fun route_all ::
    "compressor \<Rightarrow> nat \<Rightarrow> string list \<Rightarrow> string \<Rightarrow> buffered_message list \<Rightarrow> group_state \<Rightarrow> group_state option" where
  "route_all z threshold ids t [] g = Some g"
| "route_all z threshold ids t (msg # msgs) g =
     Option.bind (route_message z threshold ids t msg g) (route_all z threshold ids t msgs)"

text \<open>The rate gate, in unsigned 64-bit arithmetic; the result carries the last time admitted.\<close>

definition min_interval_ns :: "int \<Rightarrow> u64" where
  "min_interval_ns mhz = 1000000000000 div of_int mhz"

fun admitted :: "u64 \<Rightarrow> u64 \<Rightarrow> buffered_message list \<Rightarrow> buffered_message list \<times> u64" where
  "admitted interval last_sent [] = ([], last_sent)"
| "admitted interval last_sent (msg # msgs) =
     (if timestamp_ns msg \<ge> last_sent + interval
      then let (out, l) = admitted interval (timestamp_ns msg) msgs in (msg # out, l)
      else admitted interval last_sent msgs)"

text \<open>
  The topics of one group. \<open>rep\<close> is the front client's map of last times: an entry is created
  by the reading and overwritten after the topic's messages.
\<close>

fun route_topics ::
    "compressor \<Rightarrow> nat \<Rightarrow> string list \<Rightarrow> rat umap \<Rightarrow> (string \<times> buffered_message list) list \<Rightarrow>
     u64 umap \<Rightarrow> group_state \<Rightarrow> group_state option \<times> u64 umap" where
  "route_topics z threshold ids subs [] rep g = (Some g, rep)"
| "route_topics z threshold ids subs ((t, msgs) # rest) rep g =
     (case map_of subs t of
        None \<Rightarrow> route_topics z threshold ids subs rest rep g
      | Some rate_hz \<Rightarrow>
          let mhz = rate_mhz rate_hz
          in if mhz = 0
             then (case route_all z threshold ids t msgs g of
                     None \<Rightarrow> (None, rep)
                   | Some g' \<Rightarrow> route_topics z threshold ids subs rest rep g')
             else
               let last_sent = (case map_of rep t of None \<Rightarrow> 0 | Some v \<Rightarrow> v);
                   (out, l) = admitted (min_interval_ns mhz) last_sent msgs
               in (case route_all z threshold ids t out g of
                     None \<Rightarrow> (None, AList.update t last_sent rep)
                   | Some g' \<Rightarrow> route_topics z threshold ids subs rest (AList.update t l rep) g'))"

section \<open>Building the frames\<close>

definition map_at :: "string \<Rightarrow> u64 umap umap \<Rightarrow> u64 umap" where
  "map_at c m = (case map_of m c of None \<Rightarrow> [] | Some x \<Rightarrow> x)"

text \<open>Copying the front client's times to the others of its group.\<close>

definition propagate :: "string list \<Rightarrow> u64 umap \<Rightarrow> u64 umap umap \<Rightarrow> u64 umap umap" where
  "propagate ids rep sent =
     fold (\<lambda>c ts. if c \<noteq> hd ids then AList.update c rep ts else ts) ids sent"

text \<open>One group: its frames, or \<open>None\<close> on an exception, and the times.\<close>

definition build_group ::
    "compressor \<Rightarrow> nat \<Rightarrow> (string \<times> buffered_message list) list \<Rightarrow> session_manager \<Rightarrow> string list \<Rightarrow>
     u64 umap umap \<Rightarrow> group_frame list option \<times> u64 umap umap" where
  "build_group z threshold messages m ids sent =
     (let subs = get_subscriptions (hd ids) m;
          (r, rep) = route_topics z threshold ids subs messages (map_at (hd ids) sent) new_group_state;
          sent1 = AList.update (hd ids) rep sent
      in case r of
           None \<Rightarrow> (None, sent1)
         | Some g \<Rightarrow>
             if group_msg_count g = 0 then (Some [], sent1)
             else
               let sent2 = propagate ids rep sent1
               in if message_count (light_serializer g) > 0
                  then (case finalize z 0 (light_serializer g) of
                          Inl _ \<Rightarrow> (None, sent2)
                        | Inr f \<Rightarrow>
                            (Some (\<lparr>compressed_data = f, msg_count = message_count (light_serializer g),
                                    client_ids = ids, is_heavy = False,
                                    topic_counts = light_topic_counts g\<rparr> # heavy_frames g), sent2))
                  else (Some (heavy_frames g), sent2))"

fun build_frames ::
    "compressor \<Rightarrow> nat \<Rightarrow> (string \<times> buffered_message list) list \<Rightarrow> session_manager \<Rightarrow> string list list \<Rightarrow>
     u64 umap umap \<Rightarrow> group_frame list option \<times> u64 umap umap" where
  "build_frames z threshold messages m [] sent = (Some [], sent)"
| "build_frames z threshold messages m (ids # rest) sent =
     (case build_group z threshold messages m ids sent of
        (None, sent1) \<Rightarrow> (None, sent1)
      | (Some fs, sent1) \<Rightarrow>
          (case build_frames z threshold messages m rest sent1 of
             (None, sent2) \<Rightarrow> (None, sent2)
           | (Some gs, sent2) \<Rightarrow> (Some (fs @ gs), sent2)))"

section \<open>Sending\<close>

definition forwarded :: "send_result \<Rightarrow> bool" where
  "forwarded r \<longleftrightarrow> r = KDelivered \<or> r = KQueued"

fun send_to_clients ::
    "('b, 're) env \<Rightarrow> string list \<Rightarrow> group_frame \<Rightarrow> string list \<Rightarrow> bool \<Rightarrow> ('b, 're) server \<Rightarrow>
     bool \<times> ('b, 're) server" where
  "send_to_clients e paused_clients f [] any_sent s = (any_sent, s)"
| "send_to_clients e paused_clients f (c # cs) any_sent s =
     (if c \<in> set paused_clients then send_to_clients e paused_clients f cs any_sent s
      else let (r, s1) = send_frame e c (compressed_data f) (if is_heavy f then KHeavy else KNormal) s
           in send_to_clients e paused_clients f cs (any_sent \<or> forwarded r) s1)"

record totals =
  total_msg_count :: nat
  total_bytes :: nat
  forward_counts :: "u64 umap"

definition count_all :: "u64 umap \<Rightarrow> u64 umap \<Rightarrow> u64 umap" where
  "count_all counts m = fold (\<lambda>(t, n). count_up t n) counts m"

fun send_frames ::
    "('b, 're) env \<Rightarrow> string list \<Rightarrow> group_frame list \<Rightarrow> totals \<Rightarrow> ('b, 're) server \<Rightarrow>
     totals \<times> ('b, 're) server" where
  "send_frames e paused_clients [] tot s = (tot, s)"
| "send_frames e paused_clients (f # fs) tot s =
     (let (any_sent, s1) = send_to_clients e paused_clients f (client_ids f) False s
      in send_frames e paused_clients fs
           (if any_sent
            then \<lparr>total_msg_count = total_msg_count tot + msg_count f,
                  total_bytes = total_bytes tot + length (compressed_data f),
                  forward_counts = count_all (topic_counts f) (forward_counts tot)\<rparr>
            else tot) s1)"

definition add_stats :: "totals \<Rightarrow> ('b, 're) server \<Rightarrow> ('b, 're) server" where
  "add_stats tot s =
     (if total_msg_count tot > 0
      then s\<lparr>total_messages_published := total_messages_published s + of_nat (total_msg_count tot),
             total_bytes_published := total_bytes_published s + of_nat (total_bytes tot),
             publish_cycles := publish_cycles s + 1,
             topic_forward_counts := count_all (forward_counts tot) (topic_forward_counts s)\<rparr>
      else s)"

definition no_totals :: totals where
  "no_totals = \<lparr>total_msg_count = 0, total_bytes = 0, forward_counts = []\<rparr>"

text \<open>
  The whole function. Groups, subscriptions and paused flags are read first; a disconnect may
  be handled before the times are locked.
\<close>

definition publish_aggregated_messages :: "('b, 're) env \<Rightarrow> ('b, 're) server \<Rightarrow> ('b, 're) server" where
  "publish_aggregated_messages e s =
     (if \<not> initialized s then s
      else
        let (messages, b) = move_messages (buf s);
            s1 = s\<lparr>buf := b\<rparr>
        in if messages = [] then s1
           else
             let active = get_active_sessions (order e) (sess s1)
             in if active = [] then s1
                else
                  let groups = group_clients (sess s1) active [];
                      paused_clients =
                        filter (\<lambda>c. is_paused c (sess s1)) (concat (map snd groups));
                      sessions1 = sess s1;
                      s2 = lock_cleanup e s1
                  in (case build_frames (zstd e) (heavy_frame_threshold_bytes s2)
                             (entries (order e) messages) sessions1 (map snd groups)
                             (last_sent_times s2) of
                        (None, sent) \<Rightarrow> s2\<lparr>last_sent_times := sent\<rparr>
                      | (Some fs, sent) \<Rightarrow>
                          let (tot, s3) = send_frames e paused_clients fs no_totals
                                            (s2\<lparr>last_sent_times := sent\<rparr>)
                          in add_stats tot s3))"

end
