(* ===== verification/Server_Invariants.thy ===== *)
theory Server_Invariants
  imports Publish_Loop
begin

text \<open>
  The invariant of the server: the backend holds as many references on a topic as there are
  sessions that hold one, a paused client holds none, and a sample is retained only for a
  topic that is subscribed. The proofs use the backend through its contract only; they are
  carried out in the locale of that contract.
\<close>

section \<open>Frame lemmas\<close>

named_theorems frame_simps \<open>fields that an operation of the server does not touch\<close>

text \<open>The fields that no operation but \<open>initialize\<close> changes.\<close>

definition config_of :: "('b, 're) server \<Rightarrow> int \<times> rat \<times> rat \<times> 're whitelist_filter \<times> nat \<times> bool" where
  "config_of s = (port s, session_timeout s, publish_rate s, whitelist s,
                  heavy_frame_threshold_bytes s, initialized s)"

lemma config_of_update [frame_simps]:
  "config_of (s\<lparr>backend := b\<rparr>) = config_of s"
  "config_of (s\<lparr>sess := m\<rparr>) = config_of s"
  "config_of (s\<lparr>buf := x\<rparr>) = config_of s"
  "config_of (s\<lparr>mw := w\<rparr>) = config_of s"
  "config_of (s\<lparr>last_sent_times := l\<rparr>) = config_of s"
  "config_of (s\<lparr>known_topics := k\<rparr>) = config_of s"
  "config_of (s\<lparr>topics_snapshot_taken := y\<rparr>) = config_of s"
  "config_of (s\<lparr>pending_replays := p\<rparr>) = config_of s"
  by (simp_all add: config_of_def)

lemma config_of_initialized: "config_of s = config_of s' \<Longrightarrow> initialized s = initialized s'"
  by (simp add: config_of_def)

lemma release_frame [frame_simps]:
  "sess (release_subscription_ref e t s) = sess s"
  "mw (release_subscription_ref e t s) = mw s"
  "last_sent_times (release_subscription_ref e t s) = last_sent_times s"
  "pending_replays (release_subscription_ref e t s) = pending_replays s"
  "known_topics (release_subscription_ref e t s) = known_topics s"
  "config_of (release_subscription_ref e t s) = config_of s"
  by (simp_all add: release_subscription_ref_def Let_def frame_simps)

lemma fold_release_frame [frame_simps]:
  "sess (fold (release_subscription_ref e) ts s) = sess s"
  "mw (fold (release_subscription_ref e) ts s) = mw s"
  "last_sent_times (fold (release_subscription_ref e) ts s) = last_sent_times s"
  "pending_replays (fold (release_subscription_ref e) ts s) = pending_replays s"
  "known_topics (fold (release_subscription_ref e) ts s) = known_topics s"
  "config_of (fold (release_subscription_ref e) ts s) = config_of s"
  by (induction ts arbitrary: s) (simp_all add: frame_simps)

lemma cleanup_frame [frame_simps]:
  "sess (cleanup_session e c s) = fst (remove_session c (sess s))"
  "mw (cleanup_session e c s) = drop_pending c (mw s)"
  "pending_replays (cleanup_session e c s) = AList.delete c (pending_replays s)"
  "known_topics (cleanup_session e c s) = known_topics s"
  "config_of (cleanup_session e c s) = config_of s"
  by (simp_all add: cleanup_session_def Let_def frame_simps remove_session_def session_exists_def
      split: option.splits)

lemma collect_frame [frame_simps]:
  "sess (snd (collect_latched_replay e c t s)) = sess s"
  "mw (snd (collect_latched_replay e c t s)) = mw s"
  "backend (snd (collect_latched_replay e c t s)) = backend s"
  "last_sent_times (snd (collect_latched_replay e c t s)) = last_sent_times s"
  "config_of (snd (collect_latched_replay e c t s)) = config_of s"
  "buf (snd (collect_latched_replay e c t s)) =
     set_latched t (sm_is_transient_local (methods e) t (backend s)) (buf s)"
  by (simp_all add: collect_latched_replay_def Let_def frame_simps split: option.splits sum.splits)

lemma client_closed_config [frame_simps]: "config_of (client_closed e c s) = config_of s"
  by (simp add: client_closed_def Let_def frame_simps)

lemma lock_cleanup_config [frame_simps]: "config_of (lock_cleanup e s) = config_of s"
proof -
  have "config_of (fold (client_closed e) cs s) = config_of s" for cs
    by (induction cs arbitrary: s) (simp_all add: frame_simps)
  then show ?thesis by (simp add: lock_cleanup_def)
qed

lemma fold_cleanup_config: "config_of (fold (cleanup_session e) cs s) = config_of s"
  by (induction cs arbitrary: s) (simp_all add: frame_simps)

lemma after_socket_config [frame_simps]: "config_of (after_socket_call e m s) = config_of s"
  by (simp add: after_socket_call_def Let_def fold_cleanup_config frame_simps)

lemma send_config [frame_simps]:
  "config_of (snd (reply_to e c d s)) = config_of s"
  "config_of (snd (send_frame e c f p s)) = config_of s"
  by (simp_all add: reply_to_def send_frame_def case_prod_beta frame_simps)

lemma touch_frame [frame_simps]:
  "backend (touch_session e c s) = backend s"
  "buf (touch_session e c s) = buf s"
  "mw (touch_session e c s) = mw s"
  "pending_replays (touch_session e c s) = pending_replays s"
  "config_of (touch_session e c s) = config_of s"
  by (simp_all add: touch_session_def Let_def frame_simps)

section \<open>The invariant\<close>

definition ledger_ok :: "('b \<Rightarrow> bool) \<Rightarrow> ('b \<Rightarrow> string \<Rightarrow> nat) \<Rightarrow> ('b, 're) server \<Rightarrow> bool" where
  "ledger_ok bwf refs s \<longleftrightarrow>
     bwf (backend s) \<and> refs (backend s) = held_count (sess s) \<and> sessions_wf (sess s) \<and>
     buffer_wf (buf s) \<and> (\<forall>t \<in> set (latched_topics (buf s)). 0 < held_count (sess s) t) \<and> mw_wf (mw s)"

definition server_inv :: "('b \<Rightarrow> bool) \<Rightarrow> ('b \<Rightarrow> string \<Rightarrow> nat) \<Rightarrow> ('b, 're) server \<Rightarrow> bool" where
  "server_inv bwf refs s \<longleftrightarrow> ledger_ok bwf refs s \<and> paused_hold_nothing (sess s)"

lemma ledger_okI:
  assumes "bwf (backend s)" "refs (backend s) = held_count (sess s)" "sessions_wf (sess s)"
    "buffer_wf (buf s)" "\<forall>t \<in> set (latched_topics (buf s)). 0 < refs (backend s) t" "mw_wf (mw s)"
  shows "ledger_ok bwf refs s"
  using assms by (simp add: ledger_ok_def)

lemma ledger_okD:
  assumes "ledger_ok bwf refs s"
  shows "bwf (backend s)" "refs (backend s) = held_count (sess s)" "sessions_wf (sess s)"
    "buffer_wf (buf s)" "\<forall>t \<in> set (latched_topics (buf s)). 0 < refs (backend s) t" "mw_wf (mw s)"
  using assms by (simp_all add: ledger_ok_def)

text \<open>The calls of a step go to the backend of the server.\<close>

definition uses :: "('g \<Rightarrow> 'b sm_ops) \<Rightarrow> ('b, 're) env \<Rightarrow> bool" where
  "uses ops e \<longleftrightarrow> (\<exists>g. methods e = ops g)"

text \<open>A server on a backend that counts references.\<close>

locale server_backend = ref_counted_manager ops inv refs
  for ops :: "'g \<Rightarrow> 'b sm_ops" and inv :: "'b \<Rightarrow> bool" and refs :: "'b \<Rightarrow> string \<Rightarrow> nat"
begin

abbreviation ok :: "('b, 're) server \<Rightarrow> bool" where
  "ok \<equiv> ledger_ok inv refs"

abbreviation good :: "('b, 're) server \<Rightarrow> bool" where
  "good \<equiv> server_inv inv refs"

lemma release_refs:
  assumes "uses ops e" "inv (backend s)"
  shows "inv (backend (release_subscription_ref e t s)) \<and>
    refs (backend (release_subscription_ref e t s)) = (refs (backend s))(t := refs (backend s) t - 1)"
proof -
  from assms(1) obtain g where g: "methods e = ops g" by (auto simp: uses_def)
  from unsubscribe_law [OF assms(2), of g t, OF surjective_pairing] show ?thesis
    by (simp add: release_subscription_ref_def Let_def g)
qed

lemma release_buffer:
  assumes "uses ops e" "inv (backend s)" "buffer_wf (buf s)"
    and "\<forall>t \<in> set (latched_topics (buf s)). 0 < refs (backend s) t"
  shows "buffer_wf (buf (release_subscription_ref e t s)) \<and>
    (\<forall>t' \<in> set (latched_topics (buf (release_subscription_ref e t s))).
       0 < refs (backend (release_subscription_ref e t s)) t')"
proof -
  from assms(1) obtain g where g: "methods e = ops g" by (auto simp: uses_def)
  note law = unsubscribe_law [OF assms(2), of g t, OF surjective_pairing]
  let ?b = "snd (sm_unsubscribe (ops g) t (backend s))"
  show ?thesis
  proof (cases "sm_is_subscribed (ops g) t ?b")
    case True
    then have "0 < refs ?b t" using released_law [of ?b t g] law by (metis neq0_conv)
    then have "\<forall>t' \<in> set (latched_topics (buf s)). 0 < refs ?b t'"
      using law assms(4) by (auto simp: fun_eq_iff)
    with True assms(3) show ?thesis by (simp add: release_subscription_ref_def Let_def g)
  next
    case False
    with law assms show ?thesis
      by (auto simp: release_subscription_ref_def Let_def g fun_eq_iff set_latched_wf set_latched_topics)
  qed
qed

lemma fold_release_refs:
  assumes "uses ops e" "inv (backend s)" "buffer_wf (buf s)"
    and "\<forall>t \<in> set (latched_topics (buf s)). 0 < refs (backend s) t" and "distinct ts"
  shows "inv (backend (fold (release_subscription_ref e) ts s)) \<and>
    buffer_wf (buf (fold (release_subscription_ref e) ts s)) \<and>
    (\<forall>t \<in> set (latched_topics (buf (fold (release_subscription_ref e) ts s))).
       0 < refs (backend (fold (release_subscription_ref e) ts s)) t) \<and>
    refs (backend (fold (release_subscription_ref e) ts s)) =
      (\<lambda>t. refs (backend s) t - of_bool (t \<in> set ts))"
  using assms(2-)
proof (induction ts arbitrary: s)
  case Nil
  then show ?case by simp
next
  case (Cons t ts)
  let ?s = "release_subscription_ref e t s"
  note r = release_refs [OF assms(1) Cons.prems(1), of t]
    and b = release_buffer [OF assms(1) Cons.prems(1-3), of t]
  from Cons.IH [of ?s] r b Cons.prems(4) show ?case by (auto simp: fun_eq_iff)
qed

lemma cleanup_good:
  assumes "uses ops e" "good s"
  shows "good (cleanup_session e c s)"
proof -
  let ?s1 = "s\<lparr>pending_replays := AList.delete c (pending_replays s)\<rparr>"
  let ?held = "visit (order e) (get_ref_held_topics c (sess s))"
  have g: "inv (backend ?s1)" "refs (backend s) = held_count (sess s)" "sessions_wf (sess s)"
      "buffer_wf (buf ?s1)" "\<forall>t \<in> set (latched_topics (buf ?s1)). 0 < refs (backend ?s1) t"
      "mw_wf (mw s)" "paused_hold_nothing (sess s)"
    using assms(2) by (simp_all add: server_inv_def ledger_ok_def)
  have d: "distinct ?held" using session_wf_distinct_held [OF g(3)] by simp
  note f = fold_release_refs [OF assms(1) g(1,4,5) d]
  have p: "paused_hold_nothing (fst (remove_session c (sess s)))"
    using g(7) by (auto simp: paused_hold_nothing_def session_simps)
  show ?thesis
  proof (cases "session_exists c (sess s)")
    case True
    then have same: "backend (cleanup_session e c s) = backend (fold (release_subscription_ref e) ?held ?s1)"
        "buf (cleanup_session e c s) = buf (fold (release_subscription_ref e) ?held ?s1)"
      by (simp_all add: cleanup_session_def Let_def)
    have h: "refs (backend (cleanup_session e c s)) = held_count (sess (cleanup_session e c s))"
      unfolding frame_simps using f g(2) by (simp add: same fun_eq_iff held_count_remove_session [OF g(3)])
    have l: "\<forall>t \<in> set (latched_topics (buf (cleanup_session e c s))).
        0 < refs (backend (cleanup_session e c s)) t"
      unfolding same using f by blast
    have "ok (cleanup_session e c s)"
      using f g
      by (intro ledger_okI h l) (simp_all add: same frame_simps remove_session_wf drop_pending_wf)
    with p show ?thesis by (simp add: server_inv_def frame_simps)
  next
    case False
    then have "backend (cleanup_session e c s) = backend s" "buf (cleanup_session e c s) = buf s"
        "fst (remove_session c (sess s)) = sess s"
      by (simp_all add: cleanup_session_def Let_def remove_session_def session_exists_def)
    with g show ?thesis
      by (simp add: server_inv_def ledger_ok_def frame_simps drop_pending_wf)
  qed
qed

lemma good_mw: "good s \<Longrightarrow> mw_wf m \<Longrightarrow> good (s\<lparr>mw := m\<rparr>)"
  by (simp add: server_inv_def ledger_ok_def)

lemma good_mw_wf: "good s \<Longrightarrow> mw_wf (mw s)"
  by (simp add: server_inv_def ledger_ok_def)

lemma client_closed_good:
  assumes "uses ops e" "good s"
  shows "good (client_closed e c s)"
  using cleanup_good [OF assms, of c] assms(2)
  by (auto simp: client_closed_def Let_def intro!: good_mw on_close_wf dest: good_mw_wf)

lemma lock_cleanup_good:
  assumes "uses ops e" "good s"
  shows "good (lock_cleanup e s)"
proof -
  have "good (fold (client_closed e) cs s)" for cs
    using assms(2) by (induction cs arbitrary: s) (simp_all add: client_closed_good [OF assms(1)])
  then show ?thesis by (simp add: lock_cleanup_def)
qed

lemma after_socket_good:
  assumes "uses ops e" "good s" "mw_wf m"
  shows "good (after_socket_call e m s)"
proof -
  have "good s \<Longrightarrow> good (fold (cleanup_session e) cs s)" for cs s
    by (induction cs arbitrary: s) (simp_all add: cleanup_good [OF assms(1)])
  then show ?thesis using assms by (simp add: after_socket_call_def Let_def good_mw)
qed

lemma reply_good: "uses ops e \<Longrightarrow> good s \<Longrightarrow> good (snd (reply_to e c d s))"
  by (simp add: reply_to_def case_prod_beta after_socket_good send_reply_wf good_mw_wf)

lemma send_frame_good: "uses ops e \<Longrightarrow> good s \<Longrightarrow> good (snd (send_frame e c f p s))"
  by (simp add: send_frame_def case_prod_beta after_socket_good good_mw_wf
      send_binary_wf [OF _ surjective_pairing])

lemma good_unobserved:
  assumes "good s" "backend s' = backend s" "sess s' = sess s" "buf s' = buf s" "mw s' = mw s"
  shows "good s'"
  using assms by (simp add: server_inv_def ledger_ok_def)

lemma send_replays_good: "uses ops e \<Longrightarrow> good s \<Longrightarrow> good (send_replays e c fs s)"
  by (induction fs arbitrary: s) (simp_all add: send_frame_good)

end

section \<open>The loops of the handlers\<close>

lemma held_count_clear_absent:
  assumes "sessions_wf m" "t \<notin> set (get_ref_held_topics c m)"
  shows "held_count (fst (set_ref_held c t False m)) = held_count m"
proof (cases "map_of (sessions m) c")
  case None
  then show ?thesis by (simp add: set_ref_held_def with_session_def)
next
  case (Some s)
  then have "t \<notin> set (ref_held_topics s)" using assms(2) by (simp add: get_ref_held_topics_def)
  with held_count_with_session [OF sessions_wf_unique [OF assms(1)] Some,
      of "\<lambda>s. s\<lparr>ref_held_topics := remove1 t (ref_held_topics s)\<rparr>"]
  show ?thesis by (simp add: set_ref_held_def fun_eq_iff remove1_idem)
qed

text \<open>A change of the references of one session and of nothing else.\<close>

definition only_refs_of :: "string \<Rightarrow> session_manager \<Rightarrow> session_manager \<Rightarrow> bool" where
  "only_refs_of c m m' \<longleftrightarrow>
     (\<forall>c'. c' \<noteq> c \<longrightarrow> get_ref_held_topics c' m' = get_ref_held_topics c' m) \<and>
     (\<forall>c'. is_paused c' m' = is_paused c' m) \<and>
     (\<forall>c'. get_subscriptions c' m' = get_subscriptions c' m) \<and>
     (\<forall>c'. session_exists c' m' = session_exists c' m)"

lemma only_refs_of_trans: "only_refs_of c m1 m2 \<Longrightarrow> only_refs_of c m2 m3 \<Longrightarrow> only_refs_of c m1 m3"
  by (simp add: only_refs_of_def)

lemma only_refs_of_set: "only_refs_of c m (fst (set_ref_held c t b m))"
  by (simp add: only_refs_of_def session_simps)

lemma only_refs_ofD:
  assumes "only_refs_of c m m'"
  shows "c' \<noteq> c \<Longrightarrow> get_ref_held_topics c' m' = get_ref_held_topics c' m"
    and "is_paused c' m' = is_paused c' m"
    and "get_subscriptions c' m' = get_subscriptions c' m"
    and "session_exists c' m' = session_exists c' m"
  using assms by (simp_all add: only_refs_of_def)

text \<open>A change of one session's subscriptions, in which it gains a reference only where \<open>gain\<close>.\<close>

definition only_client :: "bool \<Rightarrow> string \<Rightarrow> session_manager \<Rightarrow> session_manager \<Rightarrow> bool" where
  "only_client gain c m m' \<longleftrightarrow>
     (\<forall>c'. c' \<noteq> c \<longrightarrow> get_ref_held_topics c' m' = get_ref_held_topics c' m \<and>
        get_subscriptions c' m' = get_subscriptions c' m) \<and>
     (\<forall>c'. is_paused c' m' = is_paused c' m) \<and>
     (\<forall>c'. session_exists c' m' = session_exists c' m) \<and>
     (\<not> gain \<longrightarrow> set (get_ref_held_topics c m') \<subseteq> set (get_ref_held_topics c m))"

lemma only_client_refl [simp]: "only_client gain c m m"
  by (simp add: only_client_def)

lemma only_client_trans:
  "only_client gain c m1 m2 \<Longrightarrow> only_client gain c m2 m3 \<Longrightarrow> only_client gain c m1 m3"
  by (auto simp: only_client_def)

lemma only_client_paused:
  assumes "only_client gain c m m'" "paused_hold_nothing m" "gain \<Longrightarrow> \<not> is_paused c m"
  shows "paused_hold_nothing m'"
  unfolding paused_hold_nothing_def
proof (intro allI impI)
  fix c'
  assume "is_paused c' m'"
  then have p: "is_paused c' m" using assms(1) by (simp add: only_client_def)
  then have "get_ref_held_topics c' m = []" using assms(2) by (simp add: paused_hold_nothing_def)
  with assms(1,3) p show "get_ref_held_topics c' m' = []"
    by (cases "c' = c"; cases gain) (auto simp: only_client_def)
qed

lemma only_refs_only_client: "only_refs_of c m m' \<Longrightarrow> only_client True c m m'"
  by (simp add: only_refs_of_def only_client_def)

lemma only_client_remove: "only_client False c m (fst (remove_subscription c t m))"
  by (auto simp: only_client_def session_simps dest: set_remove1_subset [THEN subsetD])

lemma only_client_add: "only_client False c m (fst (add_subscription c t r m))"
  by (simp add: only_client_def session_simps)

lemma parse_requested_rates:
  assumes "\<forall>(t, r) \<in> set m. case r of None \<Rightarrow> True | Some x \<Rightarrow> valid_rate x" and "unique_keys m"
  shows "unique_keys (parse_requested js m) \<and>
    (\<forall>(t, r) \<in> set (parse_requested js m). case r of None \<Rightarrow> True | Some x \<Rightarrow> valid_rate x)"
  using assms
proof (induction js arbitrary: m)
  case Nil
  then show ?case by simp
next
  case (Cons j js)
  show ?case
  proof (cases "parse_topic j")
    case None
    with Cons show ?thesis by simp
  next
    case (Some tr)
    obtain t r where tr: "tr = (t, r)" by (cases tr)
    have "case r of None \<Rightarrow> True | Some x \<Rightarrow> valid_rate x"
      using Some tr by (auto simp: parse_topic_def map_option_case split: option.splits)
    with Cons.prems have "\<forall>(t, r) \<in> set (AList.update t r m). case r of None \<Rightarrow> True | Some x \<Rightarrow> valid_rate x"
      by (auto simp: in_update_iff split: if_splits)
    with Cons.IH [OF this] Cons.prems(2) Some tr show ?thesis by simp
  qed
qed

lemma requested_rate_valid:
  "map_of (parse_requested js []) t = Some (Some r) \<Longrightarrow> valid_rate r"
  using parse_requested_rates [of "[]" js] by (fastforce dest: map_of_SomeD)

context server_backend
begin

lemma touch_good: "good s \<Longrightarrow> good (touch_session e c s)"
  by (auto simp: server_inv_def ledger_ok_def touch_session_def Let_def session_simps
      paused_hold_nothing_def create_session_wf update_heartbeat_wf)

lemma collect_ok:
  assumes "ok s" "0 < refs (backend s) t"
  shows "ok (snd (collect_latched_replay e c t s))"
  using ledger_okD [OF assms(1)] assms(2)
  by (intro ledger_okI) (auto simp: frame_simps set_latched_wf set_latched_topics)

lemma ok_sess:
  assumes "ok s" "held_count m = held_count (sess s)" "sessions_wf m"
  shows "ok (s\<lparr>sess := m\<rparr>)"
  using assms by (simp add: ledger_ok_def)

lemma release_ok:
  assumes "uses ops e" "ok s" "t \<in> set (get_ref_held_topics c (sess s))"
    and "held_count m = (held_count (sess s))(t := held_count (sess s) t - 1)" "sessions_wf m"
  shows "ok ((release_subscription_ref e t s)\<lparr>sess := m\<rparr>)"
proof -
  note g = ledger_okD [OF assms(2)]
  note r = release_refs [OF assms(1) g(1), of t]
  note b = release_buffer [OF assms(1) g(1) g(4) g(5), of t]
  have "refs (backend (release_subscription_ref e t s)) = held_count m"
    using r g(2) assms(4) by simp
  with r b g assms(5) show ?thesis by (intro ledger_okI) (simp_all add: frame_simps)
qed

lemma release_held_ok:
  assumes "uses ops e"
  shows "ok s \<Longrightarrow> distinct ts \<Longrightarrow> set ts \<subseteq> set (get_ref_held_topics c (sess s)) \<Longrightarrow>
    ok (release_held e c ts s) \<and>
    set (get_ref_held_topics c (sess (release_held e c ts s))) =
      set (get_ref_held_topics c (sess s)) - set ts \<and>
    only_refs_of c (sess s) (sess (release_held e c ts s))"
proof (induction ts arbitrary: s)
  case Nil
  then show ?case by (simp add: only_refs_of_def)
next
  case (Cons t ts)
  note g = ledger_okD [OF Cons.prems(1)]
  have t: "t \<in> set (get_ref_held_topics c (sess s))" using Cons.prems by simp
  define s2 where "s2 = (release_subscription_ref e t s)\<lparr>sess := fst (set_ref_held c t False (sess s))\<rparr>"
  have ok2: "ok s2"
    unfolding s2_def
    using release_ok [OF assms Cons.prems(1) t held_count_release [OF g(3) t]]
      set_ref_held_wf [OF g(3), of False t c] by simp
  have h: "set (get_ref_held_topics c (sess s2)) = set (get_ref_held_topics c (sess s)) - {t}"
    using session_wf_distinct_held [OF g(3), of c] t held_empty_no_session [of c "sess s"]
    by (auto simp: s2_def session_simps)
  have o: "only_refs_of c (sess s) (sess s2)" by (simp add: s2_def only_refs_of_set)
  have d: "distinct ts" "set ts \<subseteq> set (get_ref_held_topics c (sess s2))"
    using Cons.prems(2,3) h by auto
  have step: "release_held e c (t # ts) s = release_held e c ts s2"
    by (simp add: s2_def Let_def frame_simps)
  from Cons.IH [OF ok2 d] h o show ?case
    unfolding step by (auto intro: only_refs_of_trans)
qed

lemma acquire_ok:
  assumes "uses ops e" "ok s" "sm_subscribe (methods e) t ty (backend s) = (True, b)"
    and "held_count m = (held_count (sess s))(t := Suc (held_count (sess s) t))" "sessions_wf m"
  shows "ok (s\<lparr>backend := b, sess := m\<rparr>) \<and> 0 < refs b t"
proof -
  from assms(1) obtain g where g: "methods e = ops g" by (auto simp: uses_def)
  note s = ledger_okD [OF assms(2)]
  from subscribe_law [OF s(1), of g t ty True b] assms(3)
  have b: "inv b" "refs b = (refs (backend s))(t := Suc (refs (backend s) t))" by (simp_all add: g)
  have "\<forall>t' \<in> set (latched_topics (buf s)). 0 < refs b t'" using s(5) b(2) by simp
  with s b assms(4,5) show ?thesis by (intro conjI ledger_okI) simp_all
qed

lemma subscribe_failed:
  assumes "uses ops e" "ok s" "sm_subscribe (methods e) t ty (backend s) = (False, b)"
  shows "ok (s\<lparr>backend := b\<rparr>)"
proof -
  from assms(1) obtain g where g: "methods e = ops g" by (auto simp: uses_def)
  note s = ledger_okD [OF assms(2)]
  from subscribe_law [OF s(1), of g t ty False b] assms(3) have "inv b" "refs b = refs (backend s)"
    by (simp_all add: g)
  with s show ?thesis by (intro ledger_okI) simp_all
qed

lemma reacquire_ok:
  assumes "uses ops e"
  shows "ok s \<Longrightarrow> session_exists c (sess s) \<Longrightarrow> distinct ts \<Longrightarrow>
    (\<forall>t \<in> set ts. t \<notin> set held \<longrightarrow> t \<notin> set (get_ref_held_topics c (sess s))) \<Longrightarrow>
    set ts \<subseteq> set (keys (get_subscriptions c (sess s))) \<Longrightarrow>
    reacquire_loop e c held types ts failed s = (r, s') \<Longrightarrow>
    ok s' \<and> only_refs_of c (sess s) (sess s')"
proof (induction ts arbitrary: failed s)
  case Nil
  then show ?case by (simp add: only_refs_of_def)
next
  case (Cons t ts)
  note g = ledger_okD [OF Cons.prems(1)]
  show ?case
  proof (cases "t \<in> set held")
    case True
    with Cons show ?thesis by simp
  next
    case new: False
    show ?thesis
    proof (cases "map_of types t")
      case None
      with new Cons show ?thesis by simp
    next
      case (Some ty)
      obtain k b where sub: "sm_subscribe (methods e) t ty (backend s) = (k, b)"
        by (cases "sm_subscribe (methods e) t ty (backend s)")
      show ?thesis
      proof (cases k)
        case False
        have "ok (s\<lparr>backend := b\<rparr>)" using subscribe_failed [OF assms Cons.prems(1)] sub False by simp
        with Cons.IH [of "s\<lparr>backend := b\<rparr>" "failed @ [t]"] Cons.prems new Some sub False
        show ?thesis by simp
      next
        case True
        define s2 where "s2 = s\<lparr>backend := b, sess := fst (set_ref_held c t True (sess s))\<rparr>"
        have absent: "t \<notin> set (get_ref_held_topics c (sess s))" using Cons.prems(4) new by simp
        have 2: "ok s2 \<and> 0 < refs b t"
          unfolding s2_def using sub True Cons.prems(5)
          by (intro acquire_ok [OF assms Cons.prems(1)] held_count_acquire [OF g(3) Cons.prems(2) absent]
              set_ref_held_wf [OF g(3)]) auto
        have o: "only_refs_of c (sess s) (sess s2)" by (simp add: s2_def only_refs_of_set)
        obtain x s3 where x: "collect_latched_replay e c t s2 = (x, s3)"
          by (cases "collect_latched_replay e c t s2")
        then have s3: "s3 = snd (collect_latched_replay e c t s2)" by simp
        have ok3: "ok s3" unfolding s3 by (rule collect_ok) (use 2 in \<open>simp_all add: s2_def\<close>)
        have same3: "sess s3 = sess s2" by (simp add: s3 frame_simps)
        show ?thesis
        proof (cases x)
          case (Some ex)
          with Cons.prems(6) new \<open>map_of types t = _\<close> sub True x have "s' = s3"
            by (simp add: s2_def)
          with ok3 o same3 show ?thesis by simp
        next
          case None
          with Cons.prems(6) new \<open>map_of types t = _\<close> sub True x
          have rest: "reacquire_loop e c held types ts failed s3 = (r, s')" by (simp add: s2_def)
          have h: "set (get_ref_held_topics c (sess s3)) = insert t (set (get_ref_held_topics c (sess s)))"
            using Cons.prems(2) by (simp add: same3) (simp add: s2_def session_simps)
          have "ok s' \<and> only_refs_of c (sess s3) (sess s')"
            using Cons.prems(2-5) h
            by (intro Cons.IH [OF ok3 _ _ _ _ rest])
              (auto simp: same3 only_refs_ofD [OF o])
          with o same3 show ?thesis by (auto intro: only_refs_of_trans)
        qed
      qed
    qed
  qed
qed

lemma unsubscribe_loop_ok:
  assumes "uses ops e"
  shows "ok s \<Longrightarrow> distinct current \<Longrightarrow>
    (\<forall>t \<in> set current. t \<in> set held \<longleftrightarrow> t \<in> set (get_ref_held_topics c (sess s))) \<Longrightarrow>
    unsubscribe_loop e c held js current removed s = (r, s') \<Longrightarrow>
    ok s' \<and> only_client False c (sess s) (sess s')"
proof (induction js arbitrary: current removed s)
  case Nil
  then show ?case by simp
next
  case (Cons j js)
  note g = ledger_okD [OF Cons.prems(1)]
  show ?case
  proof (cases "\<exists>t. item_name j = Some t \<and> t \<in> set current")
    case False
    with Cons show ?thesis by (auto split: option.splits)
  next
    case True
    then obtain t where t: "item_name j = Some t" "t \<in> set current" by blast
    let ?m = "fst (remove_subscription c t (sess s))"
    define s2 where "s2 = (if t \<in> set held then release_subscription_ref e t s else s)\<lparr>sess := ?m\<rparr>"
    have iff: "t \<in> set held \<longleftrightarrow> t \<in> set (get_ref_held_topics c (sess s))" using Cons.prems(3) t(2) by simp
    have ok2: "ok s2"
    proof (cases "t \<in> set held")
      case True
      with iff release_ok [OF assms Cons.prems(1), of t c ?m] held_count_remove_subscription [OF g(3), of c t]
      show ?thesis by (simp add: s2_def remove_subscription_wf [OF g(3)])
    next
      case False
      with iff held_count_remove_subscription [OF g(3), of c t] show ?thesis
        unfolding s2_def by (simp add: ok_sess [OF Cons.prems(1)] remove_subscription_wf [OF g(3)] fun_eq_iff)
    qed
    have m: "sess s2 = ?m" by (simp add: s2_def)
    have rest: "unsubscribe_loop e c held js (remove1 t current) (removed @ [t]) s2 = (r, s')"
      using Cons.prems(4) t by (auto simp: s2_def Let_def frame_simps split: if_splits)
    have "ok s' \<and> only_client False c (sess s2) (sess s')"
      using Cons.prems(2,3) session_wf_distinct_held [OF g(3), of c]
      by (intro Cons.IH [OF ok2 _ _ rest]) (auto simp: m session_simps)
    then show ?thesis
      using only_client_remove [of c "sess s" t] m by (auto intro: only_client_trans)
  qed
qed

lemma acquire_loop_ok:
  assumes "uses ops e" and rates: "\<And>t r. map_of requested t = Some (Some r) \<Longrightarrow> valid_rate r"
  shows "ok s \<Longrightarrow> p = is_paused c (sess s) \<Longrightarrow> distinct (map fst xs) \<Longrightarrow>
    (\<forall>t \<in> set (map fst xs). t \<notin> set (keys (get_subscriptions c (sess s)))) \<Longrightarrow>
    acquire_loop e c p requested xs schemas failures s = (r, s') \<Longrightarrow>
    ok s' \<and> only_client (\<not> p) c (sess s) (sess s')"
proof (induction xs arbitrary: schemas failures s)
  case Nil
  then show ?case by simp
next
  case (Cons x xs)
  obtain t ty schema where x: "x = (t, ty, schema)" by (cases x)
  note g = ledger_okD [OF Cons.prems(1)]
  have absent: "t \<notin> set (get_ref_held_topics c (sess s))"
    using Cons.prems(4) held_subset_subscribed [OF g(3), of c] by (auto simp: x)
  define rate where "rate = (case map_of requested t of Some (Some r) \<Rightarrow> r | _ \<Rightarrow> 0)"
  have rate: "valid_rate rate" using rates by (auto simp: rate_def split: option.splits)
  obtain k b where sub: "(if \<not> p then sm_subscribe (methods e) t ty (backend s) else (True, backend s)) = (k, b)"
    by (cases "if \<not> p then sm_subscribe (methods e) t ty (backend s) else (True, backend s)")
  let ?add = "fst (add_subscription c t rate (sess s))"
  consider (failed) "\<not> k" | (gone) "k" "\<not> session_exists c (sess s)" | (added) "k" "session_exists c (sess s)"
    by blast
  then show ?case
  proof cases
    case failed
    then have "ok (s\<lparr>backend := b\<rparr>)"
      using subscribe_failed [OF assms(1) Cons.prems(1)] sub by (auto split: if_splits)
    moreover have "acquire_loop e c p requested xs schemas
        (failures @ [failure_entry t ''Subscription manager failed to create subscription''])
        (s\<lparr>backend := b\<rparr>) = (r, s')"
      using Cons.prems(5) failed sub by (simp add: x Let_def)
    ultimately show ?thesis using Cons.IH [of "s\<lparr>backend := b\<rparr>"] Cons.prems(2-4) by simp
  next
    case gone
    then have np: "\<not> p" using Cons.prems(2) by (auto simp: is_paused_def session_exists_def)
    from assms(1) obtain v where v: "methods e = ops v" by (auto simp: uses_def)
    have b: "inv b" "refs b = (refs (backend s))(t := Suc (refs (backend s) t))"
      using subscribe_law [OF g(1), of v t ty True b] sub gone np by (simp_all add: v)
    define s1 where "s1 = release_subscription_ref e t (s\<lparr>backend := b\<rparr>)"
    have l: "\<forall>t \<in> set (latched_topics (buf (s\<lparr>backend := b\<rparr>))). 0 < refs (backend (s\<lparr>backend := b\<rparr>)) t"
      using g(5) b(2) by simp
    have r: "inv (backend s1)" "refs (backend s1) = refs (backend s)"
      using release_refs [OF assms(1), of "s\<lparr>backend := b\<rparr>" t] b by (simp_all add: s1_def)
    have "buffer_wf (buf s1) \<and> (\<forall>t \<in> set (latched_topics (buf s1)). 0 < refs (backend s1) t)"
      unfolding s1_def using l g(4) b(1) by (intro release_buffer [OF assms(1)]) simp_all
    then have "ok s1" using g r by (intro ledger_okI) (simp_all add: s1_def frame_simps)
    moreover have same: "sess s1 = sess s" by (simp add: s1_def frame_simps)
    moreover have "acquire_loop e c p requested xs schemas failures s1 = (r, s')"
      using Cons.prems(5) gone np sub
      by (simp add: x Let_def case_prod_beta success_after s1_def)
    ultimately show ?thesis using Cons.IH [of s1] Cons.prems(2-4) by simp
  next
    case added
    define s2 where "s2 = s\<lparr>backend := b, sess := fst (set_ref_held c t (\<not> p) ?add)\<rparr>"
    have addwf: "sessions_wf ?add" using g(3) rate by (rule add_subscription_wf)
    have subbed: "t \<in> set (keys (get_subscriptions c ?add))" using added by (simp add: session_simps)
    have m2: "sess s2 = fst (set_ref_held c t (\<not> p) ?add)" by (simp add: s2_def)
    have ok2: "ok s2 \<and> (\<not> p \<longrightarrow> 0 < refs b t)"
    proof (cases p)
      case True
      then have "b = backend s" using sub by simp
      moreover have "held_count (sess s2) = held_count (sess s)"
        using True absent held_count_clear_absent [OF addwf, of t c] held_count_unchanged(2) [OF g(3)]
        by (simp add: m2 session_simps)
      ultimately show ?thesis
        using True ok_sess [OF Cons.prems(1), of "sess s2"] set_ref_held_wf [OF addwf, of False t c]
        by (simp add: s2_def)
    next
      case False
      have "held_count (fst (set_ref_held c t True ?add)) = (held_count (sess s))(t := Suc (held_count (sess s) t))"
        using held_count_acquire [OF addwf, of c t] added absent held_count_unchanged(2) [OF g(3)]
        by (simp add: session_simps)
      with False show ?thesis
        unfolding s2_def using sub added subbed set_ref_held_wf [OF addwf, of True t c]
          acquire_ok [OF assms(1) Cons.prems(1), of t ty b "fst (set_ref_held c t True ?add)"]
        by simp
    qed
    have o: "only_client (\<not> p) c (sess s) (sess s2)"
      using absent by (auto simp: only_client_def m2 session_simps remove1_idem)
    define s3 where "s3 = (if p then s2 else snd (collect_latched_replay e c t s2))"
    have ok3: "ok s3"
      using ok2 by (auto simp: s3_def intro!: collect_ok) (simp add: s2_def)
    have same3: "sess s3 = sess s2" by (simp add: s3_def frame_simps)
    have rest: "(\<exists>schemas'. acquire_loop e c p requested xs schemas' failures s3 = (r, s')) \<or> s' = s3"
      using Cons.prems(5) added sub
      by (auto simp: x Let_def case_prod_beta success_after rate_def [symmetric] s2_def s3_def
          split: if_splits prod.splits option.splits)
    have subs3: "set (keys (get_subscriptions c (sess s3))) = insert t (set (keys (get_subscriptions c (sess s))))"
      using added by (simp add: same3 m2 session_simps)
    from rest show ?thesis
    proof
      assume "s' = s3"
      with ok3 o same3 show ?thesis by simp
    next
      assume "\<exists>schemas'. acquire_loop e c p requested xs schemas' failures s3 = (r, s')"
      then obtain schemas' where rest: "acquire_loop e c p requested xs schemas' failures s3 = (r, s')" ..
      have "p = is_paused c (sess s3)" using Cons.prems(2) o same3 by (simp add: only_client_def)
      moreover have "distinct (map fst xs)" using Cons.prems(3) by (simp add: x)
      moreover have "\<forall>t \<in> set (map fst xs). t \<notin> set (keys (get_subscriptions c (sess s3)))"
        unfolding subs3 using Cons.prems(3,4) unfolding x by (simp add: image_iff) blast
      ultimately have "ok s' \<and> only_client (\<not> p) c (sess s3) (sess s')"
        using Cons.IH [OF ok3 _ _ _ rest] by blast
      with o same3 show ?thesis by (auto intro: only_client_trans)
    qed
  qed
qed

end

section \<open>The handlers keep the invariant\<close>

lemma validate_topics_names:
  "set (map fst (fst (validate_topics e w types ts))) \<subseteq> set ts \<and>
   (distinct ts \<longrightarrow> distinct (map fst (fst (validate_topics e w types ts))))"
proof (induction ts)
  case Nil
  then show ?case by simp
next
  case (Cons t ts)
  obtain xs bad where v: "validate_topics e w types ts = (xs, bad)"
    by (cases "validate_topics e w types ts")
  with Cons show ?case by (cases "validate_topic e w types t") auto
qed

lemma update_rates_ok:
  assumes "\<forall>(t, r) \<in> set xs. case r of None \<Rightarrow> True | Some x \<Rightarrow> valid_rate x"
  shows "sessions_wf m \<Longrightarrow> sessions_wf (update_rates c subs xs m) \<and>
    held_count (update_rates c subs xs m) = held_count m \<and>
    only_client False c m (update_rates c subs xs m)"
  using assms
proof (induction xs arbitrary: m)
  case Nil
  then show ?case by simp
next
  case (Cons x xs)
  obtain t r where x: "x = (t, r)" by (cases x)
  show ?case
  proof (cases "\<exists>y. r = Some y \<and> map_of subs t \<noteq> None")
    case False
    then have "update_rates c subs (x # xs) m = update_rates c subs xs m"
      by (auto simp: x split: option.splits)
    with Cons show ?thesis by simp
  next
    case True
    then obtain y where y: "r = Some y" "map_of subs t \<noteq> None" by blast
    then have step: "update_rates c subs (x # xs) m = update_rates c subs xs (fst (add_subscription c t y m))"
      by (simp add: x)
    have v: "valid_rate y" using Cons.prems(2) by (simp add: x y)
    have "sessions_wf (fst (add_subscription c t y m))" using Cons.prems(1) v by (rule add_subscription_wf)
    from Cons.IH [OF this] Cons.prems(2) held_count_unchanged(2) [OF Cons.prems(1)]
    show ?thesis unfolding step by (auto intro: only_client_trans [OF only_client_add])
  qed
qed

lemma client_closed_sess:
  "sess (client_closed e c s) = sess s \<or> sess (client_closed e c s) = fst (remove_session c (sess s))"
  by (simp add: client_closed_def Let_def frame_simps)

text \<open>A session that survives the wait for the lock is unchanged.\<close>

lemma lock_cleanup_sess:
  "(session_exists c (sess (lock_cleanup e s)) \<longrightarrow> session_exists c (sess s) \<and>
      get_subscriptions c (sess (lock_cleanup e s)) = get_subscriptions c (sess s) \<and>
      get_ref_held_topics c (sess (lock_cleanup e s)) = get_ref_held_topics c (sess s) \<and>
      is_paused c (sess (lock_cleanup e s)) = is_paused c (sess s))"
proof -
  have "session_exists c (sess (fold (client_closed e) cs s)) \<longrightarrow> session_exists c (sess s) \<and>
      get_subscriptions c (sess (fold (client_closed e) cs s)) = get_subscriptions c (sess s) \<and>
      get_ref_held_topics c (sess (fold (client_closed e) cs s)) = get_ref_held_topics c (sess s) \<and>
      is_paused c (sess (fold (client_closed e) cs s)) = is_paused c (sess s)" for cs
  proof (induction cs arbitrary: s)
    case Nil
    then show ?case by simp
  next
    case (Cons d cs)
    from Cons.IH [of "client_closed e d s"] client_closed_sess [of e d s] show ?case
      by (cases "d = c") (auto simp: session_simps session_exists_after)
  qed
  then show ?thesis by (simp add: lock_cleanup_def)
qed

lemma no_session_no_subscription: "\<not> session_exists c m \<Longrightarrow> get_subscriptions c m = []"
  by (auto simp: session_query_defs)

lemma lock_cleanup_subscriptions:
  "set (keys (get_subscriptions c (sess (lock_cleanup e s)))) \<subseteq> set (keys (get_subscriptions c (sess s)))"
  using lock_cleanup_sess [of c e s] no_session_no_subscription [of c "sess (lock_cleanup e s)"]
  by (cases "session_exists c (sess (lock_cleanup e s))") auto

lemma respond_state [simp]: "snd (respond e j s) = s"
  by (simp add: respond_def split: option.splits)

lemma create_error_state [simp]: "snd (create_error_response e code msg req s) = s"
  by (simp add: create_error_response_def)

context server_backend
begin

lemma good_change:
  assumes "good s" "ok s'" "only_client gain c (sess s) (sess s')" "gain \<Longrightarrow> \<not> is_paused c (sess s)"
  shows "good s'"
  using assms only_client_paused [OF assms(3)] by (simp add: server_inv_def)

lemma good_ok: "good s \<Longrightarrow> ok s"
  by (simp add: server_inv_def)

lemma ready_handlers_good:
  assumes "uses ops e" "good s"
  shows "good (snd (handle_get_topics e c req s))" and "good (snd (handle_heartbeat e c req s))"
    and "good (snd (handle_subscribe_topic_updates e c req s))"
    and "good (snd (handle_unsubscribe_topic_updates e c req s))"
proof -
  have t: "good (touch_session e c s)" using assms(2) by (rule touch_good)
  then show "good (snd (handle_get_topics e c req s))" "good (snd (handle_heartbeat e c req s))"
    by (simp_all add: handle_get_topics_def handle_heartbeat_def Let_def)
  from t have wf: "sessions_wf (sess (touch_session e c s))" by (simp add: server_inv_def ledger_ok_def)
  from t wf show "good (snd (handle_subscribe_topic_updates e c req s))"
      "good (snd (handle_unsubscribe_topic_updates e c req s))"
    by (auto simp: handle_subscribe_topic_updates_def handle_unsubscribe_topic_updates_def Let_def
        server_inv_def ledger_ok_def paused_hold_nothing_def session_simps set_topic_updates_wf
        set_include_schemas_wf)
qed

lemma handle_subscribe_good:
  assumes "uses ops e" "good s0"
  shows "good (snd (handle_subscribe e c req s0))"
proof (cases "Option.bind (jfind req ''topics'') jarray")
  case None
  then have "snd (handle_subscribe e c req s0) = touch_session e c s0"
    by (auto simp: handle_subscribe_def Let_def bind_eq_None_conv split: option.splits)
  then show ?thesis using touch_good [OF assms(2)] by simp
next
  case (Some items)
  define s where "s = touch_session e c s0"
  define subs where "subs = get_subscriptions c (sess s)"
  define requested where "requested = parse_requested items []"
  define names where "names = filter (\<lambda>t. map_of subs t = None) (keys (entries (order e) requested))"
  obtain valid failures where v:
    "validate_topics e (whitelist s) (assign_all [] (source_topics e)) names = (valid, failures)"
    by fastforce
  define s1 where "s1 = lock_cleanup e s"
  define p where "p = is_paused c (sess s1)"
  obtain r s2 where a: "acquire_loop e c p requested valid [] failures s1 = (r, s2)" by fastforce
  have uniq: "unique_keys requested"
    unfolding requested_def using parse_requested_rates [of "[]" items] by simp
  have names: "distinct names" "set names \<inter> set (keys subs) = {}"
    using uniq by (auto simp: names_def distinct_entries map_of_eq_None_iff)
  have valid: "distinct (map fst valid)" "set (map fst valid) \<subseteq> set names"
    using validate_topics_names [of e "whitelist s" "assign_all [] (source_topics e)" names] names(1) v
    by simp_all
  have g1: "good s1"
    unfolding s1_def s_def by (intro lock_cleanup_good assms(1) touch_good assms(2))
  have "\<forall>t \<in> set (map fst valid). t \<notin> set (keys (get_subscriptions c (sess s1)))"
    using valid(2) names(2) lock_cleanup_subscriptions [of c e s] unfolding s1_def subs_def by blast
  then have 2: "ok s2 \<and> only_client (\<not> p) c (sess s1) (sess s2)"
    using requested_rate_valid unfolding requested_def
    by (intro acquire_loop_ok [OF assms(1) _ good_ok [OF g1] p_def valid(1) _ a [unfolded requested_def]])
  then have g2: "good s2" using g1 by (intro good_change [of s1 s2 "\<not> p" c]) (simp_all add: p_def)
  let ?m = "update_rates c subs (entries (order e) requested) (sess s2)"
  have "\<forall>(t, r) \<in> set (entries (order e) requested). case r of None \<Rightarrow> True | Some x \<Rightarrow> valid_rate x"
    using requested_rate_valid unfolding requested_def
    by (auto simp: in_entries_iff split: option.splits)
  from update_rates_ok [OF this ledger_okD(3) [OF good_ok [OF g2]], of c subs]
  have "ok (s2\<lparr>sess := ?m\<rparr>)" "only_client False c (sess s2) ?m"
    using ok_sess [OF good_ok [OF g2]] by simp_all
  then have "good (s2\<lparr>sess := ?m\<rparr>)" using good_change [OF g2, of "s2\<lparr>sess := ?m\<rparr>" False c] by simp
  then show ?thesis
    using g2 Some a v
    by (cases r) (auto simp: handle_subscribe_def Let_def s_def [symmetric] subs_def [symmetric]
        requested_def [symmetric] names_def [symmetric] s1_def [symmetric] p_def [symmetric]
        bind_eq_Some_conv)
qed

lemma handle_unsubscribe_good:
  assumes "uses ops e" "good s0"
  shows "good (snd (handle_unsubscribe e c req s0))"
proof (cases "Option.bind (jfind req ''topics'') jarray")
  case None
  then show ?thesis using touch_good [OF assms(2)] by (simp add: handle_unsubscribe_def Let_def)
next
  case (Some items)
  define s1 where "s1 = lock_cleanup e (touch_session e c s0)"
  have g1: "good s1" unfolding s1_def by (intro lock_cleanup_good assms(1) touch_good assms(2))
  obtain r s2 where u: "unsubscribe_loop e c (get_ref_held_topics c (sess s1)) items
      (keys (get_subscriptions c (sess s1))) [] s1 = (r, s2)" by fastforce
  have "ok s2 \<and> only_client False c (sess s1) (sess s2)"
    using ledger_okD(3) [OF good_ok [OF g1]]
    by (intro unsubscribe_loop_ok [OF assms(1) good_ok [OF g1] _ _ u]) simp_all
  then have "good s2" using good_change [OF g1, of s2 False c] by simp
  with Some u show ?thesis by (simp add: handle_unsubscribe_def Let_def s1_def [symmetric])
qed

lemma handle_pause_good:
  assumes "uses ops e" "good s0"
  shows "good (snd (handle_pause e c req s0))"
proof -
  define s1 where "s1 = lock_cleanup e (touch_session e c s0)"
  have g1: "good s1" unfolding s1_def by (intro lock_cleanup_good assms(1) touch_good assms(2))
  note g = ledger_okD [OF good_ok [OF g1]]
  show ?thesis
  proof (cases "is_paused c (sess s1)")
    case True
    with g1 show ?thesis by (simp add: handle_pause_def Let_def s1_def [symmetric])
  next
    case False
    define s2 where "s2 = s1\<lparr>sess := fst (set_paused c True (sess s1))\<rparr>"
    have ok2: "ok s2"
      unfolding s2_def using held_count_unchanged [OF g(3)] set_paused_wf [OF g(3)]
      by (intro ok_sess [OF good_ok [OF g1]]) (simp_all add: session_simps)
    define ts where "ts = visit (order e) (get_ref_held_topics c (sess s2))"
    have "distinct ts" "set ts \<subseteq> set (get_ref_held_topics c (sess s2))"
      using session_wf_distinct_held [OF ledger_okD(3) [OF ok2]] by (simp_all add: ts_def)
    from release_held_ok [OF assms(1) ok2 this]
    have 3: "ok (release_held e c ts s2)" "get_ref_held_topics c (sess (release_held e c ts s2)) = []"
        "only_refs_of c (sess s2) (sess (release_held e c ts s2))"
      by (simp_all add: ts_def)
    have "paused_hold_nothing (sess (release_held e c ts s2))"
      unfolding paused_hold_nothing_def
    proof (intro allI impI)
      fix c'
      assume p: "is_paused c' (sess (release_held e c ts s2))"
      show "get_ref_held_topics c' (sess (release_held e c ts s2)) = []"
      proof (cases "c' = c")
        case True
        with 3(2) show ?thesis by simp
      next
        case False
        with p have "is_paused c' (sess s1)" using 3(3) by (simp add: only_refs_of_def s2_def session_simps)
        with False show ?thesis
          using g1 3(3) by (simp add: only_refs_of_def s2_def session_simps server_inv_def paused_hold_nothing_def)
      qed
    qed
    with 3(1) have "good (release_held e c ts s2)" by (simp add: server_inv_def)
    with False show ?thesis
      by (simp add: handle_pause_def Let_def s1_def [symmetric] s2_def [symmetric] ts_def)
  qed
qed

lemma handle_resume_good:
  assumes "uses ops e" "good s0"
  shows "good (snd (handle_resume e c req s0))"
proof -
  define s1 where "s1 = lock_cleanup e (touch_session e c s0)"
  have g1: "good s1" unfolding s1_def by (intro lock_cleanup_good assms(1) touch_good assms(2))
  note g = ledger_okD [OF good_ok [OF g1]]
  show ?thesis
  proof (cases "is_paused c (sess s1)")
    case False
    with g1 show ?thesis by (simp add: handle_resume_def Let_def s1_def [symmetric])
  next
    case True
    then have ex: "session_exists c (sess s1)" by (auto simp: session_query_defs split: option.splits)
    define s2 where "s2 = s1\<lparr>sess := fst (set_paused c False (sess s1))\<rparr>"
    have ok2: "ok s2"
      unfolding s2_def using held_count_unchanged [OF g(3)] set_paused_wf [OF g(3)]
      by (intro ok_sess [OF good_ok [OF g1]]) (simp_all add: session_simps)
    define held where "held = get_ref_held_topics c (sess s2)"
    define ts where "ts = keys (entries (order e) (get_subscriptions c (sess s2)))"
    obtain r s3 where l: "reacquire_loop e c held (assign_all [] (source_topics e)) ts [] s2 = (r, s3)"
      by fastforce
    have "session_exists c (sess s2)" using ex by (simp add: s2_def session_simps)
    moreover have "distinct ts" "set ts \<subseteq> set (keys (get_subscriptions c (sess s2)))"
      using ledger_okD(3) [OF ok2] by (simp_all add: ts_def map_fst_entries)
    ultimately have 3: "ok s3 \<and> only_refs_of c (sess s2) (sess s3)"
      by (intro reacquire_ok [OF assms(1) ok2 _ _ _ _ l]) (simp_all add: held_def)
    have unp: "\<not> is_paused c (sess s2)" using ex by (simp add: s2_def session_simps)
    have "paused_hold_nothing (sess s2)"
      using g1 by (auto simp: server_inv_def paused_hold_nothing_def s2_def session_simps split: if_splits)
    then have "good s2" using ok2 by (simp add: server_inv_def)
    then have "good s3"
      using 3 unp by (intro good_change [of s2 s3 True c]) (simp_all add: only_refs_only_client)
    with True l show ?thesis
      by (cases r) (simp_all add: handle_resume_def Let_def s1_def [symmetric] s2_def [symmetric]
          held_def [symmetric] ts_def [symmetric])
  qed
qed

lemma dispatch_good:
  assumes "uses ops e" "good s"
  shows "good (snd (dispatch e c req s))"
  using assms ready_handlers_good [OF assms] handle_subscribe_good [OF assms]
    handle_unsubscribe_good [OF assms] handle_pause_good [OF assms] handle_resume_good [OF assms]
  by (simp add: dispatch_def split: option.splits)

lemma handle_request_good:
  assumes "uses ops e" "good s"
  shows "good (snd (handle_request e c d s))"
  using dispatch_good [OF assms] assms(2)
  by (cases "json_parse e d") (auto simp: handle_request_def Let_def case_prod_beta
      split: sum.splits exn.splits)

lemma process_single_good:
  assumes "uses ops e" "good s"
  shows "good (snd (process_single_request e d c s))"
proof (cases "c = []")
  case True
  with assms show ?thesis by (simp add: process_single_request_def)
next
  case False
  obtain r s1 where h: "handle_request e c d s = (r, s1)" by fastforce
  have g1: "good s1" using handle_request_good [OF assms, of c d] by (simp add: h)
  show ?thesis
  proof (cases r)
    case None
    with g1 False show ?thesis by (simp add: process_single_request_def h)
  next
    case (Some response)
    obtain k s2 where rep: "reply_to e c (string_bytes response) s1 = (k, s2)" by fastforce
    have g2: "good s2" using reply_good [OF assms(1) g1, of c "string_bytes response"] by (simp add: rep)
    have "good (s2\<lparr>pending_replays := x\<rparr>)" for x using g2 by (rule good_unobserved) simp_all
    with g2 False Some show ?thesis
      by (simp add: process_single_request_def h rep Let_def cleanup_good [OF assms(1)]
          send_replays_good [OF assms(1)])
  qed
qed

lemma request_loop_good:
  "\<forall>i. uses ops (envs i) \<Longrightarrow> good s \<Longrightarrow> good (snd (request_loop n envs any s))"
proof (induction n arbitrary: envs any s)
  case 0
  then show ?case by simp
next
  case (Suc n)
  obtain q m where r: "receive_request (mw s) = (q, m)" by fastforce
  have gm: "good (s\<lparr>mw := m\<rparr>)"
    using good_mw [OF Suc.prems(2)] receive_request_wf [OF good_mw_wf [OF Suc.prems(2)]] by (simp add: r)
  show ?case
  proof (cases q)
    case None
    with gm r show ?thesis by simp
  next
    case (Some cd)
    obtain c d where cd: "cd = (c, d)" by (cases cd)
    obtain k s1 where p: "process_single_request (envs 0) d c (s\<lparr>mw := m\<rparr>) = (k, s1)" by fastforce
    have "good s1" using process_single_good [OF _ gm, of "envs 0" d c] Suc.prems(1) by (simp add: p)
    with gm r Some cd p Suc show ?thesis by (simp split: bool.splits)
  qed
qed

lemma process_requests_good:
  "\<forall>i. uses ops (envs i) \<Longrightarrow> good s \<Longrightarrow> good (snd (process_requests envs s))"
  by (simp add: process_requests_def request_loop_good)

lemma timeouts_good:
  assumes "uses ops e" "good s"
  shows "good (check_session_timeouts e s)"
proof -
  have "good s \<Longrightarrow> good (fold (cleanup_session e) cs s)" for cs s
    by (induction cs arbitrary: s) (simp_all add: cleanup_good [OF assms(1)])
  with assms(2) show ?thesis by (simp add: check_session_timeouts_def)
qed

lemma notify_good:
  "uses ops e \<Longrightarrow> good s \<Longrightarrow> good (snd (notify_clients e cs plain ws built s))"
  by (induction e cs plain ws built s rule: notify_clients.induct) (auto simp: reply_good split: option.splits)

lemma topic_changes_good:
  assumes "uses ops e" "good s"
  shows "good (snd (check_topic_changes e s))"
proof -
  have "good (s\<lparr>known_topics := k\<rparr>)" "good (s\<lparr>known_topics := k, topics_snapshot_taken := b\<rparr>)" for k b
    by (rule good_unobserved [OF assms(2)]; simp)+
  with assms show ?thesis
    by (simp add: check_topic_changes_def Let_def notify_good split: option.splits)
qed

lemma ingest_good: "good s \<Longrightarrow> good (on_ingest n1 n2 t ts d s)"
  by (simp add: server_inv_def ledger_ok_def on_ingest_def add_message_wf)

lemma snapshot_good: "good s \<Longrightarrow> good (snd (snapshot_and_reset_stats s))"
  by (erule good_unobserved) (simp_all add: snapshot_and_reset_stats_def)

lemma send_to_clients_good:
  "uses ops e \<Longrightarrow> good s \<Longrightarrow> good (snd (send_to_clients e ps f cs any s))"
proof (induction e ps f cs any s rule: send_to_clients.induct)
  case (2 e ps f c cs any s)
  then show ?case
    using send_frame_good [of e s c "compressed_data f" "if is_heavy f then KHeavy else KNormal"]
    by (auto simp: Let_def split: prod.splits)
qed simp

lemma send_frames_good: "uses ops e \<Longrightarrow> good s \<Longrightarrow> good (snd (send_frames e ps fs tot s))"
proof (induction fs arbitrary: tot s)
  case (Cons f fs)
  then show ?case
    using send_to_clients_good [of e s ps f "client_ids f" False] by (simp add: case_prod_beta Let_def)
qed simp

lemma publish_good:
  assumes "uses ops e" "good s"
  shows "good (publish_aggregated_messages e s)"
proof -
  have times: "good x \<Longrightarrow> good (x\<lparr>last_sent_times := l\<rparr>)" for x l
    by (erule good_unobserved) simp_all
  have stats: "good x \<Longrightarrow> good (add_stats tot x)" for x tot
    by (erule good_unobserved) (simp_all add: add_stats_def)
  obtain messages b where m: "move_messages (buf s) = (messages, b)" by fastforce
  have g1: "good (s\<lparr>buf := b\<rparr>)"
    using assms(2) m move_messages_wf [of "buf s"] latched_topics_after(2) [of "buf s"]
    by (simp add: server_inv_def ledger_ok_def)
  note g2 = lock_cleanup_good [OF assms(1) g1]
  show ?thesis
    using g1 g2 assms
    by (simp add: publish_aggregated_messages_def m Let_def case_prod_beta times stats
        send_frames_good split: option.splits prod.splits)
qed

end

end
