(* ===== verification/Message_Stripper.thy ===== *)
theory Message_Stripper
  imports Double_Arith
begin

text \<open>
  \<^verbatim>\<open>MessageStripper\<close> (\<^verbatim>\<open>message_stripper.cpp\<close>): the large array fields of five message types
  are replaced by arrays of one zero. The serialization library of ROS is a parameter; a message
  is represented by the values of its top-level fields, in their order.
\<close>

section \<open>Messages and their serialization\<close>

datatype ros_value = Byte_Sequence bytes | Float_Sequence "rat list" | Other_Value bytes

type_synonym ros_message = "(string \<times> ros_value) list"

text \<open>\<^verbatim>\<open>rclcpp::Serialization<MsgT>\<close> for the type of a given name; \<open>Inl\<close> is an exception.\<close>

record ros_serialization =
  ros_deserialize :: "string \<Rightarrow> bytes \<Rightarrow> string + ros_message"
  ros_serialize :: "string \<Rightarrow> ros_message \<Rightarrow> string + bytes"

definition strip_and_reserialize ::
    "ros_serialization \<Rightarrow> string \<Rightarrow> bytes \<Rightarrow> (ros_message \<Rightarrow> ros_message) \<Rightarrow> string + bytes" where
  "strip_and_reserialize lib message_type input strip_fn =
     (case ros_deserialize lib message_type input of
        Inl what \<Rightarrow> Inl what
      | Inr msg \<Rightarrow> ros_serialize lib message_type (strip_fn msg))"

text \<open>The assignment to a member.\<close>

definition assign_field :: "string \<Rightarrow> ros_value \<Rightarrow> ros_message \<Rightarrow> ros_message" where
  "assign_field f v msg = map (\<lambda>(k, x). (k, if k = f then v else x)) msg"

section \<open>Stripping\<close>

definition kStrippableTypes :: "string list" where
  "kStrippableTypes =
     [''sensor_msgs/msg/Image'', ''sensor_msgs/msg/CompressedImage'',
      ''sensor_msgs/msg/PointCloud2'', ''sensor_msgs/msg/LaserScan'',
      ''nav_msgs/msg/OccupancyGrid'']"

definition should_strip :: "string \<Rightarrow> bool" where
  "should_strip message_type = (message_type \<in> set kStrippableTypes)"

definition strip_message :: "ros_serialization \<Rightarrow> string \<Rightarrow> bytes \<Rightarrow> string + bytes" where
  "strip_message lib message_type input =
     (if message_type = ''sensor_msgs/msg/Image''
      then strip_and_reserialize lib message_type input (assign_field ''data'' (Byte_Sequence [0]))
      else if message_type = ''sensor_msgs/msg/CompressedImage''
      then strip_and_reserialize lib message_type input (assign_field ''data'' (Byte_Sequence [0]))
      else if message_type = ''sensor_msgs/msg/PointCloud2''
      then strip_and_reserialize lib message_type input (assign_field ''data'' (Byte_Sequence [0]))
      else if message_type = ''sensor_msgs/msg/LaserScan''
      then strip_and_reserialize lib message_type input
             (assign_field ''intensities'' (Float_Sequence [0]) \<circ> assign_field ''ranges'' (Float_Sequence [0]))
      else if message_type = ''nav_msgs/msg/OccupancyGrid''
      then strip_and_reserialize lib message_type input (assign_field ''data'' (Byte_Sequence [0]))
      else Inl (''strip() not implemented for type: '' @ message_type))"

section \<open>What stripping does to a message\<close>

text \<open>The specification: the fields that are emptied, and what is left of a field.\<close>

definition large_fields :: "string \<Rightarrow> string list" where
  "large_fields message_type =
     (if message_type = ''sensor_msgs/msg/LaserScan'' then [''ranges'', ''intensities''] else [''data''])"

definition emptied :: "string \<Rightarrow> ros_value" where
  "emptied message_type =
     (if message_type = ''sensor_msgs/msg/LaserScan'' then Float_Sequence [0] else Byte_Sequence [0])"

definition without_large_fields :: "string \<Rightarrow> ros_message \<Rightarrow> ros_message" where
  "without_large_fields message_type msg =
     map (\<lambda>(k, x). (k, if k \<in> set (large_fields message_type) then emptied message_type else x)) msg"

text \<open>Every type that is selected for stripping is one that can be stripped.\<close>

lemma assign_data:
  "ty \<noteq> ''sensor_msgs/msg/LaserScan'' \<Longrightarrow> assign_field ''data'' (Byte_Sequence [0]) = without_large_fields ty"
  by (rule ext) (auto simp: assign_field_def without_large_fields_def large_fields_def emptied_def)

lemma assign_scan:
  "assign_field ''intensities'' (Float_Sequence [0]) \<circ> assign_field ''ranges'' (Float_Sequence [0]) =
     without_large_fields ''sensor_msgs/msg/LaserScan''"
  by (rule ext) (auto simp: assign_field_def without_large_fields_def large_fields_def emptied_def)

lemma if_chain:
  "a \<or> b \<or> c \<or> n \<Longrightarrow> \<not> l \<Longrightarrow>
     (if a then x else if b then x else if c then x else if l then y else if n then x else z) = x"
  by auto

lemma strip_message_spec:
  assumes "should_strip ty"
  shows "strip_message lib ty d = strip_and_reserialize lib ty d (without_large_fields ty)"
proof (cases "ty = ''sensor_msgs/msg/LaserScan''")
  case True
  then show ?thesis by (simp add: strip_message_def assign_scan)
next
  case False
  note data = assign_data [OF False]
  have types: "ty = ''sensor_msgs/msg/Image'' \<or> ty = ''sensor_msgs/msg/CompressedImage'' \<or>
      ty = ''sensor_msgs/msg/PointCloud2'' \<or> ty = ''nav_msgs/msg/OccupancyGrid''"
    using False assms by (simp add: should_strip_def kStrippableTypes_def)
  show ?thesis unfolding strip_message_def data by (rule if_chain [OF types False])
qed

text \<open>The library reads back what it has written.\<close>

definition reads_back :: "ros_serialization \<Rightarrow> bool" where
  "reads_back lib = (\<forall>ty msg d. ros_serialize lib ty msg = Inr d \<longrightarrow> ros_deserialize lib ty d = Inr msg)"

lemma strip_decodes:
  assumes "should_strip ty" "reads_back lib" "strip_message lib ty d = Inr d'"
  shows "\<exists>msg. ros_deserialize lib ty d = Inr msg \<and> ros_deserialize lib ty d' = Inr (without_large_fields ty msg)"
  using assms
  by (auto simp: strip_message_spec strip_and_reserialize_def reads_back_def split: sum.splits)

end
