(* ===== verification/Ros2_Subscriptions.thy ===== *)
theory Ros2_Subscriptions
  imports Subscription_Manager Message_Stripper
begin

text \<open>
  The ROS 2 backend: \<^verbatim>\<open>GenericSubscriptionManager\<close>, the \<^verbatim>\<open>DrainingSubscription\<close> it creates
  (\<^verbatim>\<open>generic_subscription_manager.cpp\<close>), and \<^verbatim>\<open>Ros2SubscriptionManager\<close>
  (\<^verbatim>\<open>ros2_subscription_manager.cpp\<close>). The ROS graph, the creation of a subscription and the message
  serialization of rclcpp are parameters. Queue depths are kept at the width of \<^verbatim>\<open>size_t\<close>.
\<close>

section \<open>Adapting the quality of service\<close>

record publisher_info =
  pub_best_effort :: bool
  pub_transient_local :: bool
  pub_depth :: u64

record qos =
  depth :: u64
  best_effort :: bool
  qos_transient_local :: bool

definition kFallbackDepth :: u64 where
  "kFallbackDepth = 100"

definition clamp_word :: "u64 \<Rightarrow> u64 \<Rightarrow> u64 \<Rightarrow> u64" where
  "clamp_word v lo hi = (if v < lo then lo else if hi < v then hi else v)"

text \<open>One step of the loop: the contribution is capped at the remaining headroom.\<close>

definition add_depth :: "u64 \<Rightarrow> u64 \<Rightarrow> publisher_info \<Rightarrow> u64" where
  "add_depth max_depth total_depth p =
     (let publisher_depth = (if pub_depth p > 0 then pub_depth p else kFallbackDepth);
          headroom = max_depth - total_depth
      in total_depth + min publisher_depth headroom)"

definition adapt_qos :: "u64 \<Rightarrow> u64 \<Rightarrow> publisher_info list \<Rightarrow> qos" where
  "adapt_qos min_depth max_depth publishers =
     (if publishers = []
      then \<lparr>depth = min kFallbackDepth max_depth, best_effort = False, qos_transient_local = False\<rparr>
      else \<lparr>depth = clamp_word (foldl (add_depth max_depth) 0 publishers) min_depth max_depth,
            best_effort = (\<exists>p \<in> set publishers. pub_best_effort p),
            qos_transient_local = (\<forall>p \<in> set publishers. pub_transient_local p)\<rparr>)"

text \<open>The depth a publisher counts for.\<close>

definition publisher_contribution :: "publisher_info \<Rightarrow> nat" where
  "publisher_contribution p = (if pub_depth p = 0 then 100 else unat (pub_depth p))"

lemma add_depth_exact:
  assumes "total_depth \<le> max_depth"
  shows "unat (add_depth max_depth total_depth p)
           = min (unat total_depth + publisher_contribution p) (unat max_depth) \<and>
         add_depth max_depth total_depth p \<le> max_depth"
proof -
  define d where "d = (if pub_depth p > 0 then pub_depth p else kFallbackDepth)"
  have d: "unat d = publisher_contribution p"
    by (auto simp: d_def publisher_contribution_def kFallbackDepth_def word_gt_0)
  have head: "unat (max_depth - total_depth) = unat max_depth - unat total_depth"
    using assms by (rule unat_sub)
  have "unat total_depth \<le> unat max_depth" using assms by (simp add: word_le_nat_alt)
  moreover have "unat (min d (max_depth - total_depth)) = min (unat d) (unat max_depth - unat total_depth)"
    by (simp add: min_def word_le_nat_alt head)
  moreover have "unat max_depth < 2 ^ 64" using unsigned_less [of max_depth, where 'a = nat] by simp
  ultimately have "unat (total_depth + min d (max_depth - total_depth))
      = unat total_depth + min (unat d) (unat max_depth - unat total_depth)"
    by (subst unat_add_lem [THEN iffD1]) auto
  then have "unat (add_depth max_depth total_depth p)
      = unat total_depth + min (unat d) (unat max_depth - unat total_depth)"
    by (simp add: add_depth_def Let_def d_def)
  with \<open>unat total_depth \<le> unat max_depth\<close> show ?thesis by (auto simp: d word_le_nat_alt)
qed

lemma foldl_add_depth:
  "total_depth \<le> max_depth \<Longrightarrow>
    unat (foldl (add_depth max_depth) total_depth ps)
      = min (unat total_depth + sum_list (map publisher_contribution ps)) (unat max_depth)"
proof (induction ps arbitrary: total_depth)
  case Nil
  then show ?case by (simp add: word_le_nat_alt)
next
  case (Cons p ps)
  from add_depth_exact [OF Cons.prems, of p] Cons.IH [of "add_depth max_depth total_depth p"]
  show ?case by simp
qed

section \<open>The subscription manager\<close>

text \<open>What the ROS graph and rclcpp answer at the time of a call.\<close>

record ros_graph =
  publishers_info :: "string \<Rightarrow> publisher_info list"
  can_create :: "string \<Rightarrow> string \<Rightarrow> bool"

text \<open>The entry of a subscription: its detected durability and what its callback captured.\<close>

record ros2_subscription =
  transient_local :: bool
  sub_topic_type :: string
  needs_stripping :: bool

record ros2_manager =
  subscriptions :: "ros2_subscription ref_entry umap"
  min_qos_depth :: u64
  max_qos_depth :: u64
  strip_large_messages :: bool

definition new_ros2_manager :: "bool \<Rightarrow> u64 \<Rightarrow> u64 \<Rightarrow> ros2_manager" where
  "new_ros2_manager strip lo hi =
     \<lparr>subscriptions = [], min_qos_depth = lo, max_qos_depth = hi, strip_large_messages = strip\<rparr>"

definition ros2_subscribe ::
    "ros_graph \<Rightarrow> string \<Rightarrow> string \<Rightarrow> ros2_manager \<Rightarrow> bool \<times> ros2_manager" where
  "ros2_subscribe g t ty b =
     (case map_of (subscriptions b) t of
        Some e \<Rightarrow> (True, b\<lparr>subscriptions := ref_increment t e (subscriptions b)\<rparr>)
      | None \<Rightarrow>
          if can_create g t ty
          then let q = adapt_qos (min_qos_depth b) (max_qos_depth b) (publishers_info g t);
                   s = \<lparr>transient_local = qos_transient_local q, sub_topic_type = ty,
                        needs_stripping = (strip_large_messages b \<and> should_strip ty)\<rparr>
               in (True, b\<lparr>subscriptions :=
                     AList.update t \<lparr>reference_count = 1, entry = s\<rparr> (subscriptions b)\<rparr>)
          else (False, b))"

definition ros2_unsubscribe :: "string \<Rightarrow> ros2_manager \<Rightarrow> bool \<times> ros2_manager" where
  "ros2_unsubscribe t b =
     (let (ok, m) = ref_unsubscribe t (subscriptions b) in (ok, b\<lparr>subscriptions := m\<rparr>))"

definition ros2_is_subscribed :: "string \<Rightarrow> ros2_manager \<Rightarrow> bool" where
  "ros2_is_subscribed t b = (map_of (subscriptions b) t \<noteq> None)"

definition ros2_subscription_count :: "ros2_manager \<Rightarrow> nat" where
  "ros2_subscription_count b = length (subscriptions b)"

definition get_reference_count :: "string \<Rightarrow> ros2_manager \<Rightarrow> nat" where
  "get_reference_count t b =
     (case map_of (subscriptions b) t of None \<Rightarrow> 0 | Some e \<Rightarrow> reference_count e)"

definition ros2_unsubscribe_all :: "ros2_manager \<Rightarrow> ros2_manager" where
  "ros2_unsubscribe_all b = b\<lparr>subscriptions := []\<rparr>"

definition ros2_is_transient_local :: "string \<Rightarrow> ros2_manager \<Rightarrow> bool" where
  "ros2_is_transient_local t b =
     (case map_of (subscriptions b) t of None \<Rightarrow> False | Some e \<Rightarrow> transient_local (entry e))"

definition ros2_ops :: "ros_graph \<Rightarrow> ros2_manager sm_ops" where
  "ros2_ops g =
     \<lparr>sm_subscribe = ros2_subscribe g, sm_unsubscribe = ros2_unsubscribe,
      sm_unsubscribe_all = ros2_unsubscribe_all,
      sm_is_transient_local = ros2_is_transient_local, sm_is_subscribed = ros2_is_subscribed\<rparr>"

definition ros2_wf :: "ros2_manager \<Rightarrow> bool" where
  "ros2_wf b = ref_map_wf (subscriptions b)"

definition ros2_refs :: "ros2_manager \<Rightarrow> string \<Rightarrow> nat" where
  "ros2_refs b t = get_reference_count t b"

lemma ros2_refs_ref_of: "ros2_refs b = ref_of (subscriptions b)"
  by (simp add: ros2_refs_def get_reference_count_def ref_of_def fun_eq_iff)

lemma new_ros2_manager_simps [simp]:
  "ros2_wf (new_ros2_manager s lo hi)" "ros2_refs (new_ros2_manager s lo hi) t = 0"
  by (simp_all add: ros2_wf_def ros2_refs_ref_of new_ros2_manager_def ref_of_def)

interpretation ros2: tracking_manager ros2_ops ros2_wf ros2_refs
proof unfold_locales
  fix b b' :: ros2_manager and g t ty ok
  assume wf: "ros2_wf b"
  { assume "sm_subscribe (ros2_ops g) t ty b = (ok, b')"
    with wf show "ros2_wf b' \<and> ros2_refs b' = (if ok then (ros2_refs b)(t := Suc (ros2_refs b t)) else ros2_refs b)"
      using ref_increment_correct [of "subscriptions b" t]
      by (auto simp: ros2_ops_def ros2_subscribe_def ros2_wf_def ros2_refs_ref_of ref_update_wf
          ref_of_update ref_of_def [of _ t] Let_def split: option.splits if_splits) }
  { assume "0 < ros2_refs b t"
    then show "fst (sm_subscribe (ros2_ops g) t ty b)"
      by (auto simp: ros2_ops_def ros2_subscribe_def ros2_refs_ref_of ref_of_def split: option.splits) }
  { assume "sm_unsubscribe (ros2_ops g) t b = (ok, b')"
    with wf show "ros2_wf b' \<and> ros2_refs b' = (ros2_refs b)(t := ros2_refs b t - 1) \<and> ok = (0 < ros2_refs b t)"
      using ref_unsubscribe_correct [of "subscriptions b" t ok "subscriptions b'"]
      by (auto simp: ros2_ops_def ros2_unsubscribe_def ros2_wf_def ros2_refs_ref_of split: prod.splits) }
  show "ros2_wf (sm_unsubscribe_all (ros2_ops g) b) \<and> ros2_refs (sm_unsubscribe_all (ros2_ops g) b) = (\<lambda>_. 0)"
    by (simp add: ros2_ops_def ros2_unsubscribe_all_def ros2_wf_def ros2_refs_ref_of ref_of_def fun_eq_iff)
  show tracked: "sm_is_subscribed (ros2_ops g) t b \<longleftrightarrow> 0 < ros2_refs b t"
    using wf by (simp add: ros2_ops_def ros2_is_subscribed_def ros2_refs_ref_of ref_of_pos_iff ros2_wf_def)
  { assume "ros2_refs b t = 0"
    with tracked show "\<not> sm_is_subscribed (ros2_ops g) t b" by simp }
  { assume "sm_is_transient_local (ros2_ops g) t b"
    then have "map_of (subscriptions b) t \<noteq> None"
      by (auto simp: ros2_ops_def ros2_is_transient_local_def split: option.splits)
    with wf show "0 < ros2_refs b t" by (simp add: ros2_refs_ref_of ref_of_pos_iff ros2_wf_def) }
qed

section \<open>Receiving messages\<close>

text \<open>
  \<^verbatim>\<open>handle_serialized_message\<close>: the message that the executor hands over, then whatever else
  the reader holds, up to a bound. What the reader would answer to the next takes is a list.
\<close>

definition kMaxDrainPerCallback :: nat where
  "kMaxDrainPerCallback = 1000"

text \<open>
  A message that is taken: its bytes, the timestamp of the middleware, and what the system clock
  reads while it is handled.
\<close>

datatype take_outcome = Taken bytes int int | Nothing_Left | Take_Failed

text \<open>\<^verbatim>\<open>receive_time_ns\<close>: the middleware's timestamp, or the clock when it is not filled.\<close>

definition receive_time_ns :: "int \<Rightarrow> int \<Rightarrow> u64" where
  "receive_time_ns clock received = (if received > 0 then of_int received else get_current_time_ns clock)"

fun drain :: "nat \<Rightarrow> take_outcome list \<Rightarrow> (bytes \<times> u64) list \<times> take_outcome list" where
  "drain 0 reader = ([], reader)"
| "drain (Suc left) reader =
     (case reader of
        [] \<Rightarrow> ([], [])
      | Nothing_Left # rest \<Rightarrow> ([], rest)
      | Take_Failed # rest \<Rightarrow> ([], rest)
      | Taken d received clock # rest \<Rightarrow>
          let (out, rest') = drain left rest
          in ((d, receive_time_ns clock received) # out, rest'))"

definition handle_serialized_message ::
    "bytes \<Rightarrow> int \<Rightarrow> int \<Rightarrow> take_outcome list \<Rightarrow> (bytes \<times> u64) list \<times> take_outcome list" where
  "handle_serialized_message d received clock reader =
     (let (out, rest) = drain kMaxDrainPerCallback reader
      in ((d, receive_time_ns clock received) # out, rest))"

text \<open>The callback of a subscription: stripping falls back to the original message.\<close>

definition ros2_callback :: "ros_serialization \<Rightarrow> ros2_subscription \<Rightarrow> bytes \<Rightarrow> bytes" where
  "ros2_callback lib s d =
     (if needs_stripping s
      then (case strip_message lib (sub_topic_type s) d of Inl _ \<Rightarrow> d | Inr d' \<Rightarrow> d')
      else d)"

fun taken :: "take_outcome \<Rightarrow> bool" where
  "taken (Taken d r clock) = True"
| "taken _ = False"

fun taken_message :: "take_outcome \<Rightarrow> bytes \<times> u64" where
  "taken_message (Taken d r clock) = (d, receive_time_ns clock r)"
| "taken_message _ = ([], 0)"

lemma drain_prefix: "fst (drain n reader) = map taken_message (takeWhile taken (take n reader))"
  by (induction n reader rule: drain.induct) (auto split: list.splits take_outcome.splits prod.splits)

section \<open>Properties\<close>

text \<open>
  C40. The depth of a subscription is the sum of what the publishers announce (100 for one that
  announces nothing), clamped to the configured range; the addition on 64-bit words never
  wraps. The subscription is best-effort when some publisher is, and transient-local when
  there is a publisher and all of them are.
\<close>

theorem adapt_qos_correct:
  assumes "lo \<le> hi"
  shows "unat (depth (adapt_qos lo hi ps)) =
           (if ps = [] then min 100 (unat hi)
            else max (unat lo) (min (sum_list (map publisher_contribution ps)) (unat hi))) \<and>
         (best_effort (adapt_qos lo hi ps) \<longleftrightarrow> (\<exists>p \<in> set ps. pub_best_effort p)) \<and>
         (qos_transient_local (adapt_qos lo hi ps) \<longleftrightarrow>
            ps \<noteq> [] \<and> \<not> (\<exists>p \<in> set ps. \<not> pub_transient_local p))"
proof -
  have "unat (foldl (add_depth hi) 0 ps)
      = min (sum_list (map publisher_contribution ps)) (unat hi)"
    using foldl_add_depth [of 0 hi ps] by simp
  then show ?thesis
    using assms
    by (auto simp: adapt_qos_def clamp_word_def kFallbackDepth_def word_le_nat_alt word_less_nat_alt
        min_def max_def)
qed

theorem adapt_qos_correct_witness:
  "unat (depth (adapt_qos 10 0xFFFFFFFFFFFFFFFF [\<lparr>pub_best_effort = True, pub_transient_local = False, pub_depth = 0xFFFFFFFFFFFFFFFF\<rparr>,
      \<lparr>pub_best_effort = False, pub_transient_local = True, pub_depth = 0\<rparr>])) = 2 ^ 64 - 1"
  using adapt_qos_correct [where lo = 10 and hi = "0xFFFFFFFFFFFFFFFF" and ps = "[\<lparr>pub_best_effort = True, pub_transient_local = False, pub_depth = 0xFFFFFFFFFFFFFFFF\<rparr>,
      \<lparr>pub_best_effort = False, pub_transient_local = True, pub_depth = 0\<rparr>]"]
  by (simp add: publisher_contribution_def)

text \<open>
  One wake-up of a subscription delivers the message it was handed and then the next
  messages of its reader in order, at most a thousand, stopping at the first take that yields
  none; each carries the middleware's receive time, or the clock when that is absent.
\<close>

theorem drain_delivers:
  "fst (handle_serialized_message d received clock reader) =
     map taken_message (Taken d received clock # takeWhile taken (take 1000 reader)) \<and>
   length (fst (handle_serialized_message d received clock reader)) \<le> 1001"
proof -
  have "length (takeWhile taken (take 1000 reader)) \<le> length (take 1000 reader)"
    by (rule length_takeWhile_le)
  then show ?thesis
    using drain_prefix [of 1000 reader]
    by (simp add: handle_serialized_message_def kMaxDrainPerCallback_def case_prod_beta)
qed

text \<open>
  The reference: a count per topic. A subscribe succeeds when the topic has a reference already
  or rclcpp can create the subscription, and then adds one; an unsubscribe takes one away if
  there is one.
\<close>

fun reference_ledger ::
    "(ros_graph \<times> string \<times> string option) list \<Rightarrow> (string \<Rightarrow> nat) \<Rightarrow> (string \<times> bool) list \<times> (string \<Rightarrow> nat)" where
  "reference_ledger [] n = ([], n)"
| "reference_ledger ((g, t, Some ty) # xs) n =
     (if 0 < n t \<or> can_create g t ty
      then let (rs, n') = reference_ledger xs (n(t := n t + 1)) in ((t, True) # rs, n')
      else let (rs, n') = reference_ledger xs n in ((t, False) # rs, n'))"
| "reference_ledger ((g, t, None) # xs) n = reference_ledger xs (n(t := n t - 1))"

lemma ros2_subscribe_succeeds:
  "ros2_wf b \<Longrightarrow> fst (ros2_subscribe g t ty b) \<longleftrightarrow> 0 < ros2_refs b t \<or> can_create g t ty"
  using ros2.is_subscribed_law [of b g t]
  by (auto simp: ros2_subscribe_def ros2_ops_def ros2_is_subscribed_def Let_def split: option.splits)

lemma ros2_ledger_refines:
  assumes "ros2_wf b" "ros2.ledger xs b = (rs, b')"
  shows "reference_ledger xs (ros2_refs b) = (rs, ros2_refs b')"
  using assms
proof (induction xs arbitrary: b rs)
  case (Cons x xs)
  obtain g t req where x: "x = (g, t, req)" by (cases x)
  show ?case
  proof (cases req)
    case None
    obtain ok b1 where u: "sm_unsubscribe (ros2_ops g) t b = (ok, b1)" by fastforce
    then have l: "ros2.ledger xs b1 = (rs, b')" using Cons.prems(2) by (simp add: x None split: prod.splits)
    from ros2.unsubscribe_law [OF Cons.prems(1) u]
    have r: "ros2_wf b1" "ros2_refs b1 = (ros2_refs b)(t := ros2_refs b t - 1)" by blast+
    from Cons.IH [OF r(1) l] show ?thesis by (simp only: x None reference_ledger.simps r(2))
  next
    case (Some ty)
    obtain ok b1 where s: "sm_subscribe (ros2_ops g) t ty b = (ok, b1)" by fastforce
    obtain rs1 where l: "ros2.ledger xs b1 = (rs1, b')" "rs = (t, ok) # rs1"
      using Cons.prems(2) s by (auto simp: x Some split: prod.splits)
    have "ok \<longleftrightarrow> 0 < ros2_refs b t \<or> can_create g t ty"
      using ros2_subscribe_succeeds [OF Cons.prems(1), of g t ty] s by (simp add: ros2_ops_def)
    with Cons.IH [OF _ l(1)] ros2.subscribe_law [OF Cons.prems(1) s] l(2) show ?thesis
      by (cases ok) (simp_all add: x Some)
  qed
qed simp

text \<open>
  C38. The ROS 2 backend is a reference ledger. Over any history of calls, whatever rclcpp
  answers, the results of the subscribes and the reference count of every topic are those of
  \<open>reference_ledger\<close>; a topic is subscribed exactly while it has a reference, and one more
  unsubscribe removes exactly one reference and reports whether there was one.
\<close>

theorem ros2_reference_counting:
  assumes "ros2.ledger xs (new_ros2_manager strip lo hi) = (rs, b)"
  shows "reference_ledger xs (\<lambda>_. 0) = (rs, \<lambda>t. get_reference_count t b) \<and>
         get_reference_count t b \<le> length (filter (\<lambda>r. r = (t, True)) rs) \<and>
         (ros2_is_subscribed t b \<longleftrightarrow> 0 < get_reference_count t b) \<and>
         (case ros2_unsubscribe t b of (ok, b') \<Rightarrow>
            ok = (0 < get_reference_count t b) \<and>
            get_reference_count t b' = get_reference_count t b - 1)"
proof -
  have wf: "ros2_wf b" using ros2.ledger_inv [OF _ assms] by simp
  obtain ok b' where u: "ros2_unsubscribe t b = (ok, b')" by (cases "ros2_unsubscribe t b")
  then have "sm_unsubscribe (ros2_ops g) t b = (ok, b')" for g by (simp add: ros2_ops_def)
  note after = ros2.unsubscribe_law [OF wf this]
  have "sm_is_subscribed (ros2_ops g) t b = ros2_is_subscribed t b" for g by (simp add: ros2_ops_def)
  moreover have "ros2_refs (new_ros2_manager strip lo hi) = (\<lambda>_. 0)" by (simp add: fun_eq_iff)
  with ros2_ledger_refines [OF new_ros2_manager_simps(1) assms]
  have "reference_ledger xs (\<lambda>_. 0) = (rs, \<lambda>t. get_reference_count t b)"
    by (simp add: ros2_refs_def fun_eq_iff)
  ultimately show ?thesis
    using ros2.is_subscribed_law [OF wf, of _ t] ros2.ledger_bound [OF new_ros2_manager_simps(1) assms, of t]
      after u new_ros2_manager_simps(2) [of strip lo hi t]
    by (simp add: ros2_refs_def fun_eq_iff del: new_ros2_manager_simps)
qed

text \<open>Two subscribes, the second on another graph that could not create, and an unsubscribe.\<close>

definition sample_history :: "(ros_graph \<times> string \<times> string option) list" where
  "sample_history =
     [(\<lparr>publishers_info = \<lambda>_. [], can_create = \<lambda>_ _. True\<rparr>, ''/imu'', Some ''T''),
      (\<lparr>publishers_info = \<lambda>_. [], can_create = \<lambda>_ _. False\<rparr>, ''/imu'', Some ''T''),
      (\<lparr>publishers_info = \<lambda>_. [], can_create = \<lambda>_ _. False\<rparr>, ''/gps'', Some ''T''),
      (\<lparr>publishers_info = \<lambda>_. [], can_create = \<lambda>_ _. True\<rparr>, ''/imu'', None)]"

theorem ros2_reference_counting_witness:
  "\<exists>b. ros2.ledger sample_history (new_ros2_manager False 1 100) =
       ([(''/imu'', True), (''/imu'', True), (''/gps'', False)], b) \<and>
     get_reference_count ''/imu'' b = 1 \<and> get_reference_count ''/gps'' b = 0"
proof -
  obtain rs b where l: "ros2.ledger sample_history (new_ros2_manager False 1 100) = (rs, b)" by fastforce
  have "reference_ledger sample_history (\<lambda>_. 0) =
      ([(''/imu'', True), (''/imu'', True), (''/gps'', False)],
       (((\<lambda>_. 0)(''/imu'' := 1))(''/imu'' := 2))(''/imu'' := 1))"
    by (simp add: sample_history_def Let_def)
  note e = trans [OF conjunct1 [OF ros2_reference_counting [OF l], symmetric] this]
  from e have "rs = [(''/imu'', True), (''/imu'', True), (''/gps'', False)]" by (simp only: prod.inject)
  moreover from e have f: "(\<lambda>t. get_reference_count t b) = (((\<lambda>_. 0)(''/imu'' := 1))(''/imu'' := 2))(''/imu'' := 1)"
    by (simp only: prod.inject)
  moreover have "get_reference_count ''/imu'' b = 1" "get_reference_count ''/gps'' b = 0"
    using fun_cong [OF f, of "''/imu''"] fun_cong [OF f, of "''/gps''"] by simp_all
  ultimately show ?thesis using l by blast
qed

end
