(* ===== verification/Dds_Discovery.thy ===== *)
theory Dds_Discovery
  imports Protocol
begin

text \<open>
  The topic caches of the two DDS backends: \<^verbatim>\<open>FastDdsTopicSource\<close>
  (\<^verbatim>\<open>fastdds_topic_source.cpp\<close>) and \<^verbatim>\<open>DdsTopicDiscovery\<close> (\<^verbatim>\<open>dds_topic_discovery.cpp\<close>). Both file
  a topic on the first announcement of a writer and never remove it. The DDS type system is
  represented by the type's name, whether it is a structure, and its printed IDL.
\<close>

section \<open>The cache\<close>

record discovered_topic =
  type_name :: string
  schema_idl :: string
  topic_domain_id :: int

record dds_source =
  topics :: "discovered_topic umap"
  participants :: "int list"

text \<open>\<^verbatim>\<open>on_topic_discovered\<close>, the same code in both classes: the first announcement wins.\<close>

definition cache_topic :: "string \<Rightarrow> discovered_topic \<Rightarrow> dds_source \<Rightarrow> dds_source" where
  "cache_topic name d s =
     (case map_of (topics s) name of
        Some _ \<Rightarrow> s
      | None \<Rightarrow> s\<lparr>topics := AList.update name d (topics s)\<rparr>)"

section \<open>Fast DDS\<close>

text \<open>
  The constructor: one participant per domain; a domain whose participant cannot be created is
  skipped, and so is a repeated one (\<^verbatim>\<open>emplace\<close>).
\<close>

definition fastdds_source :: "(int \<Rightarrow> bool) \<Rightarrow> int list \<Rightarrow> dds_source" where
  "fastdds_source create_participant domain_ids =
     \<lparr>topics = [],
      participants = fold (\<lambda>d ps. if create_participant d then List.insert d ps else ps) domain_ids []\<rparr>"

datatype dynamic_type = Struct_Type string | Other_Type string

text \<open>What the type registry and the type factory answer for the announced writer.\<close>

record type_lookup =
  type_object :: bool
  builder :: bool
  built :: "dynamic_type option"
  idl :: "string option"

definition fastdds_on_topic_discovered ::
    "string \<Rightarrow> string \<Rightarrow> string \<Rightarrow> int \<Rightarrow> dds_source \<Rightarrow> dds_source" where
  "fastdds_on_topic_discovered name ty schema domain s =
     cache_topic name \<lparr>type_name = ty, schema_idl = schema, topic_domain_id = domain\<rparr> s"

definition fastdds_on_data_writer_discovery ::
    "int \<Rightarrow> bool \<Rightarrow> string \<Rightarrow> type_lookup \<Rightarrow> dds_source \<Rightarrow> dds_source" where
  "fastdds_on_data_writer_discovery domain discovered_writer name lookup s =
     (if \<not> discovered_writer then s
      else if map_of (topics s) name \<noteq> None then s
      else if \<not> type_object lookup then s
      else if \<not> builder lookup then s
      else case built lookup of
             None \<Rightarrow> s
           | Some (Other_Type _) \<Rightarrow> s
           | Some (Struct_Type ty) \<Rightarrow>
               (case idl lookup of
                  None \<Rightarrow> s
                | Some schema \<Rightarrow> fastdds_on_topic_discovered name ty schema domain s))"

definition fastdds_get_topics :: "hash_order \<Rightarrow> dds_source \<Rightarrow> (string \<times> string) list" where
  "fastdds_get_topics ho s = map (\<lambda>(n, d). (n, type_name d)) (entries ho (topics s))"

definition fastdds_get_schema :: "string \<Rightarrow> dds_source \<Rightarrow> string" where
  "fastdds_get_schema name s =
     (case map_of (topics s) name of None \<Rightarrow> '''' | Some d \<Rightarrow> schema_idl d)"

definition fastdds_schema_encoding :: string where
  "fastdds_schema_encoding = kSchemaEncodingOmgIdl"

definition fastdds_get_dynamic_type :: "string \<Rightarrow> dds_source \<Rightarrow> string option" where
  "fastdds_get_dynamic_type name s = map_option type_name (map_of (topics s) name)"

definition fastdds_get_participant :: "int \<Rightarrow> dds_source \<Rightarrow> int option" where
  "fastdds_get_participant domain s = (if domain \<in> set (participants s) then Some domain else None)"

definition fastdds_get_domain_id :: "string \<Rightarrow> dds_source \<Rightarrow> int option" where
  "fastdds_get_domain_id name s = map_option topic_domain_id (map_of (topics s) name)"

section \<open>RTI Connext\<close>

text \<open>The participant is filed before its built-in reader is looked up.\<close>

definition rti_source :: "int list \<Rightarrow> dds_source" where
  "rti_source domain_ids = \<lparr>topics = [], participants = fold List.insert domain_ids []\<rparr>"

definition rti_on_topic_discovered ::
    "string \<Rightarrow> string \<Rightarrow> string \<Rightarrow> int \<Rightarrow> dds_source \<Rightarrow> dds_source" where
  "rti_on_topic_discovered name ty schema domain s =
     cache_topic name \<lparr>type_name = ty, schema_idl = schema, topic_domain_id = domain\<rparr> s"

text \<open>
  One sample of the built-in publication topic. The last field is the type as the library prints
  it; \<open>None\<close> is an exception, which ends the call and leaves the samples after it.
\<close>

record publication_sample =
  sample_valid :: bool
  sample_topic :: string
  sample_type :: "dynamic_type option"
  sample_idl :: "string option"

fun rti_on_publications :: "int \<Rightarrow> publication_sample list \<Rightarrow> dds_source \<Rightarrow> dds_source" where
  "rti_on_publications domain [] s = s"
| "rti_on_publications domain (p # ps) s =
     (if \<not> sample_valid p then rti_on_publications domain ps s
      else case sample_type p of
             None \<Rightarrow> rti_on_publications domain ps s
           | Some (Other_Type _) \<Rightarrow> rti_on_publications domain ps s
           | Some (Struct_Type ty) \<Rightarrow>
               (case sample_idl p of
                  None \<Rightarrow> s
                | Some schema \<Rightarrow>
                    rti_on_publications domain ps
                      (rti_on_topic_discovered (sample_topic p) ty schema domain s)))"

definition rti_get_topics :: "hash_order \<Rightarrow> dds_source \<Rightarrow> (string \<times> string) list" where
  "rti_get_topics ho s = map (\<lambda>(n, d). (n, type_name d)) (entries ho (topics s))"

definition rti_get_schema :: "string \<Rightarrow> dds_source \<Rightarrow> string" where
  "rti_get_schema name s =
     (case map_of (topics s) name of None \<Rightarrow> '''' | Some d \<Rightarrow> schema_idl d)"

definition rti_schema_encoding :: string where
  "rti_schema_encoding = kSchemaEncodingOmgIdl"

definition rti_get_type :: "string \<Rightarrow> dds_source \<Rightarrow> string option" where
  "rti_get_type name s = map_option type_name (map_of (topics s) name)"

definition rti_get_domain_id :: "string \<Rightarrow> dds_source \<Rightarrow> int option" where
  "rti_get_domain_id name s = map_option topic_domain_id (map_of (topics s) name)"

definition rti_get_participant :: "int \<Rightarrow> dds_source \<Rightarrow> int option" where
  "rti_get_participant domain s = (if domain \<in> set (participants s) then Some domain else None)"

section \<open>Lemmas\<close>

definition dds_source_wf :: "dds_source \<Rightarrow> bool" where
  "dds_source_wf s \<longleftrightarrow> unique_keys (topics s) \<and> distinct (participants s)"

lemma cache_topic_lookup:
  "map_of (topics (cache_topic name d s)) n =
     (if n = name \<and> map_of (topics s) name = None then Some d else map_of (topics s) n)"
  by (auto simp: cache_topic_def split: option.splits)

lemma cache_topic_wf [wf_intros]: "dds_source_wf s \<Longrightarrow> dds_source_wf (cache_topic name d s)"
  by (auto simp: dds_source_wf_def cache_topic_def split: option.splits)

lemma cache_topic_participants [simp]: "participants (cache_topic name d s) = participants s"
  by (simp add: cache_topic_def split: option.splits)

lemma cache_topic_keeps:
  "map_of (topics s) n = Some e \<Longrightarrow> map_of (topics (cache_topic name d s)) n = Some e"
  by (auto simp: cache_topic_lookup)

lemma fastdds_discovery_keeps:
  "map_of (topics s) n = Some e \<Longrightarrow>
    map_of (topics (fastdds_on_data_writer_discovery domain dw name lk s)) n = Some e"
  by (auto simp: fastdds_on_data_writer_discovery_def fastdds_on_topic_discovered_def
      cache_topic_keeps split: option.splits dynamic_type.splits)

lemma fastdds_discovery_wf [wf_intros]:
  "dds_source_wf s \<Longrightarrow> dds_source_wf (fastdds_on_data_writer_discovery domain dw name lk s)"
  by (auto simp: fastdds_on_data_writer_discovery_def fastdds_on_topic_discovered_def
      intro: cache_topic_wf split: option.splits dynamic_type.splits)

lemma rti_publications_keeps:
  "map_of (topics s) n = Some e \<Longrightarrow> map_of (topics (rti_on_publications domain ps s)) n = Some e"
  by (induction domain ps s rule: rti_on_publications.induct)
    (auto simp: rti_on_topic_discovered_def cache_topic_keeps split: option.splits dynamic_type.splits)

text \<open>A history of announcements, with their domains.\<close>

definition fastdds_run ::
    "(int \<times> bool \<times> string \<times> type_lookup) list \<Rightarrow> dds_source \<Rightarrow> dds_source" where
  "fastdds_run evs s = fold (\<lambda>(d, w, n, lk). fastdds_on_data_writer_discovery d w n lk) evs s"

text \<open>The announcements that can be cached.\<close>

fun announces :: "string \<Rightarrow> (int \<times> bool \<times> string \<times> type_lookup) \<Rightarrow> discovered_topic option" where
  "announces n (d, w, m, lk) =
     (if w \<and> m = n \<and> type_object lk \<and> builder lk then
        (case (built lk, idl lk) of
           (Some (Struct_Type ty), Some schema) \<Rightarrow>
             Some \<lparr>type_name = ty, schema_idl = schema, topic_domain_id = d\<rparr>
         | _ \<Rightarrow> None)
      else None)"

lemma fastdds_run_lookup:
  "map_of (topics (fastdds_run evs s)) n =
     (case map_of (topics s) n of
        Some e \<Rightarrow> Some e
      | None \<Rightarrow> (case List.map_filter (announces n) evs of [] \<Rightarrow> None | d # _ \<Rightarrow> Some d))"
proof (induction evs arbitrary: s)
  case Nil
  then show ?case by (simp add: fastdds_run_def map_filter_simps split: option.splits)
next
  case (Cons ev evs)
  obtain d w m lk where ev: "ev = (d, w, m, lk)" by (cases ev)
  have "map_of (topics (fastdds_on_data_writer_discovery d w m lk s)) n =
      (case map_of (topics s) n of Some e \<Rightarrow> Some e | None \<Rightarrow> announces n ev)"
    by (auto simp: ev fastdds_on_data_writer_discovery_def fastdds_on_topic_discovered_def
        cache_topic_lookup split: option.splits dynamic_type.splits)
  with Cons [of "fastdds_on_data_writer_discovery d w m lk s"] show ?case
    by (auto simp: ev fastdds_run_def map_filter_simps split: option.splits)
qed

text \<open>The same for RTI: each call of the listener has a list of samples.\<close>

definition rti_run :: "(int \<times> publication_sample list) list \<Rightarrow> dds_source \<Rightarrow> dds_source" where
  "rti_run evs s = fold (\<lambda>(d, ps). rti_on_publications d ps) evs s"

fun prints :: "publication_sample \<Rightarrow> bool" where
  "prints p = (case (sample_valid p, sample_type p) of
                 (True, Some (Struct_Type _)) \<Rightarrow> sample_idl p \<noteq> None
               | _ \<Rightarrow> True)"

fun rti_announces :: "string \<Rightarrow> int \<Rightarrow> publication_sample \<Rightarrow> discovered_topic option" where
  "rti_announces n d p =
     (if sample_valid p \<and> sample_topic p = n then
        (case (sample_type p, sample_idl p) of
           (Some (Struct_Type ty), Some schema) \<Rightarrow>
             Some \<lparr>type_name = ty, schema_idl = schema, topic_domain_id = d\<rparr>
         | _ \<Rightarrow> None)
      else None)"

fun rti_announced :: "string \<Rightarrow> int \<times> publication_sample list \<Rightarrow> discovered_topic list" where
  "rti_announced n (d, ps) = List.map_filter (rti_announces n d) (takeWhile prints ps)"

lemma rti_publications_lookup:
  "map_of (topics (rti_on_publications d ps s)) n =
     (case map_of (topics s) n of
        Some e \<Rightarrow> Some e
      | None \<Rightarrow> (case rti_announced n (d, ps) of [] \<Rightarrow> None | x # _ \<Rightarrow> Some x))"
proof (induction ps arbitrary: s)
  case (Cons p ps)
  show ?case
    using Cons by (auto simp: map_filter_simps rti_on_topic_discovered_def cache_topic_lookup
        split: option.splits dynamic_type.splits)
qed (simp add: map_filter_simps split: option.splits)

lemma rti_run_lookup:
  "map_of (topics (rti_run evs s)) n =
     (case map_of (topics s) n of
        Some e \<Rightarrow> Some e
      | None \<Rightarrow> (case concat (map (rti_announced n) evs) of [] \<Rightarrow> None | x # _ \<Rightarrow> Some x))"
proof (induction evs arbitrary: s)
  case (Cons ev evs)
  obtain d ps where ev: "ev = (d, ps)" by (cases ev)
  have "map_of (topics (rti_run (ev # evs) s)) n = map_of (topics (rti_run evs (rti_on_publications d ps s))) n"
    by (simp add: rti_run_def ev)
  then show ?case
    unfolding Cons rti_publications_lookup
    by (cases "map_of (topics s) n"; cases "rti_announced n (d, ps)") (simp_all add: ev del: rti_announced.simps)
qed (simp add: rti_run_def split: option.splits)

text \<open>No topic is listed twice.\<close>

lemma fastdds_run_wf: "dds_source_wf s \<Longrightarrow> dds_source_wf (fastdds_run evs s)"
proof (induction evs arbitrary: s)
  case (Cons ev evs)
  then show ?case by (cases ev) (simp add: fastdds_run_def fastdds_discovery_wf)
qed (simp add: fastdds_run_def)

lemma rti_publications_wf: "dds_source_wf s \<Longrightarrow> dds_source_wf (rti_on_publications d ps s)"
  by (induction d ps s rule: rti_on_publications.induct)
    (auto simp: rti_on_topic_discovered_def intro: cache_topic_wf split: option.splits dynamic_type.splits)

lemma rti_run_wf: "dds_source_wf s \<Longrightarrow> dds_source_wf (rti_run evs s)"
proof (induction evs arbitrary: s)
  case (Cons ev evs)
  then show ?case by (cases ev) (simp add: rti_run_def rti_publications_wf)
qed (simp add: rti_run_def)

lemma new_sources_wf: "dds_source_wf (fastdds_source mk ids)" "dds_source_wf (rti_source ids)"
proof -
  have "distinct ps \<Longrightarrow> distinct (fold (\<lambda>d ps. if mk d then List.insert d ps else ps) ids ps)" for ps
    by (induction ids arbitrary: ps) simp_all
  then show "dds_source_wf (fastdds_source mk ids)" by (simp add: dds_source_wf_def fastdds_source_def)
  have "distinct ps \<Longrightarrow> distinct (fold List.insert ids ps)" for ps by (induction ids arbitrary: ps) simp_all
  then show "dds_source_wf (rti_source ids)" by (simp add: dds_source_wf_def rti_source_def)
qed

section \<open>Properties\<close>

text \<open>
  A DDS topic is the first usable announcement: whatever announcements follow, on whatever
  domain, its type, schema and domain are those of the first writer discovered with a complete
  structure type, and it stays listed.
\<close>

theorem first_announcement_wins:
  "(case List.map_filter (announces n) evs of
      [] \<Rightarrow> fastdds_get_dynamic_type n (fastdds_run evs (fastdds_source mk ids)) = None \<and>
            fastdds_get_schema n (fastdds_run evs (fastdds_source mk ids)) = ''''
    | d # _ \<Rightarrow>
        fastdds_get_dynamic_type n (fastdds_run evs (fastdds_source mk ids)) = Some (type_name d) \<and>
        fastdds_get_schema n (fastdds_run evs (fastdds_source mk ids)) = schema_idl d \<and>
        fastdds_get_domain_id n (fastdds_run evs (fastdds_source mk ids)) = Some (topic_domain_id d) \<and>
        (n, type_name d) \<in> set (fastdds_get_topics ho (fastdds_run evs (fastdds_source mk ids))))"
proof -
  let ?s = "fastdds_run evs (fastdds_source mk ids)"
  have l: "map_of (topics ?s) n =
      (case List.map_filter (announces n) evs of [] \<Rightarrow> None | d # _ \<Rightarrow> Some d)"
    by (simp add: fastdds_run_lookup) (simp add: fastdds_source_def)
  then have "map_of (topics ?s) n = Some d \<Longrightarrow> (n, d) \<in> set (entries ho (topics ?s))" for d
    by (simp add: in_entries_iff)
  with l show ?thesis
    by (force simp: fastdds_get_dynamic_type_def fastdds_get_schema_def fastdds_get_domain_id_def
        fastdds_get_topics_def image_iff split: list.splits)
qed

text \<open>The schema of an unknown topic is the empty string, where the interface asks for an exception.\<close>

lemma fastdds_unknown_schema_empty:
  "fastdds_get_schema n (fastdds_source mk ids) = '''' \<and>
   rti_get_schema n (rti_source ids) = ''''"
  by (simp add: fastdds_get_schema_def fastdds_source_def rti_get_schema_def rti_source_def)

end
