(* ===== verification/Dds_Subscriptions.thy ===== *)
theory Dds_Subscriptions
  imports Subscription_Manager Dds_Discovery
begin

text \<open>
  The subscription managers of the two DDS backends: \<^verbatim>\<open>FastDdsSubscriptionManager\<close>
  (\<^verbatim>\<open>fastdds_subscription_manager.cpp\<close>) and \<^verbatim>\<open>DdsSubscriptionManager\<close>
  (\<^verbatim>\<open>dds_subscription_manager.cpp\<close>). Subscribing has a locked look-up, an unlocked creation of
  DDS entities and a locked insertion with a second look-up; the first and the last step are
  separate operations, so that another thread's call can run in between; so are the locked removal
  and the unlocked closing of an unsubscribe. The entities of Fast DDS are raw handles that the code
  must delete: the state lists those alive.
\<close>

section \<open>Fast DDS: entities\<close>

text \<open>
  What the creation of the entities of a topic meets: success, a null handle at one of the
  three steps, or an exception with the given number of entities already made.
\<close>

datatype creation = Created | No_Topic | No_Subscriber | No_Reader | Thrown nat

record fastdds_view =
  discovered :: dds_source
  creation :: "string \<Rightarrow> creation"

text \<open>\<^verbatim>\<open>SubscriptionInfo\<close> but for the count. The entities are raw pointers: numbers here.\<close>

record subscription_info =
  info_participant :: int
  info_topic :: nat
  info_subscriber :: nat
  info_reader :: nat

text \<open>
  Beside the map of the class, the library's side: the entities that are alive, a reader with the
  subscriber and the topic that it was created with, and how many deletions the library has
  refused or that were of an entity that was not alive.
\<close>

record fastdds_manager =
  fast_subscriptions :: "subscription_info ref_entry umap"
  next_entity :: nat
  live_topics :: "nat list"
  live_subscribers :: "nat list"
  live_readers :: "(nat \<times> nat \<times> nat) list"
  bad_deletes :: nat

definition new_fastdds_manager :: fastdds_manager where
  "new_fastdds_manager =
     \<lparr>fast_subscriptions = [], next_entity = 0, live_topics = [], live_subscribers = [], live_readers = [],
      bad_deletes = 0\<rparr>"

definition make_topic :: "fastdds_manager \<Rightarrow> nat \<times> fastdds_manager" where
  "make_topic m =
     (next_entity m, m\<lparr>next_entity := next_entity m + 1, live_topics := next_entity m # live_topics m\<rparr>)"

definition make_subscriber :: "fastdds_manager \<Rightarrow> nat \<times> fastdds_manager" where
  "make_subscriber m =
     (next_entity m, m\<lparr>next_entity := next_entity m + 1, live_subscribers := next_entity m # live_subscribers m\<rparr>)"

definition make_reader :: "nat \<Rightarrow> nat \<Rightarrow> fastdds_manager \<Rightarrow> nat \<times> fastdds_manager" where
  "make_reader s h m =
     (next_entity m, m\<lparr>next_entity := next_entity m + 1, live_readers := (next_entity m, s, h) # live_readers m\<rparr>)"

text \<open>A topic or a subscriber that a reader still uses is not deleted.\<close>

definition delete_topic :: "nat \<Rightarrow> fastdds_manager \<Rightarrow> fastdds_manager" where
  "delete_topic h m =
     (if h \<in> set (live_topics m) \<and> (\<forall>(r, s, h') \<in> set (live_readers m). h' \<noteq> h)
      then m\<lparr>live_topics := remove1 h (live_topics m)\<rparr> else m\<lparr>bad_deletes := bad_deletes m + 1\<rparr>)"

definition delete_subscriber :: "nat \<Rightarrow> fastdds_manager \<Rightarrow> fastdds_manager" where
  "delete_subscriber s m =
     (if s \<in> set (live_subscribers m) \<and> (\<forall>(r, s', h) \<in> set (live_readers m). s' \<noteq> s)
      then m\<lparr>live_subscribers := remove1 s (live_subscribers m)\<rparr> else m\<lparr>bad_deletes := bad_deletes m + 1\<rparr>)"

text \<open>A reader is deleted by the subscriber that created it.\<close>

definition delete_datareader :: "nat \<Rightarrow> nat \<Rightarrow> fastdds_manager \<Rightarrow> fastdds_manager" where
  "delete_datareader s r m =
     (if \<exists>(r', s', h) \<in> set (live_readers m). r' = r \<and> s' = s
      then m\<lparr>live_readers := filter (\<lambda>(r', s', h). r' \<noteq> r) (live_readers m)\<rparr>
      else m\<lparr>bad_deletes := bad_deletes m + 1\<rparr>)"

text \<open>The three calls return codes that the code ignores; that they do not throw is assumed.\<close>

definition close_subscription :: "subscription_info \<Rightarrow> fastdds_manager \<Rightarrow> fastdds_manager" where
  "close_subscription i m =
     delete_topic (info_topic i)
       (delete_subscriber (info_subscriber i) (delete_datareader (info_subscriber i) (info_reader i) m))"

section \<open>Fast DDS: operations\<close>

text \<open>Phase 1: \<open>Some\<close> when the topic was already subscribed.\<close>

definition fastdds_find :: "string \<Rightarrow> fastdds_manager \<Rightarrow> fastdds_manager option" where
  "fastdds_find t m =
     (case map_of (fast_subscriptions m) t of
        Some e \<Rightarrow> Some (m\<lparr>fast_subscriptions := ref_increment t e (fast_subscriptions m)\<rparr>)
      | None \<Rightarrow> None)"

text \<open>Phase 2, without the lock: \<open>None\<close> when the subscribe fails.\<close>

definition fastdds_make :: "fastdds_view \<Rightarrow> string \<Rightarrow> fastdds_manager \<Rightarrow> subscription_info option \<times> fastdds_manager" where
  "fastdds_make v t m =
     (case fastdds_get_dynamic_type t (discovered v) of
        None \<Rightarrow> (None, m)
      | Some _ \<Rightarrow>
        case fastdds_get_domain_id t (discovered v) of
          None \<Rightarrow> (None, m)
        | Some domain \<Rightarrow>
          case fastdds_get_participant domain (discovered v) of
            None \<Rightarrow> (None, m)
          | Some participant \<Rightarrow>
            if creation v t = No_Topic \<or> creation v t = Thrown 0 then (None, m)
            else
              let (h, m1) = make_topic m
              in if creation v t = Thrown 1 then (None, m1)
                 else if creation v t = No_Subscriber then (None, delete_topic h m1)
                 else
                   let (s, m2) = make_subscriber m1
                   in case creation v t of
                        No_Reader \<Rightarrow> (None, delete_topic h (delete_subscriber s m2))
                      | Created \<Rightarrow>
                          let (r, m3) = make_reader s h m2
                          in (Some \<lparr>info_participant = participant, info_topic = h, info_subscriber = s,
                                    info_reader = r\<rparr>, m3)
                      | _ \<Rightarrow> (None, m2))"

text \<open>Phase 3: if another thread was faster, the entities are closed again, within the lock.\<close>

definition fastdds_insert :: "string \<Rightarrow> subscription_info \<Rightarrow> fastdds_manager \<Rightarrow> fastdds_manager" where
  "fastdds_insert t i m =
     (case map_of (fast_subscriptions m) t of
        Some e \<Rightarrow> close_subscription i (m\<lparr>fast_subscriptions := ref_increment t e (fast_subscriptions m)\<rparr>)
      | None \<Rightarrow>
          m\<lparr>fast_subscriptions := AList.update t \<lparr>reference_count = 1, entry = i\<rparr> (fast_subscriptions m)\<rparr>)"

definition fastdds_create :: "fastdds_view \<Rightarrow> string \<Rightarrow> fastdds_manager \<Rightarrow> bool \<times> fastdds_manager" where
  "fastdds_create v t m =
     (case fastdds_make v t m of
        (None, m') \<Rightarrow> (False, m')
      | (Some i, m') \<Rightarrow> (True, fastdds_insert t i m'))"

definition fastdds_subscribe ::
    "fastdds_view \<Rightarrow> string \<Rightarrow> string \<Rightarrow> fastdds_manager \<Rightarrow> bool \<times> fastdds_manager" where
  "fastdds_subscribe v t ty m =
     (case fastdds_find t m of Some m' \<Rightarrow> (True, m') | None \<Rightarrow> fastdds_create v t m)"

text \<open>
  The locked part of \<^verbatim>\<open>unsubscribe\<close>: the last reference takes the entry out of the map. What it
  returns to close is closed after the lock is released.
\<close>

definition fastdds_release :: "string \<Rightarrow> fastdds_manager \<Rightarrow> bool \<times> subscription_info option \<times> fastdds_manager" where
  "fastdds_release t m =
     (case map_of (fast_subscriptions m) t of
        None \<Rightarrow> (False, None, m)
      | Some e \<Rightarrow>
          if reference_count e = 0 then (False, None, m)
          else let e' = e\<lparr>reference_count := reference_count e - 1\<rparr>
               in if reference_count e' = 0
                  then (True, Some (entry e'), m\<lparr>fast_subscriptions := AList.delete t (fast_subscriptions m)\<rparr>)
                  else (True, None, m\<lparr>fast_subscriptions := AList.update t e' (fast_subscriptions m)\<rparr>))"

definition fastdds_unsubscribe :: "string \<Rightarrow> fastdds_manager \<Rightarrow> bool \<times> fastdds_manager" where
  "fastdds_unsubscribe t m =
     (let (ok, to_close, m') = fastdds_release t m
      in (ok, case to_close of None \<Rightarrow> m' | Some i \<Rightarrow> close_subscription i m'))"

text \<open>
  \<^verbatim>\<open>unsubscribe_all\<close> swaps the map with an empty one under the lock and closes the
  subscriptions afterwards, in whatever order the map is walked.
\<close>

definition fastdds_take_all :: "hash_order \<Rightarrow> fastdds_manager \<Rightarrow> subscription_info list \<times> fastdds_manager" where
  "fastdds_take_all ho m =
     (map (entry \<circ> snd) (entries ho (fast_subscriptions m)), m\<lparr>fast_subscriptions := []\<rparr>)"

definition fastdds_unsubscribe_all :: "hash_order \<Rightarrow> fastdds_manager \<Rightarrow> fastdds_manager" where
  "fastdds_unsubscribe_all ho m =
     (let (to_close, m') = fastdds_take_all ho m in fold close_subscription to_close m')"

definition fastdds_ops :: "fastdds_view \<Rightarrow> fastdds_manager sm_ops" where
  "fastdds_ops v =
     \<lparr>sm_subscribe = fastdds_subscribe v, sm_unsubscribe = fastdds_unsubscribe,
      sm_unsubscribe_all = fastdds_unsubscribe_all insertion_order,
      sm_is_transient_local = default_is_transient_local, sm_is_subscribed = default_is_subscribed\<rparr>"

section \<open>RTI Connext\<close>

text \<open>
  The entities are reference-counted objects of the library that close themselves; a
  constructor that fails throws. What the library does is whether creation succeeds.
\<close>

record rti_view =
  rti_discovered :: dds_source
  rti_can_create :: "string \<Rightarrow> bool"

record rti_manager =
  rti_subscriptions :: "unit ref_entry umap"
  rti_live_readers :: "string list"

definition new_rti_manager :: rti_manager where
  "new_rti_manager = \<lparr>rti_subscriptions = [], rti_live_readers = []\<rparr>"

definition close_reader :: "string \<Rightarrow> rti_manager \<Rightarrow> rti_manager" where
  "close_reader t m = m\<lparr>rti_live_readers := remove1 t (rti_live_readers m)\<rparr>"

definition rti_find :: "string \<Rightarrow> rti_manager \<Rightarrow> rti_manager option" where
  "rti_find t m =
     (case map_of (rti_subscriptions m) t of
        Some e \<Rightarrow> Some (m\<lparr>rti_subscriptions := ref_increment t e (rti_subscriptions m)\<rparr>)
      | None \<Rightarrow> None)"

definition rti_create :: "rti_view \<Rightarrow> string \<Rightarrow> rti_manager \<Rightarrow> bool \<times> rti_manager" where
  "rti_create v t m =
     (case rti_get_type t (rti_discovered v) of
        None \<Rightarrow> (False, m)
      | Some _ \<Rightarrow>
        case rti_get_domain_id t (rti_discovered v) of
          None \<Rightarrow> (False, m)
        | Some domain \<Rightarrow>
          case rti_get_participant domain (rti_discovered v) of
            None \<Rightarrow> (False, m)
          | Some participant \<Rightarrow>
            if \<not> rti_can_create v t then (False, m)
            else let m1 = m\<lparr>rti_live_readers := t # rti_live_readers m\<rparr>
                 in (case map_of (rti_subscriptions m1) t of
                       Some e \<Rightarrow>
                         (True, close_reader t
                            (m1\<lparr>rti_subscriptions := ref_increment t e (rti_subscriptions m1)\<rparr>))
                     | None \<Rightarrow>
                         (True, m1\<lparr>rti_subscriptions :=
                            AList.update t \<lparr>reference_count = 1, entry = ()\<rparr> (rti_subscriptions m1)\<rparr>)))"

definition rti_subscribe :: "rti_view \<Rightarrow> string \<Rightarrow> string \<Rightarrow> rti_manager \<Rightarrow> bool \<times> rti_manager" where
  "rti_subscribe v t ty m =
     (case rti_find t m of Some m' \<Rightarrow> (True, m') | None \<Rightarrow> rti_create v t m)"

definition rti_unsubscribe :: "string \<Rightarrow> rti_manager \<Rightarrow> bool \<times> rti_manager" where
  "rti_unsubscribe t m =
     (case map_of (rti_subscriptions m) t of
        None \<Rightarrow> (False, m)
      | Some e \<Rightarrow>
          if reference_count e = 0 then (False, m)
          else let e' = e\<lparr>reference_count := reference_count e - 1\<rparr>
               in if reference_count e' = 0
                  then (True, close_reader t
                     (m\<lparr>rti_subscriptions := AList.delete t (rti_subscriptions m)\<rparr>))
                  else (True, m\<lparr>rti_subscriptions := AList.update t e' (rti_subscriptions m)\<rparr>))"

definition rti_unsubscribe_all :: "hash_order \<Rightarrow> rti_manager \<Rightarrow> rti_manager" where
  "rti_unsubscribe_all ho m =
     fold (\<lambda>(t, e). close_reader t) (entries ho (rti_subscriptions m)) (m\<lparr>rti_subscriptions := []\<rparr>)"

definition rti_ops :: "rti_view \<Rightarrow> rti_manager sm_ops" where
  "rti_ops v =
     \<lparr>sm_subscribe = rti_subscribe v, sm_unsubscribe = rti_unsubscribe,
      sm_unsubscribe_all = rti_unsubscribe_all insertion_order,
      sm_is_transient_local = default_is_transient_local, sm_is_subscribed = default_is_subscribed\<rparr>"

section \<open>Receiving samples\<close>

text \<open>
  \<^verbatim>\<open>on_data_available\<close>: a sample without data is skipped, and in Fast DDS one that cannot be
  serialized again. The timestamp is the source time; the seconds are a signed 32-bit number
  that is cast before the multiplication.
\<close>

definition source_time_ns :: "32 word \<Rightarrow> u32 \<Rightarrow> u64" where
  "source_time_ns seconds nanosec = scast seconds * 1000000000 + ucast nanosec"

record dds_sample =
  valid_data :: bool
  cdr :: "bytes option"
  seconds :: "32 word"
  nanosec :: u32

fun fastdds_on_data_available :: "bool \<Rightarrow> string \<Rightarrow> dds_sample list \<Rightarrow> (string \<times> bytes \<times> u64) list" where
  "fastdds_on_data_available has_callback t [] = []"
| "fastdds_on_data_available has_callback t (s # ss) =
     (if \<not> has_callback then []
      else if \<not> valid_data s then fastdds_on_data_available has_callback t ss
      else case cdr s of
             None \<Rightarrow> fastdds_on_data_available has_callback t ss
           | Some d \<Rightarrow> (t, d, source_time_ns (seconds s) (nanosec s))
                       # fastdds_on_data_available has_callback t ss)"

fun rti_on_data_available :: "bool \<Rightarrow> string \<Rightarrow> dds_sample list \<Rightarrow> (string \<times> bytes \<times> u64) list" where
  "rti_on_data_available has_callback t [] = []"
| "rti_on_data_available has_callback t (s # ss) =
     (if \<not> has_callback then []
      else if \<not> valid_data s then rti_on_data_available has_callback t ss
      else (t, (case cdr s of None \<Rightarrow> [] | Some d \<Rightarrow> d), source_time_ns (seconds s) (nanosec s))
           # rti_on_data_available has_callback t ss)"

section \<open>Both backends count references\<close>

definition fastdds_wf :: "fastdds_manager \<Rightarrow> bool" where
  "fastdds_wf m = ref_map_wf (fast_subscriptions m)"

definition fastdds_refs :: "fastdds_manager \<Rightarrow> string \<Rightarrow> nat" where
  "fastdds_refs m = ref_of (fast_subscriptions m)"

definition rti_wf :: "rti_manager \<Rightarrow> bool" where
  "rti_wf m = ref_map_wf (rti_subscriptions m)"

definition rti_refs :: "rti_manager \<Rightarrow> string \<Rightarrow> nat" where
  "rti_refs m = ref_of (rti_subscriptions m)"

lemma delete_fields [simp]:
  "fast_subscriptions (delete_topic h m) = fast_subscriptions m"
  "fast_subscriptions (delete_subscriber s m) = fast_subscriptions m"
  "fast_subscriptions (delete_datareader s r m) = fast_subscriptions m"
  by (simp_all add: delete_topic_def delete_subscriber_def delete_datareader_def)

lemma close_subscription_fields [simp]:
  "fast_subscriptions (close_subscription i m) = fast_subscriptions m"
  by (simp add: close_subscription_def)

lemma fold_close_subscription [simp]:
  "fast_subscriptions (fold close_subscription is m) = fast_subscriptions m"
  by (induction "is" arbitrary: m) simp_all

lemmas fastdds_entity_defs = make_topic_def make_subscriber_def make_reader_def

lemma fastdds_make_map [simp]: "fast_subscriptions (snd (fastdds_make v t m)) = fast_subscriptions m"
  by (auto simp: fastdds_make_def fastdds_entity_defs Let_def split: option.splits creation.splits)

lemma fastdds_unsubscribe_map:
  "fastdds_unsubscribe t m = (ok, m') \<Longrightarrow>
     ref_unsubscribe t (fast_subscriptions m) = (ok, fast_subscriptions m')"
  by (auto simp: fastdds_unsubscribe_def fastdds_release_def ref_unsubscribe_def Let_def
      split: option.splits if_splits)

lemma rti_unsubscribe_map:
  "rti_unsubscribe t m = (ok, m') \<Longrightarrow>
     ref_unsubscribe t (rti_subscriptions m) = (ok, rti_subscriptions m')"
  by (auto simp: rti_unsubscribe_def ref_unsubscribe_def close_reader_def Let_def
      split: option.splits if_splits)

lemma fold_close_reader:
  "rti_subscriptions (fold (\<lambda>(t, e). close_reader t) es m) = rti_subscriptions m"
  by (induction es arbitrary: m) (auto simp: close_reader_def)

lemma fastdds_subscribe_map:
  assumes "fastdds_subscribe v t ty m = (ok, m')"
  shows "\<exists>i. fast_subscriptions m' =
    (if \<not> ok then fast_subscriptions m
     else case map_of (fast_subscriptions m) t of
            Some e \<Rightarrow> ref_increment t e (fast_subscriptions m)
          | None \<Rightarrow> AList.update t \<lparr>reference_count = 1, entry = i\<rparr> (fast_subscriptions m)) \<and>
    (map_of (fast_subscriptions m) t \<noteq> None \<longrightarrow> ok)"
proof -
  have "fast_subscriptions (snd (fastdds_make v t m)) = fast_subscriptions m" by simp
  with assms show ?thesis
    by (cases "fastdds_make v t m")
      (auto simp: fastdds_subscribe_def fastdds_find_def fastdds_create_def fastdds_insert_def split: option.splits)
qed

lemma rti_subscribe_map:
  assumes "rti_subscribe v t ty m = (ok, m')"
  shows "rti_subscriptions m' =
    (if \<not> ok then rti_subscriptions m
     else case map_of (rti_subscriptions m) t of
            Some e \<Rightarrow> ref_increment t e (rti_subscriptions m)
          | None \<Rightarrow> AList.update t \<lparr>reference_count = 1, entry = ()\<rparr> (rti_subscriptions m)) \<and>
    (map_of (rti_subscriptions m) t \<noteq> None \<longrightarrow> ok)"
  using assms
  by (auto simp: rti_subscribe_def rti_find_def rti_create_def Let_def split: option.splits if_splits)

text \<open>The effect of a subscribe on the counts, from its effect on the map.\<close>

lemma ref_subscribe_correct:
  assumes "ref_map_wf m"
    and "m' = (if \<not> ok then m else case map_of m t of
           Some e \<Rightarrow> ref_increment t e m
         | None \<Rightarrow> AList.update t \<lparr>reference_count = 1, entry = x\<rparr> m)"
  shows "ref_map_wf m' \<and> ref_of m' = (if ok then (ref_of m)(t := Suc (ref_of m t)) else ref_of m)"
  using assms ref_increment_correct [OF assms(1)]
  by (auto simp: ref_update_wf ref_of_update ref_of_def [of m t] split: option.splits)

interpretation fastdds: ref_counted_manager fastdds_ops fastdds_wf fastdds_refs
proof unfold_locales
  fix b b' :: fastdds_manager and g t ty ok
  assume wf: "fastdds_wf b"
  { assume "sm_subscribe (fastdds_ops g) t ty b = (ok, b')"
    then have "fastdds_subscribe g t ty b = (ok, b')" by (simp add: fastdds_ops_def)
    with fastdds_subscribe_map [OF this] wf
    show "fastdds_wf b' \<and> fastdds_refs b' = (if ok then (fastdds_refs b)(t := Suc (fastdds_refs b t)) else fastdds_refs b)"
      unfolding fastdds_wf_def fastdds_refs_def by (elim exE conjE) (rule ref_subscribe_correct) }
  { assume "0 < fastdds_refs b t"
    then have "map_of (fast_subscriptions b) t \<noteq> None"
      using wf by (simp add: fastdds_refs_def fastdds_wf_def ref_of_pos_iff)
    then show "fst (sm_subscribe (fastdds_ops g) t ty b)"
      using fastdds_subscribe_map [OF surjective_pairing, of g t ty b] by (auto simp: fastdds_ops_def) }
  { assume "sm_unsubscribe (fastdds_ops g) t b = (ok, b')"
    then have "ref_unsubscribe t (fast_subscriptions b) = (ok, fast_subscriptions b')"
      by (simp add: fastdds_ops_def fastdds_unsubscribe_map)
    with wf show "fastdds_wf b' \<and> fastdds_refs b' = (fastdds_refs b)(t := fastdds_refs b t - 1) \<and>
        ok = (0 < fastdds_refs b t)"
      unfolding fastdds_wf_def fastdds_refs_def by (intro ref_unsubscribe_correct) }
  show "fastdds_wf (sm_unsubscribe_all (fastdds_ops g) b) \<and>
      fastdds_refs (sm_unsubscribe_all (fastdds_ops g) b) = (\<lambda>_. 0)"
    by (simp add: fastdds_ops_def fastdds_unsubscribe_all_def fastdds_take_all_def fastdds_wf_def fastdds_refs_def
        ref_of_def fun_eq_iff)
  show "\<not> sm_is_subscribed (fastdds_ops g) t b"
    by (simp add: fastdds_ops_def default_is_subscribed_def)
qed

interpretation rti: ref_counted_manager rti_ops rti_wf rti_refs
proof unfold_locales
  fix b b' :: rti_manager and g t ty ok
  assume wf: "rti_wf b"
  { assume "sm_subscribe (rti_ops g) t ty b = (ok, b')"
    then have "rti_subscribe g t ty b = (ok, b')" by (simp add: rti_ops_def)
    from rti_subscribe_map [OF this] wf
    show "rti_wf b' \<and> rti_refs b' = (if ok then (rti_refs b)(t := Suc (rti_refs b t)) else rti_refs b)"
      unfolding rti_wf_def rti_refs_def by (intro ref_subscribe_correct) auto }
  { assume "0 < rti_refs b t"
    then have "map_of (rti_subscriptions b) t \<noteq> None"
      using wf by (simp add: rti_refs_def rti_wf_def ref_of_pos_iff)
    then show "fst (sm_subscribe (rti_ops g) t ty b)"
      using rti_subscribe_map [OF surjective_pairing, of g t ty b] by (simp add: rti_ops_def) }
  { assume "sm_unsubscribe (rti_ops g) t b = (ok, b')"
    then have "ref_unsubscribe t (rti_subscriptions b) = (ok, rti_subscriptions b')"
      by (simp add: rti_ops_def rti_unsubscribe_map)
    with wf show "rti_wf b' \<and> rti_refs b' = (rti_refs b)(t := rti_refs b t - 1) \<and> ok = (0 < rti_refs b t)"
      unfolding rti_wf_def rti_refs_def by (intro ref_unsubscribe_correct) }
  show "rti_wf (sm_unsubscribe_all (rti_ops g) b) \<and> rti_refs (sm_unsubscribe_all (rti_ops g) b) = (\<lambda>_. 0)"
    by (simp add: rti_ops_def rti_unsubscribe_all_def rti_wf_def rti_refs_def fold_close_reader
        ref_of_def fun_eq_iff)
  show "\<not> sm_is_subscribed (rti_ops g) t b"
    by (simp add: rti_ops_def default_is_subscribed_def)
qed

section \<open>Properties\<close>

definition one_topic_view :: fastdds_view where
  "one_topic_view =
     \<lparr>discovered = \<lparr>topics = [(''t'', \<lparr>type_name = ''T'', schema_idl = ''struct T {};'', topic_domain_id = 0\<rparr>)],
                    participants = [0]\<rparr>,
      creation = \<lambda>_. Created\<rparr>"

text \<open>
  The two DDS backends keep the references of a topic exactly: a subscribe that succeeds
  adds one and one that fails changes nothing, a topic already subscribed is joined without
  consulting DDS, and an unsubscribe takes one away and says whether there was one.
\<close>

theorem dds_reference_counting:
  assumes "fastdds_wf m" and "rti_wf n"
  shows "(case fastdds_subscribe v t ty m of (ok, m') \<Rightarrow>
            fastdds_refs m' = (if ok then (fastdds_refs m)(t := fastdds_refs m t + 1) else fastdds_refs m) \<and>
            (ok \<or> fastdds_refs m t = 0)) \<and>
         (case fastdds_unsubscribe t m of (ok, m') \<Rightarrow>
            fastdds_refs m' = (fastdds_refs m)(t := fastdds_refs m t - 1) \<and> ok = (0 < fastdds_refs m t)) \<and>
         (case rti_subscribe w t ty n of (ok, n') \<Rightarrow>
            rti_refs n' = (if ok then (rti_refs n)(t := rti_refs n t + 1) else rti_refs n) \<and>
            (ok \<or> rti_refs n t = 0)) \<and>
         (case rti_unsubscribe t n of (ok, n') \<Rightarrow>
            rti_refs n' = (rti_refs n)(t := rti_refs n t - 1) \<and> ok = (0 < rti_refs n t))"
  using fastdds.subscribe_law [OF assms(1), of v t ty, OF surjective_pairing]
    fastdds.subscribe_shared [OF assms(1), of t v ty]
    fastdds.unsubscribe_law [OF assms(1), of v t, OF surjective_pairing]
    rti.subscribe_law [OF assms(2), of w t ty, OF surjective_pairing]
    rti.subscribe_shared [OF assms(2), of t w ty]
    rti.unsubscribe_law [OF assms(2), of w t, OF surjective_pairing]
  by (simp add: fastdds_ops_def rti_ops_def case_prod_beta) blast

theorem dds_reference_counting_witness:
  "case fastdds_subscribe one_topic_view ''t'' ''T'' new_fastdds_manager of (ok, m') \<Rightarrow>
     fastdds_refs m' = (if ok then (fastdds_refs new_fastdds_manager)(''t'' := fastdds_refs new_fastdds_manager ''t'' + 1)
                        else fastdds_refs new_fastdds_manager) \<and>
     (ok \<or> fastdds_refs new_fastdds_manager ''t'' = 0)"
  using dds_reference_counting [where m = new_fastdds_manager and n = new_rti_manager
      and v = one_topic_view and t = "''t''" and ty = "''T''"
      and w = "\<lparr>rti_discovered = discovered one_topic_view, rti_can_create = \<lambda>_. True\<rparr>"]
  by (simp add: fastdds_wf_def rti_wf_def new_fastdds_manager_def new_rti_manager_def case_prod_beta)

end
