(* ===== verification/Server_Properties.thy ===== *)
theory Server_Properties
  imports Server_Invariants Ros2_Subscriptions Dds_Subscriptions
begin

text \<open>
  The server as a state machine: its steps are the calls of the event loop, the callbacks of
  the connections and the ingest of messages, in any order. The invariant holds in every
  reachable state, for each of the three backends.
\<close>

section \<open>What the handlers leave alone\<close>

text \<open>
  A view of the server that does not depend on the sessions, the backend, the buffer and the
  pending replays, nor on a disconnection, is not changed by any request.
\<close>

locale handler_frame =
  fixes f :: "('b, 're) server \<Rightarrow> 'v"
  assumes f_sess: "f (s\<lparr>sess := m\<rparr>) = f s"
    and f_backend: "f (s\<lparr>backend := b\<rparr>) = f s"
    and f_buf: "f (s\<lparr>buf := x\<rparr>) = f s"
    and f_replays: "f (s\<lparr>pending_replays := p\<rparr>) = f s"
    and f_closed: "f (client_closed e c s) = f s"
begin

lemmas f_updates [frame_simps] = f_sess f_backend f_buf f_replays f_closed

lemma release_f [frame_simps]: "f (release_subscription_ref e t s) = f s"
  by (simp add: release_subscription_ref_def Let_def f_updates)

lemma lock_cleanup_f [frame_simps]: "f (lock_cleanup e s) = f s"
proof -
  have "f (fold (client_closed e) cs s) = f s" for cs
    by (induction cs arbitrary: s) (simp_all add: f_updates)
  then show ?thesis by (simp add: lock_cleanup_def)
qed

lemma touch_f [frame_simps]: "f (touch_session e c s) = f s"
  by (simp add: touch_session_def Let_def f_updates)

lemma collect_f [frame_simps]: "f (snd (collect_latched_replay e c t s)) = f s"
  by (simp add: collect_latched_replay_def Let_def f_updates split: option.splits sum.splits)

lemma release_held_f [frame_simps]: "f (release_held e c ts s) = f s"
  by (induction ts arbitrary: s) (simp_all add: Let_def frame_simps)

lemma unsubscribe_loop_f [frame_simps]:
  "f (snd (unsubscribe_loop e c held js current removed s)) = f s"
  by (induction js arbitrary: current removed s) (auto simp: Let_def frame_simps split: option.splits)

lemma reacquire_loop_f [frame_simps]:
  "f (snd (reacquire_loop e c held types ts failed s)) = f s"
proof (induction ts arbitrary: failed s)
  case (Cons t ts)
  have "collect_latched_replay e c t x = (r, y) \<Longrightarrow> f y = f x" for x r y
    using collect_f [of e c t x] by simp
  note step = this
  from Cons show ?case
    by (auto simp: Let_def frame_simps split: option.splits prod.splits dest!: step)
qed simp

lemma acquire_loop_f [frame_simps]:
  "f (snd (acquire_loop e c p requested xs schemas failures s)) = f s"
proof (induction xs arbitrary: schemas failures s)
  case (Cons x xs)
  obtain t ty schema where x: "x = (t, ty, schema)" by (cases x)
  have step: "collect_latched_replay e c t x = (r, y) \<Longrightarrow> f y = f x" for x r y
    using collect_f [of e c t x] by simp
  from Cons show ?case
    by (auto simp: x Let_def frame_simps split: option.splits prod.splits if_splits dest!: step)
qed simp

lemma handlers_f [frame_simps]:
  "f (snd (handle_get_topics e c req s)) = f s"
  "f (snd (handle_heartbeat e c req s)) = f s"
  "f (snd (handle_subscribe_topic_updates e c req s)) = f s"
  "f (snd (handle_unsubscribe_topic_updates e c req s)) = f s"
  "f (snd (handle_pause e c req s)) = f s"
  by (simp_all add: handle_get_topics_def handle_heartbeat_def handle_subscribe_topic_updates_def
      handle_unsubscribe_topic_updates_def handle_pause_def Let_def frame_simps)

lemma handle_unsubscribe_f [frame_simps]:
  "f (snd (handle_unsubscribe e c req s)) = f s"
  by (simp add: handle_unsubscribe_def Let_def case_prod_beta frame_simps split: option.splits)

lemma handle_resume_f [frame_simps]:
  "f (snd (handle_resume e c req s)) = f s"
proof -
  have "reacquire_loop e c held types ts failed x = (r, y) \<Longrightarrow> f y = f x"
    for held types ts failed x r y
    using reacquire_loop_f [of e c held types ts failed x] by simp
  note step = this
  show ?thesis
    by (auto simp: handle_resume_def Let_def frame_simps split: prod.splits sum.splits dest!: step)
qed

lemma handle_subscribe_f [frame_simps]:
  "f (snd (handle_subscribe e c req s)) = f s"
proof -
  have "acquire_loop e c p requested xs sch fl x = (r, y) \<Longrightarrow> f y = f x"
    for p requested xs sch fl x r y
    using acquire_loop_f [of e c p requested xs sch fl x] by simp
  note step = this
  show ?thesis
    by (auto simp: handle_subscribe_def Let_def frame_simps
        split: option.splits prod.splits sum.splits dest!: step)
qed

lemma dispatch_f [frame_simps]: "f (snd (dispatch e c req s)) = f s"
  by (simp add: dispatch_def frame_simps split: option.splits)

lemma handle_request_f [frame_simps]: "f (snd (handle_request e c d s)) = f s"
  by (cases "json_parse e d")
    (auto simp: handle_request_def Let_def case_prod_beta frame_simps split: sum.splits exn.splits)

end

section \<open>Configuration is fixed\<close>

interpretation config: handler_frame config_of
  by unfold_locales (simp_all add: frame_simps)

lemma send_replays_config [frame_simps]: "config_of (send_replays e c fs s) = config_of s"
  by (induction fs arbitrary: s) (simp_all add: frame_simps)

lemma process_single_config [frame_simps]:
  "config_of (snd (process_single_request e d c s)) = config_of s"
proof -
  have step: "handle_request e c d s = (r, y) \<Longrightarrow> config_of y = config_of s"
      "reply_to e c z x = (k, y) \<Longrightarrow> config_of y = config_of x" for r y z x k
    using config.handle_request_f [of e c d s] send_config(1) [of e c z x] by simp_all
  show ?thesis
    by (auto simp: process_single_request_def Let_def frame_simps split: prod.splits option.splits
        dest!: step)
qed

lemma request_loop_config [frame_simps]:
  "config_of (snd (request_loop n envs any s)) = config_of s"
proof (induction n arbitrary: envs any s)
  case (Suc n)
  have step: "process_single_request e d c x = (r, y) \<Longrightarrow> config_of y = config_of x" for e d c x r y
    using process_single_config [of e d c x] by simp
  from Suc show ?case
    by (auto simp: frame_simps split: prod.splits option.splits bool.splits dest!: step)
qed simp

lemma notify_config [frame_simps]: "config_of (snd (notify_clients e cs plain ws cache s)) = config_of s"
  by (induction e cs plain ws cache s rule: notify_clients.induct)
    (auto simp: frame_simps split: option.splits)

lemma send_to_clients_config [frame_simps]:
  "config_of (snd (send_to_clients e ps f cs any s)) = config_of s"
  by (induction cs arbitrary: any s) (simp_all add: case_prod_beta Let_def frame_simps)

lemma send_frames_config [frame_simps]: "config_of (snd (send_frames e ps fs tot s)) = config_of s"
  by (induction fs arbitrary: tot s) (simp_all add: case_prod_beta Let_def frame_simps)

lemma add_stats_config [frame_simps]: "config_of (add_stats tot s) = config_of s"
  by (simp add: add_stats_def config_of_def)

lemma event_loop_config [frame_simps]:
  "config_of (snd (process_requests envs s)) = config_of s"
  "config_of (check_session_timeouts e s) = config_of s"
  "config_of (snd (check_topic_changes e s)) = config_of s"
  "config_of (publish_aggregated_messages e s) = config_of s"
  by (simp_all add: process_requests_def check_session_timeouts_def fold_cleanup_config
      check_topic_changes_def publish_aggregated_messages_def Let_def case_prod_beta frame_simps
      split: option.splits prod.splits)

section \<open>Steps and reachable states\<close>

text \<open>One step; \<open>ok\<close> is what is known of the surroundings that a call finds.\<close>

inductive env_step :: "(('b, 're) env \<Rightarrow> bool) \<Rightarrow> ('b, 're) server \<Rightarrow> ('b, 're) server \<Rightarrow> bool"
  for ok where
  initialize: "env_step ok s (snd (initialize l s))"
| ingest: "env_step ok s (on_ingest now1 now2 t ts d s)"
| opened: "env_step ok s (s\<lparr>mw := on_open listed c (mw s)\<rparr>)"
| closed: "ok e \<Longrightarrow> env_step ok s (client_closed e c s)"
| message: "env_step ok s (s\<lparr>mw := on_message c binary d (mw s)\<rparr>)"
| requests: "\<forall>i. ok (envs i) \<Longrightarrow> env_step ok s (snd (process_requests envs s))"
| publish: "ok e \<Longrightarrow> env_step ok s (publish_aggregated_messages e s)"
| timeouts: "ok e \<Longrightarrow> env_step ok s (check_session_timeouts e s)"
| topics: "ok e \<Longrightarrow> env_step ok s (snd (check_topic_changes e s))"
| stats: "env_step ok s (snd (snapshot_and_reset_stats s))"
| stop: "env_step ok s (s\<lparr>mw := shutdown (mw s)\<rparr>)"

text \<open>The steps of a server on a given kind of backend.\<close>

abbreviation server_step :: "('g \<Rightarrow> 'b sm_ops) \<Rightarrow> ('b, 're) server \<Rightarrow> ('b, 're) server \<Rightarrow> bool" where
  "server_step ops \<equiv> env_step (uses ops)"

definition server_reachable ::
    "('g \<Rightarrow> 'b sm_ops) \<Rightarrow> 'b \<Rightarrow> middleware \<Rightarrow> 're server_config \<Rightarrow> ('b, 're) server \<Rightarrow> bool" where
  "server_reachable ops b m cfg s = (server_step ops)\<^sup>*\<^sup>* (new_server b m cfg) s"

text \<open>Before initialization there is no session.\<close>

definition idle :: "('b, 're) server \<Rightarrow> bool" where
  "idle s \<longleftrightarrow> (\<not> initialized s \<longrightarrow> sessions (sess s) = [])"

lemma idle_config:
  assumes "idle s" "config_of s' = config_of s" "\<not> initialized s \<Longrightarrow> sessions (sess s') = []"
  shows "idle s'"
  using assms config_of_initialized [OF assms(2)] by (simp add: idle_def)

lemma client_closed_no_sessions:
  "sessions (sess s) = [] \<Longrightarrow> sessions (sess (client_closed e c s)) = []"
  using client_closed_sess [of e c s] by (auto simp: remove_session_def)

lemma uninitialized_event_loop:
  assumes "\<not> initialized s"
  shows "snd (process_requests envs s) = s" "publish_aggregated_messages e s = s"
    "check_session_timeouts e s = s" "snd (check_topic_changes e s) = s"
  using assms
  by (simp_all add: process_requests_def publish_aggregated_messages_def check_session_timeouts_def
      check_topic_changes_def)

lemma idle_event_loop:
  assumes "idle s"
  shows "idle (snd (process_requests envs s))" "idle (publish_aggregated_messages e s)"
    "idle (check_session_timeouts e s)" "idle (snd (check_topic_changes e s))"
    "idle (client_closed e c s)"
proof -
  have "sessions (sess s) = []" if "\<not> initialized s" using assms that by (simp add: idle_def)
  note none = this
  show "idle (snd (process_requests envs s))"
    by (rule idle_config [OF assms event_loop_config(1)])
      (simp add: uninitialized_event_loop none)
  show "idle (publish_aggregated_messages e s)"
    by (rule idle_config [OF assms event_loop_config(4)])
      (simp add: uninitialized_event_loop none)
  show "idle (check_session_timeouts e s)"
    by (rule idle_config [OF assms event_loop_config(2)])
      (simp add: uninitialized_event_loop none)
  show "idle (snd (check_topic_changes e s))"
    by (rule idle_config [OF assms event_loop_config(3)])
      (simp add: uninitialized_event_loop none)
  show "idle (client_closed e c s)"
    by (rule idle_config [OF assms client_closed_config]) (rule client_closed_no_sessions [OF none])
qed

lemma idle_initialize: "idle s \<Longrightarrow> idle (snd (initialize l s))"
  by (auto simp: initialize_def idle_def Let_def new_session_manager_def
      split: prod.splits sum.splits)

lemma server_step_idle: "server_step ops s s' \<Longrightarrow> idle s \<Longrightarrow> idle s'"
proof (induction rule: env_step.induct)
  case (initialize s l)
  then show ?case by (rule idle_initialize)
next
  case (ingest s now1 now2 t ts d)
  then show ?case by (simp add: idle_def on_ingest_def)
next
  case (opened s listed c)
  then show ?case by (simp add: idle_def)
next
  case (closed e s c)
  then show ?case by (intro idle_event_loop)
next
  case (message s c binary d)
  then show ?case by (simp add: idle_def)
next
  case (requests envs s)
  then show ?case by (intro idle_event_loop)
next
  case (publish e s)
  then show ?case by (intro idle_event_loop)
next
  case (timeouts e s)
  then show ?case by (intro idle_event_loop)
next
  case (topics e s)
  then show ?case by (intro idle_event_loop)
next
  case (stats s)
  then show ?case by (simp add: idle_def snapshot_and_reset_stats_def)
next
  case (stop s)
  then show ?case by (simp add: idle_def)
qed

context server_backend
begin

lemma initialize_good:
  assumes "good s" "idle s"
  shows "good (snd (initialize l s))"
proof (cases "initialized s \<or> publish_rate s \<le> 0 \<or> port s < 1 \<or> port s > 65535")
  case True
  then show ?thesis using assms(1) by (auto simp: initialize_def)
next
  case False
  then have "sessions (sess s) = []" using assms(2) by (simp add: idle_def)
  then have none: "refs (backend s) = (\<lambda>_. 0)"
    using ledger_okD(2) [OF good_ok [OF assms(1)]] by (simp add: fun_eq_iff held_count_no_sessions)
  let ?s = "s\<lparr>buf := new_message_buffer kDefaultMaxMessageAgeNs,
              sess := new_session_manager (session_timeout s), mw := set_on_disconnect (mw s)\<rparr>"
  have "good ?s"
    using assms(1) none
    by (simp add: server_inv_def ledger_ok_def fun_eq_iff new_message_buffer_def callbacks_wf
        paused_hold_nothing_def session_query_defs new_session_manager_def [of "session_timeout s"])
      (simp add: new_message_buffer_def [symmetric] new_session_manager_def [symmetric])
  then have "good (?s\<lparr>mw := snd (mw_initialize l (of_int (port s)) (mw ?s))\<rparr>)"
    using good_mw mw_initialize_wf good_mw_wf by blast
  moreover have "good x \<Longrightarrow> good (x\<lparr>initialized := True\<rparr>)" for x
    by (erule good_unobserved) simp_all
  ultimately show ?thesis
    using False by (auto simp: initialize_def Let_def split: prod.splits sum.splits)
qed

lemma server_step_good:
  assumes "server_step ops s s'" "good s" "idle s"
  shows "good s'"
  using assms
proof (induction rule: env_step.induct)
  case (opened s listed c)
  then show ?case by (simp add: good_mw on_open_wf good_mw_wf)
next
  case (message s c binary d)
  then show ?case by (simp add: good_mw on_message_wf good_mw_wf)
next
  case (stop s)
  then show ?case by (simp add: good_mw shutdown_wf good_mw_wf)
qed (simp_all add: initialize_good ingest_good client_closed_good process_requests_good publish_good
      timeouts_good topic_changes_good snapshot_good)

lemma reachable_good:
  assumes "server_reachable ops b m cfg s" "inv b" "refs b = (\<lambda>_. 0)" "mw_wf m"
  shows "good s \<and> idle s"
  using assms(1) unfolding server_reachable_def
proof (induction rule: rtranclp_induct)
  case base
  show ?case
    using assms(2-4)
    by (simp add: new_server_def server_inv_def ledger_ok_def idle_def fun_eq_iff
        paused_hold_nothing_def session_query_defs)
      (simp add: new_message_buffer_def new_session_manager_def)
next
  case (step s s')
  then show ?case using server_step_good server_step_idle by blast
qed

text \<open>The references of the backend in a reachable state.\<close>

lemma reachable_ledger:
  assumes "server_reachable ops b m cfg s" "inv b" "refs b = (\<lambda>_. 0)" "mw_wf m"
  shows "refs (backend s) t = held_count (sess s) t"
  using reachable_good [OF assms] by (simp add: server_inv_def ledger_ok_def)

end

interpretation ros2_server: server_backend ros2_ops ros2_wf ros2_refs
  by unfold_locales

interpretation fastdds_server: server_backend fastdds_ops fastdds_wf fastdds_refs
  by unfold_locales

interpretation rti_server: server_backend rti_ops rti_wf rti_refs
  by unfold_locales

end
