(* ===== verification/Sample_Run.thy ===== *)
theory Sample_Run
  imports Server_Properties
begin

text \<open>
  A concrete run that the witnesses share: a server that listens, a client \<open>''c''\<close> that
  connects and subscribes to the one topic of the source, with a network that accepts
  everything, a JSON parser for three requests and a compressor that copies.
\<close>

definition sample_parse :: "bytes \<Rightarrow> json option" where
  "sample_parse d =
     (if d = [1] then Some (JObject [(''command'', JString ''subscribe''),
                                     (''topics'', JArray [JString ''/a''])])
      else if d = [2] then Some (JObject [(''command'', JString ''pause'')])
      else if d = [3] then Some (JObject [(''command'', JString ''resume'')])
      else None)"

definition sample_env :: "'b sm_ops \<Rightarrow> ('b, unit) env" where
  "sample_env ops =
     \<lparr>methods = ops, steady_now = 0, order = insertion_order,
      source_topics = [(''/a'', ''T'')], source_schema = (\<lambda>t. Inr ''S''),
      source_encoding = kSchemaEncodingRos2Msg, source_transient_local = (\<lambda>_. True),
      regex_match = (\<lambda>_ _. True), json_parse = sample_parse, json_dump = (\<lambda>_. Some ''r''),
      zstd = (\<lambda>d. Some d), network = calm_network (\<lambda>_. 0), bridge_version = ''1'',
      gone_before_lock = []\<rparr>"

lemma sample_env_simps [simp]:
  "methods (sample_env ops) = ops" "steady_now (sample_env ops) = 0"
  "order (sample_env ops) = insertion_order" "source_topics (sample_env ops) = [(''/a'', ''T'')]"
  "source_schema (sample_env ops) t = Inr ''S''" "source_transient_local (sample_env ops) t"
  "regex_match (sample_env ops) t r" "json_parse (sample_env ops) = sample_parse"
  "json_dump (sample_env ops) j = Some ''r''" "zstd (sample_env ops) = Some"
  "network (sample_env ops) = calm_network (\<lambda>_. 0)" "gone_before_lock (sample_env ops) = []"
  by (simp_all add: sample_env_def fun_eq_iff)

definition sample_config :: "unit server_config" where
  "sample_config =
     \<lparr>cfg_port = 9090, cfg_session_timeout = 10, cfg_publish_rate = 50,
      cfg_whitelist = default_whitelist, cfg_heavy_threshold = 8\<rparr>"

definition sample_new :: "'b \<Rightarrow> ('b, unit) server" where
  "sample_new b = new_server b (new_middleware 4 None 5) sample_config"

definition sample_connected :: "'b \<Rightarrow> ('b, unit) server" where
  "sample_connected b =
     (let s = snd (initialize plain_listener (sample_new b)) in s\<lparr>mw := on_open True ''c'' (mw s)\<rparr>)"

definition sample_asked :: "bytes \<Rightarrow> ('b, unit) server \<Rightarrow> ('b, unit) server" where
  "sample_asked d s = s\<lparr>mw := on_message ''c'' False d (mw s)\<rparr>"

text \<open>The states of the run, written out.\<close>

definition sample_mw :: "net_event list \<Rightarrow> middleware" where
  "sample_mw events =
     \<lparr>client_backlog_size = 4, socket_buffer_watermark = 5, tls = None, ready = True,
      connect_callback = False, disconnect_callback = True, clients = [''c''],
      incoming_queue = [], pending_frames = [], last_drop_warn = [],
      dropped_from_disconnected = 0, heavy_shed_total = 0, net = events\<rparr>"

definition sample_session :: "bool \<Rightarrow> session" where
  "sample_session p =
     \<lparr>client_id = ''c'', subscribed_topics = [(''/a'', 0)],
      ref_held_topics = (if p then [] else [''/a'']), last_heartbeat = 0, created_at = 0,
      paused = p, topic_updates = False, include_schemas_in_updates = False\<rparr>"

definition sample_state :: "'b \<Rightarrow> session umap \<Rightarrow> message_buffer \<Rightarrow> net_event list \<Rightarrow> ('b, unit) server" where
  "sample_state b ss mb events =
     \<lparr>backend = b, sess = \<lparr>sessions = ss, timeout_duration = 10\<rparr>, buf = mb, mw = sample_mw events,
      port = 9090, session_timeout = 10, publish_rate = 50, whitelist = default_whitelist,
      heavy_frame_threshold_bytes = 8, initialized = True, last_sent_times = [],
      known_topics = [], topics_snapshot_taken = False, pending_replays = [],
      total_messages_published = 0, total_bytes_published = 0, publish_cycles = 0,
      topic_receive_counts = [], topic_forward_counts = []\<rparr>"

lemma sample_state_simps [simp]:
  "backend (sample_state b ss mb events) = b"
  "sess (sample_state b ss mb events) = \<lparr>sessions = ss, timeout_duration = 10\<rparr>"
  "buf (sample_state b ss mb events) = mb" "mw (sample_state b ss mb events) = sample_mw events"
  "initialized (sample_state b ss mb events)"
  "whitelist (sample_state b ss mb events) = default_whitelist"
  "pending_replays (sample_state b ss mb events) = []" "last_sent_times (sample_state b ss mb events) = []"
  by (simp_all add: sample_state_def)

abbreviation sample_buffer :: message_buffer where
  "sample_buffer \<equiv> new_message_buffer kDefaultMaxMessageAgeNs"

lemma sample_connected_state: "sample_connected b = sample_state b [] sample_buffer []"
  by (simp add: sample_connected_def sample_new_def initialize_def new_server_def sample_config_def
      mw_initialize_def plain_listener_def new_middleware_def set_on_disconnect_def on_open_def
      sample_state_def sample_mw_def new_session_manager_def Let_def)

lemma entries_insertion: "entries insertion_order m = map (\<lambda>k. (k, the (map_of m k))) (keys m)"
  by (simp add: entries_def)

lemmas sample_eval =
  sample_state_def sample_mw_def sample_asked_def on_message_def kMaxIncomingQueueSize_def
  receive_request_def process_single_request_def handle_request_def sample_parse_def dispatch_def
  touch_session_def create_session_def update_heartbeat_def with_session_def session_exists_def
  get_subscriptions_def entries_insertion lock_cleanup_def is_paused_def set_ref_held_def
  respond_def reply_to_def send_reply_def observe_def calm_network_def after_socket_call_def Let_def

lemma replay_new_buffer [simp]:
  "get_latched_for_replay t (set_latched t l (new_message_buffer n)) = None"
  by (simp add: get_latched_for_replay_def set_latched_def new_message_buffer_def buffered_def Let_def)

lemma sample_subscribe_loop:
  assumes "sm_subscribe ops ''/a'' ''T'' b = (True, b')"
  shows "request_loop (Suc (Suc n)) (\<lambda>_. sample_env ops) False (sample_asked [1] (sample_connected b)) =
    (Processed True, sample_state b' [(''c'', sample_session False)]
       (set_latched ''/a'' (sm_is_transient_local ops ''/a'' b') sample_buffer)
       [Text_Sent ''c'' (string_bytes ''r'') True])"
  using assms
  by (simp add: sample_connected_state sample_eval handle_subscribe_def parse_topic_def assign_all_def
      validate_topic_def default_whitelist_def matches_def extract_schema_def add_subscription_def
      collect_latched_replay_def sample_session_def)

text \<open>The server after the client has subscribed.\<close>

definition sample_subscribed :: "'b sm_ops \<Rightarrow> 'b \<Rightarrow> ('b, unit) server" where
  "sample_subscribed ops b =
     snd (process_requests (\<lambda>_. sample_env ops) (sample_asked [1] (sample_connected b)))"

lemma sample_subscribed_state:
  assumes "sm_subscribe ops ''/a'' ''T'' b = (True, b')"
  shows "sample_subscribed ops b =
    sample_state b' [(''c'', sample_session False)]
       (set_latched ''/a'' (sm_is_transient_local ops ''/a'' b') sample_buffer)
       [Text_Sent ''c'' (string_bytes ''r'') True]"
proof -
  have "kMaxRequestsPerCall = Suc (Suc 254)" by (simp add: kMaxRequestsPerCall_def)
  moreover have "initialized (sample_asked [1] (sample_connected b))"
    by (simp add: sample_asked_def sample_connected_state)
  ultimately show ?thesis
    using sample_subscribe_loop [OF assms, of 254]
    by (simp only: sample_subscribed_def process_requests_def if_False not_True_eq_False snd_conv)
qed

lemma sample_subscribed_reachable:
  "server_reachable ops b (new_middleware 4 None 5) sample_config (sample_subscribed (ops g) b)"
proof -
  note step = rtranclp.rtrancl_into_rtrancl
  have uses: "uses ops (sample_env (ops g))" by (auto simp: uses_def)
  let ?s1 = "snd (initialize plain_listener (sample_new b))"
  have "(server_step ops)\<^sup>*\<^sup>* (sample_new b) ?s1"
    by (intro r_into_rtranclp env_step.initialize)
  then have "(server_step ops)\<^sup>*\<^sup>* (sample_new b) (sample_connected b)"
    unfolding sample_connected_def Let_def by (rule step) (rule env_step.opened)
  then have "(server_step ops)\<^sup>*\<^sup>* (sample_new b) (sample_asked [1] (sample_connected b))"
    unfolding sample_asked_def by (rule step) (rule env_step.message)
  then have "(server_step ops)\<^sup>*\<^sup>* (sample_new b) (sample_subscribed (ops g) b)"
    unfolding sample_subscribed_def by (rule step) (rule env_step.requests, simp add: uses)
  then show ?thesis by (simp add: server_reachable_def sample_new_def)
qed

section \<open>The backends of the run\<close>

definition sample_graph :: ros_graph where
  "sample_graph =
     \<lparr>publishers_info = (\<lambda>_. [\<lparr>pub_best_effort = False, pub_transient_local = True, pub_depth = 1\<rparr>]),
      can_create = (\<lambda>_ _. True)\<rparr>"

definition sample_ros :: ros2_manager where
  "sample_ros = new_ros2_manager False 1 10"

definition sample_ros_subscribed :: ros2_manager where
  "sample_ros_subscribed = sample_ros\<lparr>subscriptions :=
     [(''/a'', \<lparr>reference_count = 1,
        entry = \<lparr>transient_local = True, sub_topic_type = ''T'', needs_stripping = False\<rparr>\<rparr>)]\<rparr>"

lemma sample_ros_subscribe:
  "sm_subscribe (ros2_ops sample_graph) ''/a'' ''T'' sample_ros = (True, sample_ros_subscribed)"
  "sm_is_transient_local (ros2_ops sample_graph) ''/a'' sample_ros_subscribed"
  by (simp_all add: ros2_ops_def ros2_subscribe_def sample_ros_def sample_ros_subscribed_def
      new_ros2_manager_def sample_graph_def adapt_qos_def ros2_is_transient_local_def Let_def)

abbreviation sample_ros_server :: "(ros2_manager, unit) server" where
  "sample_ros_server \<equiv> sample_subscribed (ros2_ops sample_graph) sample_ros"

lemmas sample_ros_state = sample_subscribed_state [OF sample_ros_subscribe(1)]

lemma sample_ros_reachable:
  "server_reachable ros2_ops (new_ros2_manager False 1 10) (new_middleware 4 None 5) sample_config
     sample_ros_server"
  using sample_subscribed_reachable [of ros2_ops sample_ros sample_graph] by (simp add: sample_ros_def)

lemma sample_connected_reachable:
  "server_reachable ops b (new_middleware 4 None 5) sample_config (sample_connected b)"
  unfolding server_reachable_def sample_connected_def sample_new_def Let_def
  by (rule rtranclp.rtrancl_into_rtrancl [OF r_into_rtranclp]) (rule env_step.initialize, rule env_step.opened)

abbreviation sample_ros_env :: "(ros2_manager, unit) env" where
  "sample_ros_env \<equiv> sample_env (ros2_ops sample_graph)"

lemma sample_ros_env_uses: "uses ros2_ops sample_ros_env"
  by (auto simp: uses_def)

end
