(* ===== verification/Handler_Properties.thy ===== *)
theory Handler_Properties
  imports Sample_Run "HOL-Library.Sublist"
begin

text \<open>
  What the handlers do to the session of the client that asks, on any backend that counts
  references, and the claims for the ROS 2 server.
\<close>

section \<open>The first lines of a handler\<close>

lemma touch_sess [frame_simps]:
  "session_exists d (sess (touch_session e c s)) \<longleftrightarrow> d = c \<or> session_exists d (sess s)"
  "get_subscriptions d (sess (touch_session e c s)) = get_subscriptions d (sess s)"
  "get_ref_held_topics d (sess (touch_session e c s)) = get_ref_held_topics d (sess s)"
  "is_paused d (sess (touch_session e c s)) = is_paused d (sess s)"
  by (auto simp: touch_session_def Let_def session_simps)

text \<open>The state in which a handler works, once it has the mutex.\<close>

definition locked :: "('b, 're) env \<Rightarrow> string \<Rightarrow> ('b, 're) server \<Rightarrow> ('b, 're) server" where
  "locked e c s = lock_cleanup e (touch_session e c s)"

lemma locked_sess:
  assumes "session_exists d (sess (locked e c s))"
  shows "get_subscriptions d (sess (locked e c s)) = get_subscriptions d (sess s)"
    and "get_ref_held_topics d (sess (locked e c s)) = get_ref_held_topics d (sess s)"
    and "is_paused d (sess (locked e c s)) = is_paused d (sess s)"
  using lock_cleanup_sess [of d e "touch_session e c s"] assms
  by (simp_all add: locked_def touch_sess)

lemma locked_undisturbed: "gone_before_lock e = [] \<Longrightarrow> locked e c s = touch_session e c s"
  by (simp add: locked_def lock_cleanup_def)

lemma client_closed_other: "d \<noteq> c \<Longrightarrow> session_exists d (sess (client_closed e c s)) = session_exists d (sess s)"
  using client_closed_sess [of e c s] by (auto simp: session_exists_after)

lemma locked_exists:
  assumes "c \<notin> set (gone_before_lock e)"
  shows "session_exists c (sess (locked e c s))"
proof -
  have "session_exists c (sess (fold (client_closed e) cs x)) = session_exists c (sess x)"
    if "c \<notin> set cs" for cs x
    using that by (induction cs arbitrary: x) (simp_all add: client_closed_other)
  from this [OF assms] show ?thesis by (simp add: locked_def lock_cleanup_def touch_sess)
qed

text \<open>The sessions of the other clients that the step does not touch.\<close>

definition others_kept :: "string \<Rightarrow> session_manager \<Rightarrow> session_manager \<Rightarrow> bool" where
  "others_kept c m m' \<longleftrightarrow>
     (\<forall>d. d \<noteq> c \<longrightarrow> session_exists d m' \<longrightarrow>
        session_exists d m \<and> get_subscriptions d m' = get_subscriptions d m \<and>
        get_ref_held_topics d m' = get_ref_held_topics d m \<and> is_paused d m' = is_paused d m)"

lemma others_kept_locked: "others_kept c (sess s) (sess (locked e c s))"
  unfolding others_kept_def
proof (intro allI impI)
  fix d
  assume "d \<noteq> c" "session_exists d (sess (locked e c s))"
  then show "session_exists d (sess s) \<and>
      get_subscriptions d (sess (locked e c s)) = get_subscriptions d (sess s) \<and>
      get_ref_held_topics d (sess (locked e c s)) = get_ref_held_topics d (sess s) \<and>
      is_paused d (sess (locked e c s)) = is_paused d (sess s)"
    using locked_sess [of d e c s] lock_cleanup_sess [of d e "touch_session e c s"]
    by (simp add: locked_def touch_sess)
qed

lemma others_kept_trans: "others_kept c m m' \<Longrightarrow> others_kept c m' m'' \<Longrightarrow> others_kept c m m''"
  by (simp add: others_kept_def)

section \<open>Pause\<close>

context server_backend
begin

lemma locked_good: "uses ops e \<Longrightarrow> good s \<Longrightarrow> good (locked e c s)"
  unfolding locked_def by (intro lock_cleanup_good touch_good)

lemma pause_effect:
  fixes req :: json
  assumes "uses ops e" "good s" "session_exists c (sess (locked e c s))"
  defines "s' \<equiv> snd (handle_pause e c req s)"
  shows "fst (handle_pause e c req s) = fst (respond e (paused_response True [] req) s)"
    and "is_paused c (sess s')" and "get_ref_held_topics c (sess s') = []"
    and "get_subscriptions c (sess s') = get_subscriptions c (sess s)"
    and "others_kept c (sess s) (sess s')"
proof -
  define s1 where "s1 = locked e c s"
  have g1: "good s1" unfolding s1_def by (rule locked_good [OF assms(1,2)])
  have ex: "session_exists c (sess s1)" using assms(3) by (simp add: s1_def)
  note subs = locked_sess(1) [OF assms(3), folded s1_def]
  show "fst (handle_pause e c req s) = fst (respond e (paused_response True [] req) s)"
    by (simp add: handle_pause_def respond_def Let_def split: option.splits)
  have "is_paused c (sess s') \<and> get_ref_held_topics c (sess s') = [] \<and>
    get_subscriptions c (sess s') = get_subscriptions c (sess s) \<and> others_kept c (sess s1) (sess s')"
  proof (cases "is_paused c (sess s1)")
    case True
    then have "s' = s1"
      by (simp add: s'_def handle_pause_def Let_def s1_def [symmetric] locked_def [symmetric])
    with True g1 subs show ?thesis by (simp add: server_inv_def paused_hold_nothing_def others_kept_def)
  next
    case False
    define s2 where "s2 = s1\<lparr>sess := fst (set_paused c True (sess s1))\<rparr>"
    note wf = ledger_okD(3) [OF good_ok [OF g1]]
    have ok2: "ok s2"
      unfolding s2_def using held_count_unchanged [OF wf] set_paused_wf [OF wf]
      by (intro ok_sess [OF good_ok [OF g1]]) (simp_all add: session_simps)
    define ts where "ts = visit (order e) (get_ref_held_topics c (sess s2))"
    have "distinct ts" "set ts \<subseteq> set (get_ref_held_topics c (sess s2))"
      using session_wf_distinct_held [OF ledger_okD(3) [OF ok2]] by (simp_all add: ts_def)
    note r = release_held_ok [OF assms(1) ok2 this]
    have "s' = release_held e c ts s2"
      using False by (simp add: s'_def handle_pause_def Let_def s1_def [symmetric] locked_def [symmetric]
          s2_def [symmetric] ts_def [symmetric])
    with r subs ex show ?thesis
      by (simp add: ts_def only_refs_of_def s2_def session_simps others_kept_def)
  qed
  then show "is_paused c (sess s')" "get_ref_held_topics c (sess s') = []"
      "get_subscriptions c (sess s') = get_subscriptions c (sess s)" "others_kept c (sess s) (sess s')"
    using others_kept_trans [OF others_kept_locked [of c s e, folded s1_def]] by simp_all
qed

end

section \<open>Resume\<close>

definition compressor_total :: "compressor \<Rightarrow> bool" where
  "compressor_total z \<longleftrightarrow> (\<forall>d. z d \<noteq> None)"

lemma finalize_total:
  assumes "compressor_total z"
  shows "finalize z flags sr \<noteq> Inl x"
proof -
  obtain y where "z (serialized_data sr) = Some y" using assms by (auto simp: compressor_total_def)
  then show ?thesis by (simp add: finalize_def Let_def)
qed

lemma collect_no_exception:
  assumes "compressor_total (zstd e)"
  shows "fst (collect_latched_replay e c t s) = None"
  using finalize_total [OF assms]
  by (auto simp: collect_latched_replay_def Let_def split: option.splits sum.splits)

text \<open>A topic that a resume cannot take: not discovered, or its subscription is refused.\<close>

definition unavailable :: "('b, 're) env \<Rightarrow> string umap \<Rightarrow> string \<Rightarrow> bool" where
  "unavailable e types t \<longleftrightarrow>
     (case map_of types t of None \<Rightarrow> True
      | Some ty \<Rightarrow> \<exists>b. \<not> fst (sm_subscribe (methods e) t ty b))"

lemma reacquire_returns:
  assumes "compressor_total (zstd e)"
  shows "\<exists>failed'. fst (reacquire_loop e c held types ts failed s) = Inr failed'"
proof (induction ts arbitrary: failed s)
  case (Cons t ts)
  have none: "collect_latched_replay e c t x = (y, z) \<Longrightarrow> y = None" for x y z
    using collect_no_exception [OF assms, of c t x] by simp
  from Cons show ?case by (auto simp: Let_def split: option.splits prod.splits dest: none)
qed simp

lemma reacquire_effect:
  assumes "session_exists c (sess s)"
    and "reacquire_loop e c held types ts failed s = (Inr failed', s')"
  shows "\<exists>out. failed' = failed @ out \<and> set out \<subseteq> set ts - set held \<and> (\<forall>t \<in> set out. unavailable e types t) \<and>
    only_refs_of c (sess s) (sess s') \<and> set (get_ref_held_topics c (sess s)) \<subseteq> set (get_ref_held_topics c (sess s')) \<and>
    set ts \<subseteq> set held \<union> set out \<union> set (get_ref_held_topics c (sess s'))"
  using assms
proof (induction ts arbitrary: failed s)
  case Nil
  then show ?case by (auto simp: only_refs_of_def)
next
  case (Cons t ts)
  show ?case
  proof (cases "t \<in> set held")
    case True
    with Cons.IH [of s failed] Cons.prems show ?thesis by fastforce
  next
    case new: False
    show ?thesis
    proof (cases "map_of types t")
      case None
      then have "unavailable e types t" by (simp add: unavailable_def)
      with new None Cons.IH [of s "failed @ [t]"] Cons.prems show ?thesis
        by (simp, elim exE) (rename_tac out, rule_tac x = "t # out" in exI, auto)
    next
      case (Some ty)
      obtain k b where sub: "sm_subscribe (methods e) t ty (backend s) = (k, b)"
        by (cases "sm_subscribe (methods e) t ty (backend s)")
      show ?thesis
      proof (cases k)
        case False
        then have "unavailable e types t" using sub Some by (auto simp: unavailable_def intro!: exI [of _ "backend s"])
        with new Some sub False Cons.IH [of "s\<lparr>backend := b\<rparr>" "failed @ [t]"] Cons.prems show ?thesis
          by (simp, elim exE) (rename_tac out, rule_tac x = "t # out" in exI, auto)
      next
        case True
        define s2 where "s2 = s\<lparr>backend := b, sess := fst (set_ref_held c t True (sess s))\<rparr>"
        obtain x s3 where x: "collect_latched_replay e c t s2 = (x, s3)"
          by (cases "collect_latched_replay e c t s2")
        have same: "sess s3 = sess s2" using collect_frame(1) [of e c t s2] x by simp
        have o: "only_refs_of c (sess s) (sess s3)" by (simp add: same s2_def only_refs_of_set)
        have h: "set (get_ref_held_topics c (sess s3)) = insert t (set (get_ref_held_topics c (sess s)))"
          using Cons.prems(1) by (simp add: same s2_def session_simps)
        have rest: "reacquire_loop e c held types ts failed s3 = (Inr failed', s')"
          using Cons.prems(2) new Some sub True x by (auto simp: s2_def Let_def split: option.splits)
        have ex: "session_exists c (sess s3)" using only_refs_ofD(4) [OF o] Cons.prems(1) by simp
        from Cons.IH [OF ex rest] h o show ?thesis by (fastforce intro: only_refs_of_trans)
      qed
    qed
  qed
qed

context server_backend
begin

lemma resume_effect:
  fixes req :: json
  assumes "uses ops e" "good s" "compressor_total (zstd e)" "is_paused c (sess (locked e c s))"
  defines "s' \<equiv> snd (handle_resume e c req s)"
  shows "\<exists>failed.
    fst (handle_resume e c req s) =
      fst (respond e (paused_response False
        (if failed \<noteq> [] then [(''unavailable_topics'', JArray (map JString failed))] else []) req) s) \<and>
    (\<forall>t \<in> set failed. unavailable e (assign_all [] (source_topics e)) t) \<and>
    set failed \<subseteq> set (keys (get_subscriptions c (sess s))) \<and>
    set (keys (get_subscriptions c (sess s))) \<subseteq> set (get_ref_held_topics c (sess s')) \<union> set failed \<and>
    \<not> is_paused c (sess s') \<and> get_subscriptions c (sess s') = get_subscriptions c (sess s) \<and>
    others_kept c (sess s) (sess s')"
proof -
  define s1 where "s1 = locked e c s"
  have g1: "good s1" unfolding s1_def by (rule locked_good [OF assms(1,2)])
  have p: "is_paused c (sess s1)" using assms(4) by (simp add: s1_def)
  then have ex: "session_exists c (sess s1)" by (auto simp: session_query_defs split: option.splits)
  note subs = locked_sess(1) [OF ex [unfolded s1_def], folded s1_def]
  define s2 where "s2 = s1\<lparr>sess := fst (set_paused c False (sess s1))\<rparr>"
  have held: "get_ref_held_topics c (sess s2) = []"
    using p g1 by (simp add: s2_def session_simps server_inv_def paused_hold_nothing_def)
  have subs2: "get_subscriptions c (sess s2) = get_subscriptions c (sess s)"
    by (simp add: s2_def session_simps subs)
  define ts where "ts = keys (entries (order e) (get_subscriptions c (sess s2)))"
  have ts: "set ts = set (keys (get_subscriptions c (sess s)))" by (simp add: ts_def map_fst_entries subs2)
  obtain failed s3 where
      l: "reacquire_loop e c [] (assign_all [] (source_topics e)) ts [] s2 = (Inr failed, s3)"
    using reacquire_returns [OF assms(3), of c "[]" "assign_all [] (source_topics e)" ts "[]" s2]
    by (metis prod.collapse)
  have ex2: "session_exists c (sess s2)" using ex by (simp add: s2_def session_simps)
  have eq: "handle_resume e c req s = respond e (paused_response False
      (if failed \<noteq> [] then [(''unavailable_topics'', JArray (map JString failed))] else []) req) s3"
    using p l by (simp add: handle_resume_def Let_def s1_def [unfolded locked_def, symmetric]
        s2_def [symmetric] held ts_def [symmetric])
  have s': "s' = s3" by (simp add: s'_def eq)
  have o: "others_kept c (sess s) (sess s1)" unfolding s1_def by (rule others_kept_locked)
  from reacquire_effect [OF ex2 l] obtain
      "\<forall>t \<in> set failed. unavailable e (assign_all [] (source_topics e)) t" "set failed \<subseteq> set ts"
      "only_refs_of c (sess s2) (sess s3)" "set ts \<subseteq> set failed \<union> set (get_ref_held_topics c (sess s3))"
    by auto
  moreover from this(3) have "others_kept c (sess s1) (sess s3)" "\<not> is_paused c (sess s3)"
      "get_subscriptions c (sess s3) = get_subscriptions c (sess s)"
    using ex by (auto simp: only_refs_of_def others_kept_def s2_def session_simps subs)
  ultimately show ?thesis
    using others_kept_trans [OF o]
    by (intro exI [of _ failed]) (auto simp: eq s' ts respond_def split: option.splits)
qed

end

section \<open>Unsubscribe\<close>

definition item_names :: "json list \<Rightarrow> string list" where
  "item_names js = List.map_filter item_name js"

lemma item_names_simps [simp]:
  "item_names [] = []"
  "item_names (j # js) = (case item_name j of None \<Rightarrow> item_names js | Some t \<Rightarrow> t # item_names js)"
  by (simp_all add: item_names_def List.map_filter_simps split: option.splits)

lemma unsubscribe_loop_effect:
  assumes "unsubscribe_loop e c held js current removed s = (r, s')" and "sessions_wf (sess s)"
    and "distinct current" "set current = set (keys (get_subscriptions c (sess s)))"
  shows "\<exists>out. r = removed @ out \<and> subseq out (item_names js) \<and> distinct out \<and>
    set out = set (item_names js) \<inter> set current \<and>
    (\<forall>t. map_of (get_subscriptions c (sess s')) t =
           (if t \<in> set out then None else map_of (get_subscriptions c (sess s)) t)) \<and>
    set (get_ref_held_topics c (sess s')) = set (get_ref_held_topics c (sess s)) - set out \<and>
    is_paused c (sess s') = is_paused c (sess s) \<and> others_kept c (sess s) (sess s')"
  using assms
proof (induction js arbitrary: current removed s)
  case Nil
  then show ?case by (simp add: others_kept_def)
next
  case (Cons j js)
  show ?case
  proof (cases "\<exists>t. item_name j = Some t \<and> t \<in> set current")
    case False
    then have "unsubscribe_loop e c held js current removed s = (r, s')"
      using Cons.prems(1) by (auto split: option.splits)
    from Cons.IH [OF this Cons.prems(2-4)] False show ?thesis
      by (auto split: option.splits intro: list_emb_Cons)
  next
    case True
    then obtain t where t: "item_name j = Some t" "t \<in> set current" by blast
    define s1 where "s1 = (if t \<in> set held then release_subscription_ref e t s else s)"
    define s2 where "s2 = s1\<lparr>sess := fst (remove_subscription c t (sess s1))\<rparr>"
    have same: "sess s1 = sess s" by (simp add: s1_def frame_simps)
    have loop: "unsubscribe_loop e c held js (remove1 t current) (removed @ [t]) s2 = (r, s')"
      using Cons.prems(1) t by (simp add: s1_def s2_def Let_def)
    have wf: "sessions_wf (sess s2)" by (simp add: s2_def same remove_subscription_wf Cons.prems(2))
    have subs: "map_of (get_subscriptions c (sess s2)) x =
        (if x = t then None else map_of (get_subscriptions c (sess s)) x)" for x
      by (simp add: s2_def same session_simps)
    have k: "set (remove1 t current) = set (keys (get_subscriptions c (sess s2)))"
      using Cons.prems(3,4) by (auto simp: s2_def same session_simps)
    have held2: "set (get_ref_held_topics c (sess s2)) = set (get_ref_held_topics c (sess s)) - {t}"
      using session_wf_distinct_held [OF Cons.prems(2), of c] by (simp add: s2_def same session_simps)
    have o: "others_kept c (sess s) (sess s2)" "is_paused c (sess s2) = is_paused c (sess s)"
      by (simp_all add: s2_def same others_kept_def session_simps)
    from Cons.IH [OF loop wf _ k] Cons.prems(3) obtain out where
        out: "r = (removed @ [t]) @ out" "subseq out (item_names js)" "distinct out"
        "set out = set (item_names js) \<inter> set (remove1 t current)"
        "\<forall>x. map_of (get_subscriptions c (sess s')) x =
           (if x \<in> set out then None else map_of (get_subscriptions c (sess s2)) x)"
        "set (get_ref_held_topics c (sess s')) = set (get_ref_held_topics c (sess s2)) - set out"
        "is_paused c (sess s') = is_paused c (sess s2)" "others_kept c (sess s2) (sess s')"
      by auto
    show ?thesis
    proof (intro exI [of _ "t # out"] conjI)
      show "set (t # out) = set (item_names (j # js)) \<inter> set current"
        using out(4) t Cons.prems(3) by auto
      show "\<forall>x. map_of (get_subscriptions c (sess s')) x =
          (if x \<in> set (t # out) then None else map_of (get_subscriptions c (sess s)) x)"
        using out(5) subs by simp
      show "others_kept c (sess s) (sess s')" by (rule others_kept_trans [OF o(1) out(8)])
    qed (use out(1-4,6,7) t held2 o(2) Cons.prems(3) in auto)
  qed
qed

context server_backend
begin

lemma unsubscribe_effect:
  fixes req :: json
  assumes "uses ops e" "good s" "Option.bind (jfind req ''topics'') jarray = Some items"
    and "session_exists c (sess (locked e c s))"
  defines "s' \<equiv> snd (handle_unsubscribe e c req s)"
  shows "\<exists>removed.
    fst (handle_unsubscribe e c req s) =
      fst (respond e (inject_response_fields (JObject [(''status'', JString ''success''),
             (''removed'', JArray (map JString removed))]) req) s) \<and>
    subseq removed (item_names items) \<and> distinct removed \<and>
    set removed = set (item_names items) \<inter> set (keys (get_subscriptions c (sess s))) \<and>
    (\<forall>t. map_of (get_subscriptions c (sess s')) t =
           (if t \<in> set removed then None else map_of (get_subscriptions c (sess s)) t)) \<and>
    set (get_ref_held_topics c (sess s')) = set (get_ref_held_topics c (sess s)) - set removed \<and>
    is_paused c (sess s') = is_paused c (sess s) \<and> others_kept c (sess s) (sess s')"
proof -
  define s1 where "s1 = locked e c s"
  note wf = ledger_okD(3) [OF good_ok [OF locked_good [OF assms(1,2)]], of c, folded s1_def]
  note l = locked_sess [OF assms(4), folded s1_def]
  obtain r s2 where u: "unsubscribe_loop e c (get_ref_held_topics c (sess s1)) items
      (keys (get_subscriptions c (sess s1))) [] s1 = (r, s2)" by fastforce
  have eq: "handle_unsubscribe e c req s =
      respond e (inject_response_fields (JObject [(''status'', JString ''success''),
             (''removed'', JArray (map JString r))]) req) s2"
    using assms(3) u by (simp add: handle_unsubscribe_def Let_def s1_def [unfolded locked_def, symmetric])
  have s': "s' = s2" by (simp add: s'_def eq)
  have o: "others_kept c (sess s) (sess s1)" unfolding s1_def by (rule others_kept_locked)
  have "unique_keys (get_subscriptions c (sess s1))" using wf by simp
  note x = unsubscribe_loop_effect [OF u wf this refl, unfolded l]
  have "fst (respond e y s2) = fst (respond e y s)" for y
    by (simp add: respond_def split: option.splits)
  then show ?thesis
    unfolding eq s' using x others_kept_trans [OF o] by (metis append_Nil)
qed

end

section \<open>Subscribe\<close>

definition requested_rate :: "rat option umap \<Rightarrow> string \<Rightarrow> rat" where
  "requested_rate requested t = (case map_of requested t of Some (Some r) \<Rightarrow> r | _ \<Rightarrow> 0)"

definition refused :: "('b, 're) env \<Rightarrow> string \<Rightarrow> string \<Rightarrow> bool" where
  "refused e t ty \<longleftrightarrow> (\<exists>b. \<not> fst (sm_subscribe (methods e) t ty b))"

lemmas acquire_loop_rate = acquire_loop.simps(2) [folded requested_rate_def, unfolded Let_def]

lemma acquire_loop_Cons:
  assumes "session_exists c (sess s)"
    and "acquire_loop e c p requested ((t, ty, schema) # xs) schemas failures s = (Inr out, s')"
  shows "(\<exists>b. \<not> p \<and> refused e t ty \<and>
      acquire_loop e c p requested xs schemas
        (failures @ [failure_entry t ''Subscription manager failed to create subscription''])
        (s\<lparr>backend := b\<rparr>) = (Inr out, s')) \<or>
    (\<exists>s3. sess s3 = fst (set_ref_held c t (\<not> p) (fst (add_subscription c t (requested_rate requested t) (sess s)))) \<and>
      acquire_loop e c p requested xs
        (AList.update t (JObject [(''encoding'', JString (source_encoding e)),
            (''definition'', JString schema)]) schemas) failures s3 = (Inr out, s'))"
proof -
  obtain k b where sub: "(if \<not> p then sm_subscribe (methods e) t ty (backend s) else (True, backend s)) = (k, b)"
    by fastforce
  show ?thesis
  proof (cases k)
    case False
    with sub have "\<not> p \<and> refused e t ty"
      by (auto simp: refused_def intro!: exI [of _ "backend s"] split: if_splits)
    with False sub assms(2) show ?thesis by (fastforce simp: Let_def)
  next
    case True
    have rec: "snd (add_subscription c t r (sess s))" for r using assms(1) by (simp add: session_simps)
    define s2 where "s2 = s\<lparr>backend := b, sess := fst (set_ref_held c t (\<not> p)
        (fst (add_subscription c t (requested_rate requested t) (sess s))))\<rparr>"
    define sch where "sch = AList.update t (JObject [(''encoding'', JString (source_encoding e)),
            (''definition'', JString schema)]) schemas"
    obtain x s3 where x: "collect_latched_replay e c t s2 = (x, s3)"
      by (cases "collect_latched_replay e c t s2")
    have same: "sess s3 = sess s2" using collect_frame(1) [of e c t s2] x by simp
    have "acquire_loop e c p requested ((t, ty, schema) # xs) schemas failures s =
        (if p then acquire_loop e c p requested xs sch failures s2
         else case x of Some ex \<Rightarrow> (Inl ex, s3) | None \<Rightarrow> acquire_loop e c p requested xs sch failures s3)"
      using True sub rec x unfolding acquire_loop_rate s2_def sch_def
      by (cases p) (simp_all add: case_prod_beta split: option.splits)
    then have "acquire_loop e c p requested xs sch failures (if p then s2 else s3) = (Inr out, s')"
      using assms(2) by (auto split: if_splits option.splits)
    then show ?thesis
      by (intro disjI2 exI [of _ "if p then s2 else s3"]) (simp add: same s2_def sch_def)
  qed
qed

lemma acquire_effect:
  assumes "session_exists c (sess s)" and "distinct (map fst xs)"
    and "\<forall>t \<in> set (map fst xs). t \<notin> set (get_ref_held_topics c (sess s))"
    and "acquire_loop e c p requested xs schemas failures s = (Inr out, s')"
  shows "\<exists>taken. taken \<subseteq> set (map fst xs) \<and>
    (\<forall>(t, ty, _) \<in> set xs. t \<notin> taken \<longrightarrow> \<not> p \<and> refused e t ty) \<and>
    (\<forall>t. map_of (get_subscriptions c (sess s')) t =
       (if t \<in> taken then Some (requested_rate requested t) else map_of (get_subscriptions c (sess s)) t)) \<and>
    set (get_ref_held_topics c (sess s')) =
       set (get_ref_held_topics c (sess s)) \<union> (if p then {} else taken) \<and>
    session_exists c (sess s') \<and> is_paused c (sess s') = is_paused c (sess s) \<and>
    others_kept c (sess s) (sess s')"
  using assms
proof (induction xs arbitrary: schemas failures s)
  case Nil
  then show ?case by (intro exI [of _ "{}"]) (simp add: others_kept_def)
next
  case (Cons x xs)
  obtain t ty schema where x: "x = (t, ty, schema)" by (cases x)
  from acquire_loop_Cons [OF Cons.prems(1) Cons.prems(4) [unfolded x]] show ?case
  proof (elim disjE exE conjE)
    fix b
    assume r: "\<not> p" "refused e t ty"
      "acquire_loop e c p requested xs schemas
        (failures @ [failure_entry t ''Subscription manager failed to create subscription''])
        (s\<lparr>backend := b\<rparr>) = (Inr out, s')"
    from Cons.IH [OF _ _ _ r(3)] Cons.prems(1-3) obtain taken where
      "taken \<subseteq> set (map fst xs)" "\<forall>(t, ty, _) \<in> set xs. t \<notin> taken \<longrightarrow> \<not> p \<and> refused e t ty"
      "\<forall>t. map_of (get_subscriptions c (sess s')) t =
         (if t \<in> taken then Some (requested_rate requested t) else map_of (get_subscriptions c (sess s)) t)"
      "set (get_ref_held_topics c (sess s')) =
         set (get_ref_held_topics c (sess s)) \<union> (if p then {} else taken)"
      "session_exists c (sess s')" "is_paused c (sess s') = is_paused c (sess s)"
      "others_kept c (sess s) (sess s')"
      by auto
    with r(1,2) show ?thesis by (intro exI [of _ taken]) (auto simp: x)
  next
    fix s3
    assume s3: "sess s3 = fst (set_ref_held c t (\<not> p) (fst (add_subscription c t (requested_rate requested t) (sess s))))"
      and rest: "acquire_loop e c p requested xs
        (AList.update t (JObject [(''encoding'', JString (source_encoding e)),
            (''definition'', JString schema)]) schemas) failures s3 = (Inr out, s')"
    have fresh: "t \<notin> set (get_ref_held_topics c (sess s))" "t \<notin> set (map fst xs)"
      using Cons.prems(2,3) by (auto simp: x)
    have 3: "session_exists c (sess s3)" "is_paused c (sess s3) = is_paused c (sess s)"
        "others_kept c (sess s) (sess s3)"
        "map_of (get_subscriptions c (sess s3)) =
           (map_of (get_subscriptions c (sess s)))(t \<mapsto> requested_rate requested t)"
        "set (get_ref_held_topics c (sess s3)) = set (get_ref_held_topics c (sess s)) \<union> (if p then {} else {t})"
      using Cons.prems(1) fresh(1)
      by (auto simp: s3 session_simps others_kept_def remove1_idem fun_eq_iff)
    have "\<forall>t \<in> set (map fst xs). t \<notin> set (get_ref_held_topics c (sess s3))"
      using Cons.prems(3) fresh(2) by (auto simp: 3(5))
    from Cons.IH [OF 3(1) _ this rest] Cons.prems(2) obtain taken where
      "taken \<subseteq> set (map fst xs)" "\<forall>(t, ty, _) \<in> set xs. t \<notin> taken \<longrightarrow> \<not> p \<and> refused e t ty"
      "\<forall>t. map_of (get_subscriptions c (sess s')) t =
         (if t \<in> taken then Some (requested_rate requested t) else map_of (get_subscriptions c (sess s3)) t)"
      "set (get_ref_held_topics c (sess s')) =
         set (get_ref_held_topics c (sess s3)) \<union> (if p then {} else taken)"
      "session_exists c (sess s')" "is_paused c (sess s') = is_paused c (sess s3)"
      "others_kept c (sess s3) (sess s')"
      by (auto simp: x)
    with 3 others_kept_trans [OF 3(3)] show ?thesis
      by (intro exI [of _ "insert t taken"]) (auto simp: x)
  qed
qed

lemma acquire_returns:
  assumes "compressor_total (zstd e)"
  shows "\<exists>out. fst (acquire_loop e c p requested xs schemas failures s) = Inr out"
proof (induction xs arbitrary: schemas failures s)
  case (Cons x xs)
  obtain t ty schema where x: "x = (t, ty, schema)" by (cases x)
  have none: "collect_latched_replay e c t y = (u, z) \<Longrightarrow> u = None" for y u z
    using collect_no_exception [OF assms, of c t y] by simp
  from Cons show ?case
    by (auto simp: x Let_def split: option.splits prod.splits if_splits dest: none)
qed simp

lemma validate_topics_iff:
  "(t, ty, schema) \<in> set (fst (validate_topics e w types ts)) \<longleftrightarrow>
     t \<in> set ts \<and> validate_topic e w types t = Inr (ty, schema)"
  by (induction ts) (auto simp: case_prod_beta Let_def split: sum.splits prod.splits)

lemma update_rates_effect:
  assumes "session_exists c m" "distinct (map fst xs)"
  shows "map_of (get_subscriptions c (update_rates c subs xs m)) t =
      (case map_of xs t of
         Some (Some r) \<Rightarrow> (if map_of subs t \<noteq> None then Some r else map_of (get_subscriptions c m) t)
       | _ \<Rightarrow> map_of (get_subscriptions c m) t)"
  using assms
proof (induction xs arbitrary: m)
  case (Cons x xs)
  obtain u r where x: "x = (u, r)" by (cases x)
  have u: "map_of xs u = None" using Cons.prems(2) by (simp add: x map_of_eq_None_iff)
  show ?case
  proof (cases "r = None \<or> map_of subs u = None")
    case True
    then have "update_rates c subs (x # xs) m = update_rates c subs xs m"
      by (auto simp: x split: option.splits)
    with True Cons u show ?thesis by (auto simp: x split: option.splits)
  next
    case False
    then obtain v where v: "r = Some v" by auto
    with False have "update_rates c subs (x # xs) m = update_rates c subs xs (fst (add_subscription c u v m))"
      by (simp add: x)
    with False v Cons u show ?thesis by (auto simp: x session_simps split: option.splits)
  qed
qed simp

lemma update_rates_frame:
  "get_ref_held_topics d (update_rates c subs xs m) = get_ref_held_topics d m"
  "is_paused d (update_rates c subs xs m) = is_paused d m"
  "session_exists d (update_rates c subs xs m) = session_exists d m"
  "d \<noteq> c \<Longrightarrow> get_subscriptions d (update_rates c subs xs m) = get_subscriptions d m"
  by (induction xs arbitrary: m) (auto simp: session_simps split: option.splits if_splits)

lemma update_rates_others: "others_kept c m m' \<Longrightarrow> others_kept c m (update_rates c subs xs m')"
  by (simp add: others_kept_def update_rates_frame)

context server_backend
begin

lemma subscribe_effect:
  fixes req :: json
  assumes "uses ops e" "good s" "compressor_total (zstd e)"
    and "Option.bind (jfind req ''topics'') jarray = Some items"
    and "session_exists c (sess (locked e c s))"
  defines "s' \<equiv> snd (handle_subscribe e c req s)"
    and "requested \<equiv> parse_requested items []"
    and "subs \<equiv> get_subscriptions c (sess s)"
    and "valid \<equiv> validate_topic e (whitelist s) (assign_all [] (source_topics e))"
  shows "\<exists>taken.
    (\<forall>t \<in> taken. map_of requested t \<noteq> None \<and> map_of subs t = None \<and> (\<exists>x. valid t = Inr x)) \<and>
    (\<forall>t ty schema. map_of requested t \<noteq> None \<and> map_of subs t = None \<and> valid t = Inr (ty, schema) \<and>
       t \<notin> taken \<longrightarrow> \<not> is_paused c (sess s) \<and> refused e t ty) \<and>
    (\<forall>t. map_of (get_subscriptions c (sess s')) t =
       (if t \<in> taken then Some (requested_rate requested t)
        else case map_of subs t of None \<Rightarrow> None
             | Some r \<Rightarrow> Some (case map_of requested t of Some (Some r') \<Rightarrow> r' | _ \<Rightarrow> r))) \<and>
    set (get_ref_held_topics c (sess s')) =
      set (get_ref_held_topics c (sess s)) \<union> (if is_paused c (sess s) then {} else taken) \<and>
    is_paused c (sess s') = is_paused c (sess s) \<and> others_kept c (sess s) (sess s')"
proof -
  define s0 where "s0 = touch_session e c s"
  define s1 where "s1 = lock_cleanup e s0"
  have s1: "s1 = locked e c s" by (simp add: s1_def s0_def locked_def)
  note l = locked_sess [OF assms(5), folded s1]
  have subs0: "get_subscriptions c (sess s0) = subs" by (simp add: s0_def touch_sess subs_def)
  have wl: "whitelist s0 = whitelist s" using touch_frame(5) [of e c s] by (simp add: s0_def config_of_def)
  note wf = ledger_okD(3) [OF good_ok [OF locked_good [OF assms(1,2)]], of c, folded s1]
  have uniq: "unique_keys requested"
    using parse_requested_rates [of "[]" items] by (simp add: requested_def)
  define adds where "adds = filter (\<lambda>t. map_of subs t = None) (keys (entries (order e) requested))"
  have adds: "set adds = {t. map_of requested t \<noteq> None \<and> map_of subs t = None}" "distinct adds"
    using uniq by (auto simp: adds_def map_fst_entries map_of_eq_None_iff)
  obtain ok bad where v: "validate_topics e (whitelist s) (assign_all [] (source_topics e)) adds = (ok, bad)"
    by fastforce
  have okiff: "(t, ty, schema) \<in> set ok \<longleftrightarrow> t \<in> set adds \<and> valid t = Inr (ty, schema)" for t ty schema
    using validate_topics_iff [of t ty schema e "whitelist s" "assign_all [] (source_topics e)" adds]
    by (simp add: v valid_def)
  have okd: "distinct (map fst ok)" "set (map fst ok) \<subseteq> set adds"
    using validate_topics_names [of e "whitelist s" "assign_all [] (source_topics e)" adds] adds(2)
    by (simp_all add: v)
  define p where "p = is_paused c (sess s1)"
  obtain sch fl s2 where a: "acquire_loop e c p requested ok [] bad s1 = (Inr (sch, fl), s2)"
    using acquire_returns [OF assms(3), of c p requested ok "[]" bad s1]
    by (metis prod.collapse)
  define s3 where "s3 = s2\<lparr>sess := update_rates c subs (entries (order e) requested) (sess s2)\<rparr>"
  have s': "s' = s3"
    using assms(4) a v
    by (auto simp: s'_def handle_subscribe_def Let_def s0_def [symmetric] s1_def [symmetric]
        subs0 wl requested_def [symmetric] adds_def [symmetric] p_def [symmetric] s3_def
        split: option.splits)
  have fresh: "\<forall>t \<in> set (map fst ok). t \<notin> set (get_ref_held_topics c (sess s1))"
    using okd(2) adds(1) held_subset_subscribed [OF wf, of c] by (auto simp: l subs_def map_of_eq_None_iff)
  from acquire_effect [OF assms(5) [folded s1] okd(1) fresh a] obtain taken where
    t: "taken \<subseteq> set (map fst ok)" "\<forall>(t, ty, _) \<in> set ok. t \<notin> taken \<longrightarrow> \<not> p \<and> refused e t ty"
      "\<forall>t. map_of (get_subscriptions c (sess s2)) t =
         (if t \<in> taken then Some (requested_rate requested t) else map_of subs t)"
      "set (get_ref_held_topics c (sess s2)) =
         set (get_ref_held_topics c (sess s)) \<union> (if p then {} else taken)"
      "session_exists c (sess s2)" "is_paused c (sess s2) = is_paused c (sess s)"
      "others_kept c (sess s1) (sess s2)"
    unfolding l subs_def by blast
  show ?thesis
  proof (intro exI [of _ taken] conjI)
    show "\<forall>t \<in> taken. map_of requested t \<noteq> None \<and> map_of subs t = None \<and> (\<exists>x. valid t = Inr x)"
      using t(1) okiff adds(1) by (auto dest!: subsetD)
    show "\<forall>t ty schema. map_of requested t \<noteq> None \<and> map_of subs t = None \<and> valid t = Inr (ty, schema) \<and>
       t \<notin> taken \<longrightarrow> \<not> is_paused c (sess s) \<and> refused e t ty"
      using t(2) okiff adds(1) l(3) by (fastforce simp: p_def)
    show "\<forall>t. map_of (get_subscriptions c (sess s')) t =
       (if t \<in> taken then Some (requested_rate requested t)
        else case map_of subs t of None \<Rightarrow> None
             | Some r \<Rightarrow> Some (case map_of requested t of Some (Some r') \<Rightarrow> r' | _ \<Rightarrow> r))"
    proof
      fix x
      have "distinct (map fst (entries (order e) requested))" using uniq by (rule distinct_entries)
      note u = update_rates_effect [OF t(5) this, of subs x, unfolded map_of_entries [OF uniq]]
      have "x \<in> taken \<Longrightarrow> x \<in> set adds" using t(1) okd(2) by (meson subsetD)
      then have "x \<in> taken \<Longrightarrow> map_of subs x = None" by (simp add: adds(1))
      then show "map_of (get_subscriptions c (sess s')) x =
         (if x \<in> taken then Some (requested_rate requested x)
          else case map_of subs x of None \<Rightarrow> None
               | Some r \<Rightarrow> Some (case map_of requested x of Some (Some r') \<Rightarrow> r' | _ \<Rightarrow> r))"
        using u t(3) by (auto simp: s' s3_def split: option.splits)
    qed
    show "set (get_ref_held_topics c (sess s')) =
      set (get_ref_held_topics c (sess s)) \<union> (if is_paused c (sess s) then {} else taken)"
      using t(4) l(3) by (simp add: s' s3_def update_rates_frame p_def)
    show "is_paused c (sess s') = is_paused c (sess s)" using t(6) by (simp add: s' s3_def update_rates_frame)
    show "others_kept c (sess s) (sess s')"
      using update_rates_others [OF others_kept_trans [OF others_kept_locked t(7) [unfolded s1]]]
      by (simp add: s' s3_def)
  qed
qed

end

end
