(* ===== verification/Server_Claims.thy ===== *)
theory Server_Claims
  imports Sample_Run Publish_Loop
begin

text \<open>
  What holds in every reachable state of the server, on the model's own backends: references,
  retained samples and rates.
\<close>

section \<open>Lemmas\<close>

context server_backend
begin

lemma reachable_from_new:
  assumes "server_reachable ops b (new_middleware n tls_option w) cfg s" "inv b" "refs b = (\<lambda>_. 0)"
  shows "good s"
  using reachable_good [OF assms(1-3)] by simp

lemma reachable_references:
  assumes "server_reachable ops b (new_middleware n tls_option w) cfg s" "inv b" "refs b = (\<lambda>_. 0)"
  shows "refs (backend s) t = held_count (sess s) t"
    and "0 < refs (backend s) t \<longleftrightarrow> (\<exists>c. t \<in> set (get_ref_held_topics c (sess s)))"
    and "is_paused c (sess s) \<Longrightarrow> get_ref_held_topics c (sess s) = []"
    and "inv (backend s)"
    and "sessions_wf (sess s)"
    and "buffer_wf (buf s)"
    and "t \<in> set (latched_topics (buf s)) \<Longrightarrow> 0 < refs (backend s) t"
proof -
  note g = ledger_okD [OF good_ok [OF reachable_from_new [OF assms]]]
  show r: "refs (backend s) t = held_count (sess s) t" using g(2) by simp
  show "0 < refs (backend s) t \<longleftrightarrow> (\<exists>c. t \<in> set (get_ref_held_topics c (sess s)))"
    by (simp add: r held_count_pos_iff [OF g(3)])
  show "is_paused c (sess s) \<Longrightarrow> get_ref_held_topics c (sess s) = []"
    using reachable_from_new [OF assms] by (simp add: server_inv_def paused_hold_nothing_def)
  show "t \<in> set (latched_topics (buf s)) \<Longrightarrow> 0 < refs (backend s) t" using g(5) by blast
qed (use ledger_okD [OF good_ok [OF reachable_from_new [OF assms]]] in simp_all)

lemma reachable_nothing_held:
  assumes "server_reachable ops b (new_middleware n tls_option w) cfg s" "inv b" "refs b = (\<lambda>_. 0)"
    and "sessions (sess s) = []"
  shows "refs (backend s) t = 0"
  using reachable_references(1) [OF assms(1-3), of t] held_count_no_sessions [OF assms(4), of t] by simp

end

lemma ref_map_empty: "ref_map_wf m \<Longrightarrow> (\<And>t. ref_of m t = 0) \<Longrightarrow> m = []"
  by (metis (no_types, lifting) list.exhaust map_of_Cons_code(2) option.distinct(1) prod.exhaust
      ref_of_pos_iff less_irrefl)

lemma new_backends:
  "ros2_refs (new_ros2_manager strip lo hi) = (\<lambda>_. 0)" "fastdds_wf new_fastdds_manager"
  "fastdds_refs new_fastdds_manager = (\<lambda>_. 0)" "rti_wf new_rti_manager"
  "rti_refs new_rti_manager = (\<lambda>_. 0)"
  by (simp_all add: fun_eq_iff fastdds_wf_def fastdds_refs_def new_fastdds_manager_def
      rti_wf_def rti_refs_def new_rti_manager_def ref_of_def)

lemmas ros2_reachable = ros2_server.reachable_references [OF _ new_ros2_manager_simps(1) new_backends(1)]

section \<open>References\<close>

text \<open>
  C1. In every reachable state of the server on the ROS 2 backend the reference count of a
  topic is the number of sessions that hold a reference for it; the middleware subscription
  exists exactly while some session holds one, and a paused session holds none.
\<close>

theorem server_reference_counts:
  assumes "server_reachable ros2_ops (new_ros2_manager strip lo hi)
             (new_middleware backlog_bound tls_option watermark) cfg s"
  shows "get_reference_count t (backend s) = held_count (sess s) t \<and>
    (ros2_is_subscribed t (backend s) \<longleftrightarrow> (\<exists>c. t \<in> set (get_ref_held_topics c (sess s)))) \<and>
    (is_paused c (sess s) \<longrightarrow> get_ref_held_topics c (sess s) = [])"
  using ros2_reachable(1-3) [OF assms, of t] ros2_reachable(3) [OF assms, of c]
    ros2.is_subscribed_law [OF ros2_reachable(4) [OF assms], of undefined t]
  by (simp add: ros2_refs_def ros2_ops_def)

theorem server_reference_counts_witness:
  "get_reference_count ''/a'' (backend sample_ros_server) = 1 \<and>
   held_count (sess sample_ros_server) ''/a'' = 1 \<and> ros2_is_subscribed ''/a'' (backend sample_ros_server)"
proof -
  from server_reference_counts [OF sample_ros_reachable, of "''/a''" "''c''"] show ?thesis
    by (simp add: sample_ros_state sample_ros_subscribed_def get_reference_count_def
        ros2_is_subscribed_def get_ref_held_topics_def)
qed

text \<open>
  C2. Nothing outlives its sessions: whatever the event loop, the clients and the network did,
  when the last session is gone the ROS 2, Fast DDS and RTI managers hold no subscription.
\<close>

theorem all_sessions_gone_all_released:
  assumes "server_reachable ros2_ops (new_ros2_manager strip lo hi)
             (new_middleware backlog_bound tls_option watermark) cfg s"
    and "server_reachable fastdds_ops new_fastdds_manager
           (new_middleware backlog_bound tls_option watermark) cfg' s'"
    and "server_reachable rti_ops new_rti_manager
           (new_middleware backlog_bound tls_option watermark) cfg'' s''"
  shows "(get_active_session_count s = 0 \<longrightarrow> subscriptions (backend s) = []) \<and>
    (get_active_session_count s' = 0 \<longrightarrow> fast_subscriptions (backend s') = []) \<and>
    (get_active_session_count s'' = 0 \<longrightarrow> rti_subscriptions (backend s'') = [])"
proof (intro conjI impI)
  note new = new_ros2_manager_simps(1) new_backends
  assume "get_active_session_count s = 0"
  then have "ros2_refs (backend s) t = 0" for t
    using ros2_server.reachable_nothing_held [OF assms(1) new(1,2)]
    by (simp add: get_active_session_count_def session_count_def)
  then show "subscriptions (backend s) = []"
    using ros2_reachable(4) [OF assms(1)] by (intro ref_map_empty) (simp_all add: ros2_wf_def ros2_refs_ref_of)
next
  note new = new_backends(2,3)
  assume "get_active_session_count s' = 0"
  then have "fastdds_refs (backend s') t = 0" for t
    using fastdds_server.reachable_nothing_held [OF assms(2) new]
    by (simp add: get_active_session_count_def session_count_def)
  then show "fast_subscriptions (backend s') = []"
    using fastdds_server.reachable_references(4) [OF assms(2) new]
    by (intro ref_map_empty) (simp_all add: fastdds_wf_def fastdds_refs_def)
next
  note new = new_backends(4,5)
  assume "get_active_session_count s'' = 0"
  then have "rti_refs (backend s'') t = 0" for t
    using rti_server.reachable_nothing_held [OF assms(3) new]
    by (simp add: get_active_session_count_def session_count_def)
  then show "rti_subscriptions (backend s'') = []"
    using rti_server.reachable_references(4) [OF assms(3) new]
    by (intro ref_map_empty) (simp_all add: rti_wf_def rti_refs_def)
qed

text \<open>The same sample client, after its disconnection.\<close>

definition sample_left :: "'b sm_ops \<Rightarrow> 'b \<Rightarrow> ('b, unit) server" where
  "sample_left ops b = client_closed (sample_env ops) ''c'' (sample_subscribed ops b)"

lemma sample_left_reachable:
  "server_reachable ops b (new_middleware 4 None 5) sample_config (sample_left (ops g) b)"
  using sample_subscribed_reachable [of ops b g]
  unfolding server_reachable_def sample_left_def
  by (rule rtranclp.rtrancl_into_rtrancl) (rule env_step.closed, auto simp: uses_def)

lemma sample_left_count:
  assumes "sm_subscribe ops ''/a'' ''T'' b = (True, b')"
  shows "get_active_session_count (sample_left ops b) = 0"
  by (simp add: sample_left_def sample_subscribed_state [OF assms] client_closed_def frame_simps
      sample_mw_def Let_def get_active_session_count_def session_count_def remove_session_def)

theorem all_sessions_gone_all_released_witness:
  "subscriptions (backend (sample_left (ros2_ops sample_graph) sample_ros)) = [] \<and>
   subscriptions (backend sample_ros_server) \<noteq> []"
proof -
  have "server_reachable ros2_ops (new_ros2_manager False 1 10) (new_middleware 4 None 5)
      sample_config (sample_left (ros2_ops sample_graph) sample_ros)"
    using sample_left_reachable [of ros2_ops sample_ros sample_graph] by (simp add: sample_ros_def)
  from all_sessions_gone_all_released [OF this sample_subscribed_reachable sample_subscribed_reachable]
  show ?thesis
    by (simp add: sample_left_count [OF sample_ros_subscribe(1)] sample_ros_state
        sample_ros_subscribed_def)
qed

text \<open>
  C18. A retained sample never outlives its subscription: in every reachable state of the server
  on the ROS 2 backend, a topic that the buffer treats as latched, and so every retained
  sample, belongs to a topic with an open middleware subscription.
\<close>

theorem latched_only_while_subscribed:
  assumes "server_reachable ros2_ops (new_ros2_manager strip lo hi)
             (new_middleware backlog_bound tls_option watermark) cfg s"
    and "t \<in> set (latched_topics (buf s)) \<or> get_latched t (buf s) \<noteq> None"
  shows "t \<in> set (latched_topics (buf s)) \<and> ros2_is_subscribed t (backend s)"
proof
  show l: "t \<in> set (latched_topics (buf s))"
    using assms(2) ros2_reachable(6) [OF assms(1)]
    by (auto simp: get_latched_def buffer_wf_def dest: map_of_Some_in_keys)
  show "ros2_is_subscribed t (backend s)"
    using ros2_reachable(7) [OF assms(1) l] ros2.is_subscribed_law [OF ros2_reachable(4) [OF assms(1)], of undefined t]
    by (simp add: ros2_ops_def)
qed

theorem latched_only_while_subscribed_witness:
  "latched_topics (buf sample_ros_server) = [''/a''] \<and> ros2_is_subscribed ''/a'' (backend sample_ros_server)"
proof -
  have l: "latched_topics (buf sample_ros_server) = [''/a'']"
    by (simp add: sample_ros_state sample_ros_subscribe(2) set_latched_def new_message_buffer_def
        buffered_def Let_def)
  from latched_only_while_subscribed [OF sample_ros_reachable, of "''/a''"] l show ?thesis by simp
qed

section \<open>The shape of the state\<close>

text \<open>
  C17. The state keeps its shape in every reachable state of the server on the ROS 2 backend: a
  session is filed under its own identity and holds references, each once, only for topics it
  is subscribed to; the buffer has one non-empty list per topic and retains samples only of
  latched topics; backlogs belong to connected clients.
\<close>

theorem state_well_formed:
  assumes "server_reachable ros2_ops (new_ros2_manager strip lo hi)
             (new_middleware backlog_bound tls_option watermark) cfg s"
  shows "distinct (map fst (sessions (sess s))) \<and>
    list_all (\<lambda>(c, x). client_id x = c \<and> distinct (map fst (subscribed_topics x)) \<and>
      distinct (ref_held_topics x) \<and> set (ref_held_topics x) \<subseteq> set (map fst (subscribed_topics x)))
      (sessions (sess s)) \<and>
    distinct (map fst (topic_buffers (buf s))) \<and> list_all (\<lambda>(t, ms). ms \<noteq> []) (topic_buffers (buf s)) \<and>
    distinct (map fst (latched_last (buf s))) \<and>
    set (map fst (latched_last (buf s))) \<subseteq> set (latched_topics (buf s)) \<and>
    distinct (clients (mw s)) \<and> set (map fst (pending_frames (mw s))) \<subseteq> set (clients (mw s))"
proof -
  have "mw_wf (mw s)"
    by (rule ros2_server.good_mw_wf [OF ros2_server.reachable_from_new [OF assms new_ros2_manager_simps(1) new_backends(1)]])
  with ros2_reachable(5,6) [OF assms] show ?thesis
    by (auto simp: sessions_wf_def session_wf_def buffer_wf_def mw_wf_def list_all_iff)
qed

theorem state_well_formed_witness:
  "distinct (map fst (sessions (sess sample_ros_server))) \<and> map fst (sessions (sess sample_ros_server)) = [''c'']"
  using state_well_formed [OF sample_ros_reachable] by (simp add: sample_ros_state)

section \<open>Rates\<close>

text \<open>
  C19. The rate of every subscription of every session of a reachable server is zero or between
  a thousandth and a million hertz, so the milli-hertz cast of the publish path is in range, is
  zero exactly for an unlimited topic, and the interval of the rate gate is at least a thousand
  nanoseconds and at most a thousand seconds.
\<close>

theorem rates_safe_to_cast:
  assumes "server_reachable ros2_ops (new_ros2_manager strip lo hi)
             (new_middleware backlog_bound tls_option watermark) cfg s"
    and "map_of (get_subscriptions c (sess s)) t = Some r"
  shows "0 \<le> rate_mhz r \<and> rate_mhz r \<le> 10 ^ 9 \<and> (rate_mhz r = 0 \<longleftrightarrow> r = 0) \<and>
    (r \<noteq> 0 \<longrightarrow> 1000 \<le> unat (min_interval_ns (rate_mhz r)) \<and> unat (min_interval_ns (rate_mhz r)) \<le> 10 ^ 12)"
proof -
  have v: "valid_rate r" using subscription_rate_valid [OF ros2_reachable(5) [OF assms(1)] assms(2)] .
  note mhz = rate_mhz_valid [OF v]
  have "1000 \<le> unat (min_interval_ns (rate_mhz r)) \<and> unat (min_interval_ns (rate_mhz r)) \<le> 10 ^ 12"
    if "r \<noteq> 0"
  proof -
    from that mhz have pos: "1 \<le> rate_mhz r" by linarith
    have "unat (of_int (rate_mhz r) :: u64) = nat (rate_mhz r)"
      using mhz by (simp add: unsigned_of_int take_bit_int_eq_self)
    then have eq: "unat (min_interval_ns (rate_mhz r)) = 10 ^ 12 div nat (rate_mhz r)"
      by (simp add: min_interval_ns_def unat_div)
    have "(10::nat) ^ 12 div 10 ^ 9 \<le> 10 ^ 12 div nat (rate_mhz r)"
      using pos mhz by (intro div_le_mono2) (simp_all add: nat_le_iff)
    moreover have "(10::nat) ^ 12 div nat (rate_mhz r) \<le> 10 ^ 12" by (rule div_le_dividend)
    ultimately show ?thesis by (simp add: eq)
  qed
  with mhz show ?thesis by blast
qed

theorem rates_safe_to_cast_witness:
  "get_subscriptions ''c'' (sess sample_ros_server) = [(''/a'', 0)] \<and> rate_mhz 0 \<le> 10 ^ 9"
proof -
  have g: "get_subscriptions ''c'' (sess sample_ros_server) = [(''/a'', 0)]"
    by (simp add: sample_ros_state get_subscriptions_def sample_session_def)
  from rates_safe_to_cast [OF sample_ros_reachable, of "''c''" "''/a''" 0] g show ?thesis by simp
qed

end
