(* ===== verification/Handler_Claims.thy ===== *)
theory Handler_Claims
  imports Handler_Properties Server_Claims
begin

text \<open>
  The claims on the handlers of a ROS 2 server in any reachable state. The hypothesis that
  the client is not in \<open>gone_before_lock\<close> says that its disconnection is not handled
  while the handler waits for \<^verbatim>\<open>cleanup_mutex_\<close>.
\<close>

lemma ros2_good:
  assumes "server_reachable ros2_ops (new_ros2_manager strip lo hi)
             (new_middleware backlog_bound tls_option watermark) cfg s"
  shows "server_inv ros2_wf ros2_refs s"
  by (rule ros2_server.reachable_from_new [OF assms new_ros2_manager_simps(1) new_backends(1)])

lemma ros2_refused: "methods e = ros2_ops g \<Longrightarrow> refused e t ty \<Longrightarrow> \<not> can_create g t ty"
  by (auto simp: refused_def ros2_ops_def ros2_subscribe_def Let_def split: option.splits if_splits)

section \<open>Pause and resume\<close>

text \<open>
  C9. Pausing releases every reference of the client and nothing else: afterwards the client is
  paused and holds no reference, its subscriptions and rates are as before, the sessions of the
  other clients that are still there are untouched, the reference count of every topic is what
  the sessions hold, and the response is the same whether or not it was paused before.
\<close>

theorem pause_releases_all:
  assumes "server_reachable ros2_ops (new_ros2_manager strip lo hi)
             (new_middleware backlog_bound tls_option watermark) cfg s"
    and "uses ros2_ops e" and "c \<notin> set (gone_before_lock e)"
    and "handle_pause e c req s = (r, s')"
  shows "is_paused c (sess s') \<and> get_ref_held_topics c (sess s') = [] \<and>
    get_subscriptions c (sess s') = get_subscriptions c (sess s) \<and>
    (\<forall>t. get_reference_count t (backend s') = held_count (sess s') t) \<and>
    (\<forall>d. d \<noteq> c \<and> session_exists d (sess s') \<longrightarrow>
       get_subscriptions d (sess s') = get_subscriptions d (sess s) \<and>
       get_ref_held_topics d (sess s') = get_ref_held_topics d (sess s)) \<and>
    r = fst (respond e (paused_response True [] req) s)"
proof -
  note g = ros2_good [OF assms(1)]
  have s': "s' = snd (handle_pause e c req s)" "r = fst (handle_pause e c req s)"
    using assms(4) by simp_all
  note p = ros2_server.pause_effect [OF assms(2) g locked_exists [OF assms(3)], of req]
  have "get_reference_count t (backend s') = held_count (sess s') t" for t
    using ledger_okD(2) [OF ros2_server.good_ok [OF ros2_server.handle_pause_good [OF assms(2) g]], of c req]
    by (simp add: s' ros2_refs_def fun_eq_iff)
  with p show ?thesis by (auto simp: s' others_kept_def)
qed

theorem pause_releases_all_witness:
  "get_ref_held_topics ''c'' (sess sample_ros_server) = [''/a''] \<and>
   get_ref_held_topics ''c'' (sess (snd (handle_pause sample_ros_env ''c'' JNull sample_ros_server))) = [] \<and>
   get_subscriptions ''c'' (sess (snd (handle_pause sample_ros_env ''c'' JNull sample_ros_server))) = [(''/a'', 0)]"
proof -
  have g: "get_ref_held_topics ''c'' (sess sample_ros_server) = [''/a'']"
      "get_subscriptions ''c'' (sess sample_ros_server) = [(''/a'', 0)]"
    by (simp_all add: sample_ros_state get_ref_held_topics_def get_subscriptions_def sample_session_def)
  from pause_releases_all [OF sample_ros_reachable sample_ros_env_uses, where c = "''c''" and req = JNull]
  show ?thesis using g by (metis empty_iff list.set(1) prod.collapse sample_env_simps(12))
qed

text \<open>
  C10. Resuming takes the references back: the client is no longer paused, its subscriptions and
  rates are as before, and each of its topics is held again or named in the response's
  \<^verbatim>\<open>unavailable_topics\<close>; a topic named there is not discovered, or its middleware
  subscription cannot be created. The hypothesis on the compressor is that Zstandard, given the
  output bound it asks for, does not fail.
\<close>

theorem resume_takes_back:
  assumes "server_reachable ros2_ops (new_ros2_manager strip lo hi)
             (new_middleware backlog_bound tls_option watermark) cfg s"
    and "methods e = ros2_ops g" and "compressor_total (zstd e)" and "c \<notin> set (gone_before_lock e)"
    and "is_paused c (sess s)" and "handle_resume e c req s = (r, s')"
  shows "\<not> is_paused c (sess s') \<and> get_subscriptions c (sess s') = get_subscriptions c (sess s) \<and>
    (\<exists>unavailable_topics.
       r = fst (respond e (paused_response False
         (if unavailable_topics = [] then []
          else [(''unavailable_topics'', JArray (map JString unavailable_topics))]) req) s) \<and>
       set (keys (get_subscriptions c (sess s))) \<subseteq>
         set (get_ref_held_topics c (sess s')) \<union> set unavailable_topics \<and>
       (\<forall>t \<in> set unavailable_topics.
          case map_of (assign_all [] (source_topics e)) t of
            None \<Rightarrow> True | Some ty \<Rightarrow> \<not> can_create g t ty))"
proof -
  note good = ros2_good [OF assms(1)]
  have u: "uses ros2_ops e" using assms(2) by (auto simp: uses_def)
  have s': "s' = snd (handle_resume e c req s)" "r = fst (handle_resume e c req s)"
    using assms(6) by simp_all
  have ex: "session_exists c (sess (locked e c s))" by (rule locked_exists [OF assms(4)])
  have p: "is_paused c (sess (locked e c s))" using locked_sess(3) [OF ex] assms(5) by simp
  have unav: "unavailable e types t \<Longrightarrow>
      (case map_of types t of None \<Rightarrow> True | Some ty \<Rightarrow> \<not> can_create g t ty)" for types t
    using ros2_refused [OF assms(2), of t] by (auto simp: unavailable_def refused_def split: option.splits)
  from ros2_server.resume_effect [OF u good assms(3) p, of req] obtain failed where
      f: "r = fst (respond e (paused_response False
        (if failed \<noteq> [] then [(''unavailable_topics'', JArray (map JString failed))] else []) req) s)"
      "\<forall>t \<in> set failed. unavailable e (assign_all [] (source_topics e)) t"
      "set (keys (get_subscriptions c (sess s))) \<subseteq> set (get_ref_held_topics c (sess s')) \<union> set failed"
      "\<not> is_paused c (sess s')" "get_subscriptions c (sess s') = get_subscriptions c (sess s)"
    unfolding s' by blast
  from f(2) unav have "\<forall>t \<in> set failed. case map_of (assign_all [] (source_topics e)) t of
      None \<Rightarrow> True | Some ty \<Rightarrow> \<not> can_create g t ty" by blast
  moreover have "r = fst (respond e (paused_response False
      (if failed = [] then [] else [(''unavailable_topics'', JArray (map JString failed))]) req) s)"
    using f(1) by (cases "failed = []") simp_all
  ultimately show ?thesis using f(3-5) by blast
qed

text \<open>The sample client, paused by a request.\<close>

definition sample_paused :: "(ros2_manager, unit) server" where
  "sample_paused = snd (process_requests (\<lambda>_. sample_ros_env) (sample_asked [2] sample_ros_server))"

lemma sample_paused_reachable:
  "server_reachable ros2_ops (new_ros2_manager False 1 10) (new_middleware 4 None 5) sample_config
     sample_paused"
proof -
  note step = rtranclp.rtrancl_into_rtrancl
  have "server_reachable ros2_ops (new_ros2_manager False 1 10) (new_middleware 4 None 5) sample_config
      (sample_asked [2] sample_ros_server)"
    using sample_ros_reachable unfolding server_reachable_def sample_asked_def
    by (rule step) (rule env_step.message)
  then show ?thesis
    unfolding server_reachable_def sample_paused_def
    by (rule step) (rule env_step.requests, simp add: sample_ros_env_uses)
qed

lemma sample_pause_loop:
  assumes "snd (sm_unsubscribe ops ''/a'' b) = b'" and "\<not> sm_is_subscribed ops ''/a'' b'"
  shows "sess (snd (request_loop (Suc (Suc n)) (\<lambda>_. sample_env ops) False
      (sample_asked [2] (sample_state b [(''c'', sample_session False)] mb events)))) =
    \<lparr>sessions = [(''c'', sample_session True)], timeout_duration = 10\<rparr>"
  using assms
  by (simp add: sample_eval handle_pause_def release_subscription_ref_def
      sample_session_def set_paused_def get_ref_held_topics_def)

lemma sample_ros_unsubscribe:
  "snd (sm_unsubscribe (ros2_ops sample_graph) ''/a'' sample_ros_subscribed) = sample_ros"
  "\<not> sm_is_subscribed (ros2_ops sample_graph) ''/a'' sample_ros"
  by (simp_all add: ros2_ops_def ros2_unsubscribe_def ref_unsubscribe_def sample_ros_def
      sample_ros_subscribed_def new_ros2_manager_def ros2_is_subscribed_def)

lemma sample_paused_state:
  "is_paused ''c'' (sess sample_paused)" "get_subscriptions ''c'' (sess sample_paused) = [(''/a'', 0)]"
proof -
  have "kMaxRequestsPerCall = Suc (Suc 254)" by (simp add: kMaxRequestsPerCall_def)
  moreover have "initialized (sample_asked [2] sample_ros_server)"
    by (simp add: sample_asked_def sample_ros_state)
  ultimately have "sess sample_paused = \<lparr>sessions = [(''c'', sample_session True)], timeout_duration = 10\<rparr>"
    using sample_pause_loop [OF sample_ros_unsubscribe, of 254]
    by (simp add: sample_paused_def process_requests_def sample_ros_state del: request_loop.simps)
  then show "is_paused ''c'' (sess sample_paused)" "get_subscriptions ''c'' (sess sample_paused) = [(''/a'', 0)]"
    by (simp_all add: is_paused_def get_subscriptions_def sample_session_def)
qed

theorem resume_takes_back_witness:
  "is_paused ''c'' (sess sample_paused) \<and>
   get_ref_held_topics ''c'' (sess (snd (handle_resume sample_ros_env ''c'' JNull sample_paused))) \<noteq> [] \<and>
   \<not> is_paused ''c'' (sess (snd (handle_resume sample_ros_env ''c'' JNull sample_paused)))"
proof -
  have z: "compressor_total (zstd sample_ros_env)" by (simp add: compressor_total_def)
  have here: "''c'' \<notin> set (gone_before_lock sample_ros_env)" by simp
  note x = resume_takes_back [OF sample_paused_reachable sample_env_simps(1) z here
      sample_paused_state(1) surjective_pairing, of JNull]
  then obtain ts where "\<not> is_paused ''c'' (sess (snd (handle_resume sample_ros_env ''c'' JNull sample_paused)))"
      "set (keys (get_subscriptions ''c'' (sess sample_paused))) \<subseteq>
         set (get_ref_held_topics ''c'' (sess (snd (handle_resume sample_ros_env ''c'' JNull sample_paused)))) \<union> set ts"
      "\<forall>t \<in> set ts. case map_of (assign_all [] (source_topics sample_ros_env)) t of
            None \<Rightarrow> True | Some ty \<Rightarrow> \<not> can_create sample_graph t ty"
    by (elim conjE exE) (rule that)
  then have "''/a'' \<in> set (get_ref_held_topics ''c'' (sess (snd (handle_resume sample_ros_env ''c'' JNull sample_paused))))"
    by (auto simp: sample_paused_state sample_graph_def assign_all_def)
  with \<open>\<not> is_paused ''c'' _\<close> show ?thesis by (auto simp: sample_paused_state)
qed

section \<open>Subscribe and unsubscribe\<close>

text \<open>
  C7. Subscribing only adds. For a well-formed request, some set of topics is taken: only
  requested ones that the client did not have and that pass the whitelist, are discovered and
  have a schema; and all of these, except topics whose middleware subscription cannot be created
  for a client that is not paused. Afterwards the client has its former topics, each with the
  rate the request gives for it or else its former rate, and the taken topics with the rate
  requested, zero when there is none; the new references are those of the taken topics, or none
  when the client is paused.
\<close>

theorem subscribe_only_adds:
  assumes "server_reachable ros2_ops (new_ros2_manager strip lo hi)
             (new_middleware backlog_bound tls_option watermark) cfg s"
    and "methods e = ros2_ops g" and "compressor_total (zstd e)" and "c \<notin> set (gone_before_lock e)"
    and "jfind req ''topics'' = Some (JArray items)"
    and "subs = map_of (get_subscriptions c (sess s))"
    and "requested = map_of (parse_requested items [])"
    and "valid = validate_topic e (whitelist s) (assign_all [] (source_topics e))"
    and "handle_subscribe e c req s = (r, s')"
  shows "\<exists>taken.
    (\<forall>t \<in> taken. requested t \<noteq> None \<and> subs t = None \<and> (\<exists>x. valid t = Inr x)) \<and>
    (\<forall>t ty schema. requested t \<noteq> None \<and> subs t = None \<and> valid t = Inr (ty, schema) \<and> t \<notin> taken \<longrightarrow>
       \<not> is_paused c (sess s) \<and> \<not> can_create g t ty) \<and>
    (\<forall>t. map_of (get_subscriptions c (sess s')) t =
       (let rate = (case requested t of Some (Some r') \<Rightarrow> Some r' | _ \<Rightarrow> None)
        in if t \<in> taken then Some (case rate of Some r' \<Rightarrow> r' | None \<Rightarrow> 0)
           else case (subs t, rate) of (None, _) \<Rightarrow> None | (Some r, None) \<Rightarrow> Some r
                | (Some r, Some r') \<Rightarrow> Some r')) \<and>
    set (get_ref_held_topics c (sess s')) =
      set (get_ref_held_topics c (sess s)) \<union> (if is_paused c (sess s) then {} else taken)"
proof -
  note good = ros2_good [OF assms(1)]
  have u: "uses ros2_ops e" using assms(2) by (auto simp: uses_def)
  have s': "s' = snd (handle_subscribe e c req s)" using assms(9) by simp
  have items: "Option.bind (jfind req ''topics'') jarray = Some items" using assms(5) by simp
  from ros2_server.subscribe_effect [OF u good assms(3) items locked_exists [OF assms(4)]] obtain taken where t:
      "\<forall>t \<in> taken. requested t \<noteq> None \<and> subs t = None \<and> (\<exists>x. valid t = Inr x)"
      "\<forall>t ty schema. requested t \<noteq> None \<and> subs t = None \<and> valid t = Inr (ty, schema) \<and> t \<notin> taken \<longrightarrow>
         \<not> is_paused c (sess s) \<and> refused e t ty"
      "\<forall>t. map_of (get_subscriptions c (sess s')) t =
         (if t \<in> taken then Some (requested_rate (parse_requested items []) t)
          else case subs t of None \<Rightarrow> None
               | Some r \<Rightarrow> Some (case requested t of Some (Some r') \<Rightarrow> r' | _ \<Rightarrow> r))"
      "set (get_ref_held_topics c (sess s')) =
         set (get_ref_held_topics c (sess s)) \<union> (if is_paused c (sess s) then {} else taken)"
    unfolding s' assms(6-8) by blast
  show ?thesis
  proof (intro exI [of _ taken] conjI t(1,4))
    show "\<forall>t ty schema. requested t \<noteq> None \<and> subs t = None \<and> valid t = Inr (ty, schema) \<and> t \<notin> taken \<longrightarrow>
       \<not> is_paused c (sess s) \<and> \<not> can_create g t ty"
      using t(2) ros2_refused [OF assms(2)] by blast
    show "\<forall>t. map_of (get_subscriptions c (sess s')) t =
       (let rate = (case requested t of Some (Some r') \<Rightarrow> Some r' | _ \<Rightarrow> None)
        in if t \<in> taken then Some (case rate of Some r' \<Rightarrow> r' | None \<Rightarrow> 0)
           else case (subs t, rate) of (None, _) \<Rightarrow> None | (Some r, None) \<Rightarrow> Some r
                | (Some r, Some r') \<Rightarrow> Some r')"
      using t(3) by (auto simp: requested_rate_def assms(7) Let_def split: option.splits)
  qed
qed

theorem subscribe_only_adds_witness:
  "get_subscriptions ''c'' (sess (sample_connected sample_ros)) = [] \<and>
   map_of (get_subscriptions ''c'' (sess (snd (handle_subscribe sample_ros_env ''c''
     (JObject [(''topics'', JArray [JString ''/a''])]) (sample_connected sample_ros))))) ''/a'' = Some 0"
proof -
  have z: "compressor_total (zstd sample_ros_env)" by (simp add: compressor_total_def)
  have reach: "server_reachable ros2_ops (new_ros2_manager False 1 10) (new_middleware 4 None 5) sample_config
      (sample_connected sample_ros)"
    using sample_connected_reachable [of ros2_ops sample_ros] by (simp add: sample_ros_def)
  have none: "get_subscriptions ''c'' (sess (sample_connected sample_ros)) = []"
    by (simp add: sample_connected_state get_subscriptions_def)
  let ?s' = "snd (handle_subscribe sample_ros_env ''c''
     (JObject [(''topics'', JArray [JString ''/a''])]) (sample_connected sample_ros))"
  have valid: "validate_topic sample_ros_env (whitelist (sample_connected sample_ros))
      (assign_all [] (source_topics sample_ros_env)) ''/a'' = Inr (''T'', ''S'')"
    by (simp add: sample_connected_state validate_topic_def default_whitelist_def matches_def
        assign_all_def extract_schema_def)
  have req: "map_of (parse_requested [JString ''/a''] []) ''/a'' = Some None" by (simp add: parse_topic_def)
  have can: "can_create sample_graph ''/a'' ''T''" by (simp add: sample_graph_def)
  have here: "''c'' \<notin> set (gone_before_lock sample_ros_env)" by simp
  have topics: "jfind (JObject [(''topics'', JArray [JString ''/a''])]) ''topics'' = Some (JArray [JString ''/a''])"
    by simp
  from subscribe_only_adds [OF reach sample_env_simps(1) z here topics refl refl refl surjective_pairing]
  obtain taken where t:
      "\<forall>t ty schema. map_of (parse_requested [JString ''/a''] []) t \<noteq> None \<and>
         map_of (get_subscriptions ''c'' (sess (sample_connected sample_ros))) t = None \<and>
         validate_topic sample_ros_env (whitelist (sample_connected sample_ros))
           (assign_all [] (source_topics sample_ros_env)) t = Inr (ty, schema) \<and> t \<notin> taken \<longrightarrow>
         \<not> is_paused ''c'' (sess (sample_connected sample_ros)) \<and> \<not> can_create sample_graph t ty"
    and m: "\<forall>t. map_of (get_subscriptions ''c'' (sess ?s')) t =
       (let rate = (case map_of (parse_requested [JString ''/a''] []) t of Some (Some r') \<Rightarrow> Some r' | _ \<Rightarrow> None)
        in if t \<in> taken then Some (case rate of Some r' \<Rightarrow> r' | None \<Rightarrow> 0)
           else case (map_of (get_subscriptions ''c'' (sess (sample_connected sample_ros))) t, rate) of
                  (None, _) \<Rightarrow> None | (Some r, None) \<Rightarrow> Some r | (Some r, Some r') \<Rightarrow> Some r')"
    by (elim conjE exE) (rule that)
  from t have "''/a'' \<in> taken" using valid req none can by (metis option.distinct(1) map_of.simps(1))
  then show ?thesis using spec [OF m, of "''/a''"] by (simp add: req none parse_topic_def)
qed

text \<open>
  C8. Unsubscribing removes the requested topics and nothing else. For a well-formed request,
  the response lists the topics removed, in the order of the request and each once: they are
  the requested ones among the client's subscriptions. The client keeps its other topics with
  their rates and its other references; its paused state is unchanged, and so are the sessions
  of the other clients.
\<close>

theorem unsubscribe_removes_requested:
  assumes "server_reachable ros2_ops (new_ros2_manager strip lo hi)
             (new_middleware backlog_bound tls_option watermark) cfg s"
    and "uses ros2_ops e" and "c \<notin> set (gone_before_lock e)"
    and "jfind req ''topics'' = Some (JArray items)"
    and "handle_unsubscribe e c req s = (r, s')"
  shows "\<exists>removed.
    r = fst (respond e (inject_response_fields (JObject [(''status'', JString ''success''),
           (''removed'', JArray (map JString removed))]) req) s) \<and>
    subseq removed (item_names items) \<and> distinct removed \<and>
    set removed = set (item_names items) \<inter> set (keys (get_subscriptions c (sess s))) \<and>
    (\<forall>t. map_of (get_subscriptions c (sess s')) t =
       (if t \<in> set removed then None else map_of (get_subscriptions c (sess s)) t)) \<and>
    set (get_ref_held_topics c (sess s')) = set (get_ref_held_topics c (sess s)) - set removed \<and>
    is_paused c (sess s') = is_paused c (sess s) \<and> others_kept c (sess s) (sess s')"
proof -
  have s': "s' = snd (handle_unsubscribe e c req s)" "r = fst (handle_unsubscribe e c req s)"
    using assms(5) by simp_all
  have items: "Option.bind (jfind req ''topics'') jarray = Some items" using assms(4) by simp
  show ?thesis unfolding s'
    by (rule ros2_server.unsubscribe_effect [OF assms(2) ros2_good [OF assms(1)] items locked_exists [OF assms(3)]])
qed

theorem unsubscribe_removes_requested_witness:
  "get_subscriptions ''c'' (sess sample_ros_server) = [(''/a'', 0)] \<and>
   map_of (get_subscriptions ''c'' (sess (snd (handle_unsubscribe sample_ros_env ''c''
     (JObject [(''topics'', JArray [JString ''/a'', JString ''/b''])]) sample_ros_server)))) ''/a'' = None"
proof -
  have subs: "get_subscriptions ''c'' (sess sample_ros_server) = [(''/a'', 0)]"
    by (simp add: sample_ros_state get_subscriptions_def sample_session_def)
  have here: "''c'' \<notin> set (gone_before_lock sample_ros_env)" by simp
  have topics: "jfind (JObject [(''topics'', JArray [JString ''/a'', JString ''/b''])]) ''topics'' =
      Some (JArray [JString ''/a'', JString ''/b''])" by simp
  let ?s' = "snd (handle_unsubscribe sample_ros_env ''c''
     (JObject [(''topics'', JArray [JString ''/a'', JString ''/b''])]) sample_ros_server)"
  from unsubscribe_removes_requested [OF sample_ros_reachable sample_ros_env_uses here topics surjective_pairing]
  obtain removed where "set removed = set (item_names [JString ''/a'', JString ''/b'']) \<inter>
        set (keys (get_subscriptions ''c'' (sess sample_ros_server)))"
      "\<forall>t. map_of (get_subscriptions ''c'' (sess ?s')) t =
         (if t \<in> set removed then None else map_of (get_subscriptions ''c'' (sess sample_ros_server)) t)"
    by (elim conjE exE) (rule that)
  then show ?thesis using subs by (simp add: item_name_def)
qed

end
