(* ===== verification/Request_Claims.thy ===== *)
theory Request_Claims
  imports Handler_Claims
begin

text \<open>
  The claims on the processing of a request: what goes out on the network and in which order,
  which sessions a timeout removes, and what the topic notifications say.
\<close>

section \<open>The network during a request\<close>

lemma client_closed_net: "net (mw (client_closed e c s)) = net (mw s)"
  by (simp add: client_closed_def Let_def frame_simps mw_simps)

interpretation net_frame: handler_frame "\<lambda>s. net (mw s)"
  by unfold_locales (simp_all add: client_closed_net)

definition not_text :: "net_event \<Rightarrow> bool" where
  "not_text ev = (case ev of Text_Sent _ _ _ \<Rightarrow> False | _ \<Rightarrow> True)"

definition grows :: "net_event list \<Rightarrow> middleware \<Rightarrow> bool" where
  "grows old m = (\<exists>evs. net m = old @ evs \<and> list_all not_text evs)"

lemma grows_simps [simp]:
  "grows old m \<Longrightarrow> not_text ev \<Longrightarrow> grows old (observe nw ev m)"
  "grows old (m\<lparr>pending_frames := x\<rparr>) = grows old m"
  "grows old (m\<lparr>heavy_shed_total := n\<rparr>) = grows old m"
  "grows old m \<Longrightarrow> grows old (snd (drop_warning nw now c m))"
  by (auto simp: grows_def mw_simps not_text_def)

lemma not_text_simps [simp]:
  "not_text (Amount_Read c n)" "not_text (Binary_Sent c f ok)" "\<not> not_text (Text_Sent c d ok)"
  by (simp_all add: not_text_def)

lemma fold_cleanup_net: "net (mw (fold (cleanup_session e) cs s)) = net (mw s)"
  by (induction cs arbitrary: s) (simp_all add: frame_simps mw_simps)

lemma after_socket_net: "net (mw (after_socket_call e m s)) = net m"
  by (simp add: after_socket_call_def Let_def fold_cleanup_net)

lemma callables_grow: "preserved_by (client_callables nw c) (grows old)"
  by (auto simp: preserved_by_def client_callables_def Let_def case_prod_beta split: option.splits)

lemma send_frame_grows: "grows old (mw s) \<Longrightarrow> grows old (mw (snd (send_frame e c f p s)))"
proof -
  assume g: "grows old (mw s)"
  obtain r m where b: "send_binary (network e) (steady_now e) c f p (mw s) = (r, m)" by fastforce
  have "grows old m"
    by (rule send_binary_preserves [OF b g callables_grow]) simp_all
  then show ?thesis by (simp add: send_frame_def b grows_def after_socket_net)
qed

lemma send_replays_grows: "grows old (mw s) \<Longrightarrow> grows old (mw (send_replays e c fs s))"
  by (induction fs arbitrary: s) (simp_all add: send_frame_grows)

lemma cleanup_no_replays:
  "map_of (pending_replays s) c = None \<Longrightarrow> map_of (pending_replays (fold (cleanup_session e) cs s)) c = None"
  by (induction cs arbitrary: s) (simp_all add: frame_simps)

lemma send_replays_none:
  "map_of (pending_replays s) c = None \<Longrightarrow> map_of (pending_replays (send_replays e c' fs s)) c = None"
proof (induction fs arbitrary: s)
  case (Cons f fs)
  have "map_of (pending_replays (snd (send_frame e c' f KNormal s))) c = None"
    using Cons.prems by (simp add: send_frame_def case_prod_beta after_socket_call_def Let_def cleanup_no_replays)
  with Cons.IH show ?case by simp
qed simp

text \<open>
  C15. The response goes out first. When a request of a connected client has been handled, the
  next thing on the network is its response, to that client, and no other response is sent;
  the retained samples collected for it follow only if the response was sent. If it was not,
  nothing follows and the client's session is gone. Either way no sample stays pending.
\<close>

theorem response_precedes_replays:
  assumes "handle_request e c d s = (Some response, s1)" and "c \<noteq> []" and "c \<in> set (clients (mw s1))"
    and "process_single_request e d c s = (escaped, s')"
  shows "\<not> escaped \<and> map_of (pending_replays s') c = None \<and>
    (\<exists>sent evs. net (mw s') = net (mw s) @ Text_Sent c (string_bytes response) sent # evs \<and>
       filter (\<lambda>ev. \<not> not_text ev) evs = [] \<and>
       (sent \<or> evs = [] \<and> \<not> session_exists c (sess s')))"
proof -
  have n1: "net (mw s1) = net (mw s)" using net_frame.handle_request_f [of e c d s] assms(1) by simp
  obtain ok s2 where r: "reply_to e c (string_bytes response) s1 = (ok, s2)" by fastforce
  with assms(3) have n2: "net (mw s2) = net (mw s) @ [Text_Sent c (string_bytes response) ok]"
    by (auto simp: reply_to_def send_reply_def Let_def after_socket_net mw_simps n1)
  show ?thesis
  proof (cases ok)
    case False
    then have s': "s' = cleanup_session e c s2" "\<not> escaped" using assms r by (simp_all add: process_single_request_def)
    then show ?thesis
      using n2 False by (auto simp: frame_simps mw_simps remove_session_def session_exists_def split: option.splits)
  next
    case True
    let ?s3 = "s2\<lparr>pending_replays := AList.delete c (pending_replays s2)\<rparr>"
    let ?fs = "case map_of (pending_replays s2) c of None \<Rightarrow> [] | Some fs \<Rightarrow> fs"
    have s': "s' = send_replays e c ?fs ?s3" "\<not> escaped"
      using True assms r by (simp_all add: process_single_request_def Let_def)
    have "grows (net (mw s2)) (mw ?s3)" by (simp add: grows_def)
    from send_replays_grows [OF this, of e c ?fs] obtain evs where "net (mw s') = net (mw s2) @ evs" "list_all not_text evs"
      by (auto simp: s' grows_def)
    moreover have "map_of (pending_replays s') c = None" unfolding s' by (rule send_replays_none) simp
    ultimately show ?thesis using n2 s'(2) True by (auto simp: list_all_iff filter_empty_conv)
  qed
qed

text \<open>The sample client subscribes: its response, then the retained sample, goes out.\<close>

theorem response_precedes_replays_witness:
  "\<exists>s' sent evs. process_single_request sample_ros_env [1] ''c'' (sample_connected sample_ros) = (False, s') \<and>
     net (mw s') = Text_Sent ''c'' (string_bytes ''r'') sent # evs \<and> filter (\<lambda>ev. \<not> not_text ev) evs = []"
proof -
  have h: "\<exists>s1. handle_request sample_ros_env ''c'' [1] (sample_connected sample_ros) = (Some ''r'', s1) \<and>
      ''c'' \<in> set (clients (mw s1))"
    using sample_ros_subscribe
    by (simp add: sample_connected_state sample_eval handle_subscribe_def parse_topic_def assign_all_def
      validate_topic_def default_whitelist_def matches_def extract_schema_def add_subscription_def
      collect_latched_replay_def sample_session_def)
  then obtain s1 where h1: "handle_request sample_ros_env ''c'' [1] (sample_connected sample_ros) = (Some ''r'', s1)"
      "''c'' \<in> set (clients (mw s1))" by blast
  obtain escaped s' where p: "process_single_request sample_ros_env [1] ''c'' (sample_connected sample_ros) = (escaped, s')"
    by fastforce
  have ne: "''c'' \<noteq> []" by simp
  from response_precedes_replays [OF h1(1) ne h1(2) p] obtain sent evs where
    "\<not> escaped" "net (mw s') = net (mw (sample_connected sample_ros)) @ Text_Sent ''c'' (string_bytes ''r'') sent # evs"
    "filter (\<lambda>ev. \<not> not_text ev) evs = []" by blast
  moreover have "net (mw (sample_connected sample_ros)) = []"
    by (simp add: sample_connected_state sample_mw_def)
  ultimately show ?thesis using p by auto
qed

section \<open>Timeouts\<close>

lemma remove_session_find:
  "map_of (sessions (fst (remove_session d m))) c = (if c = d then None else map_of (sessions m) c)"
  by (auto simp: remove_session_def split: option.splits)

lemma fold_cleanup_sessions:
  "map_of (sessions (sess (fold (cleanup_session e) cs s))) c =
     (if c \<in> set cs then None else map_of (sessions (sess s)) c)"
  by (induction cs arbitrary: s) (auto simp: frame_simps remove_session_find)

text \<open>
  C35. Timeouts are exact. The check removes a session exactly when the nanoseconds since its
  last heartbeat exceed the timeout, both as doubles, and leaves the others untouched. For times
  below two to the 53rd nanoseconds this is the exact comparison up to one nanosecond: nothing is
  removed before the timeout is over, and a session is removed once one nanosecond more has
  passed.
\<close>

theorem timeouts_exact:
  assumes "initialized s"
  shows "map_of (sessions (sess (check_session_timeouts e s))) c =
    (case map_of (sessions (sess s)) c of
       None \<Rightarrow> None
     | Some x \<Rightarrow> if to_double (timeout_duration (sess s) * 10 ^ 9) < to_double (of_int (steady_now e - last_heartbeat x))
                 then None else Some x) \<and>
    (\<forall>x n. map_of (sessions (sess s)) c = Some x \<and> n = steady_now e - last_heartbeat x \<and> 0 \<le> n \<and> n < 2 ^ 53 \<and>
       0 < timeout_duration (sess s) \<and> timeout_duration (sess s) * 10 ^ 9 < 2 ^ 53 \<longrightarrow>
       (of_int n \<le> timeout_duration (sess s) * 10 ^ 9 \<longrightarrow>
          map_of (sessions (sess (check_session_timeouts e s))) c = Some x) \<and>
       (timeout_duration (sess s) * 10 ^ 9 + 1 \<le> of_int n \<longrightarrow>
          map_of (sessions (sess (check_session_timeouts e s))) c = None))"
proof -
  let ?T = "timeout_duration (sess s) * 10 ^ 9"
  have "c \<in> set (get_timed_out_sessions ho now m) \<longleftrightarrow>
      (\<exists>x. map_of (sessions m) c = Some x \<and>
         to_double (of_int (now - last_heartbeat x)) > to_double (timeout_duration m * 10 ^ 9))"
    for ho now m
    by (force simp: get_timed_out_sessions_def in_entries_iff)
  then have r: "map_of (sessions (sess (check_session_timeouts e s))) c =
      (case map_of (sessions (sess s)) c of
         None \<Rightarrow> None
       | Some x \<Rightarrow> if to_double ?T < to_double (of_int (steady_now e - last_heartbeat x)) then None else Some x)"
    using assms by (simp add: check_session_timeouts_def fold_cleanup_sessions split: option.splits)
  have bounds: "(of_int n \<le> ?T \<longrightarrow> \<not> to_double ?T < to_double (of_int n)) \<and> (?T + 1 \<le> of_int n \<longrightarrow> to_double ?T < to_double (of_int n))"
    if "0 \<le> n" "n < 2 ^ 53" "0 < timeout_duration (sess s)" "?T < 2 ^ 53" for n
  proof (intro conjI impI)
    have pos: "0 < ?T" using that(3) by simp
    { assume "of_int n \<le> ?T"
      from to_double_ge [OF pos that(4) this] show "\<not> to_double ?T < to_double (of_int n)"
        by (simp only: to_double_of_nonneg [OF that(1,2)] not_less) }
    { assume "?T + 1 \<le> of_int n"
      then have "?T \<le> of_int (n - 1)" by simp
      from to_double_le [OF pos that(4) this] have "to_double ?T < of_int n" by simp
      then show "to_double ?T < to_double (of_int n)"
        by (simp only: to_double_of_nonneg [OF that(1,2)]) }
  qed
  show ?thesis
  proof (intro conjI r allI impI; elim conjE)
    fix x n
    assume x: "map_of (sessions (sess s)) c = Some x" "n = steady_now e - last_heartbeat x"
      and b: "0 \<le> n" "n < 2 ^ 53" "0 < timeout_duration (sess s)" "?T < 2 ^ 53"
    note b = bounds [OF b]
    { assume "of_int n \<le> ?T"
      with b have "\<not> to_double ?T < to_double (of_int n)" by blast
      with r x show "map_of (sessions (sess (check_session_timeouts e s))) c = Some x" by simp }
    { assume "?T + 1 \<le> of_int n"
      with b have "to_double ?T < to_double (of_int n)" by blast
      with r x show "map_of (sessions (sess (check_session_timeouts e s))) c = None" by simp }
  qed
qed

text \<open>With a timeout of ten seconds, and with one of three tenths of a second, whose double is smaller.\<close>

theorem timeouts_exact_witness:
  "map_of (sessions (sess (check_session_timeouts (sample_ros_env\<lparr>steady_now := 10000000001\<rparr>) sample_ros_server))) ''c'' = None \<and>
   map_of (sessions (sess (check_session_timeouts (sample_ros_env\<lparr>steady_now := 10000000000\<rparr>) sample_ros_server))) ''c'' \<noteq> None \<and>
   map_of (sessions (sess (check_session_timeouts (sample_ros_env\<lparr>steady_now := 300000000\<rparr>)
     (sample_ros_server\<lparr>sess := sess sample_ros_server\<lparr>timeout_duration := three_tenths\<rparr>\<rparr>)))) ''c'' \<noteq> None"
proof -
  let ?s = "sample_ros_server\<lparr>sess := sess sample_ros_server\<lparr>timeout_duration := three_tenths\<rparr>\<rparr>"
  have i: "initialized sample_ros_server" "initialized ?s" by (simp_all add: sample_ros_state)
  have x: "map_of (sessions (sess sample_ros_server)) ''c'' = Some (sample_session False)"
      "map_of (sessions (sess ?s)) ''c'' = Some (sample_session False)"
      "timeout_duration (sess sample_ros_server) = 10" "timeout_duration (sess ?s) = three_tenths"
      "last_heartbeat (sample_session False) = 0"
    by (simp_all add: sample_ros_state sample_session_def)
  have three: "to_double (of_int (300000000 - 0)) = 300000000"
    using to_double_of_nonneg [of 300000000] by simp
  have 1: "map_of (sessions (sess (check_session_timeouts (sample_ros_env\<lparr>steady_now := 10000000001\<rparr>) sample_ros_server))) ''c'' = None"
    using conjunct2 [OF timeouts_exact [OF i(1), of "sample_ros_env\<lparr>steady_now := 10000000001\<rparr>" "''c''"]]
    by (simp add: x)
  have 2: "map_of (sessions (sess (check_session_timeouts (sample_ros_env\<lparr>steady_now := 10000000000\<rparr>) sample_ros_server))) ''c'' \<noteq> None"
    using conjunct2 [OF timeouts_exact [OF i(1), of "sample_ros_env\<lparr>steady_now := 10000000000\<rparr>" "''c''"]]
    by (simp add: x)
  have 3: "map_of (sessions (sess (check_session_timeouts (sample_ros_env\<lparr>steady_now := 300000000\<rparr>) ?s))) ''c'' \<noteq> None"
    using conjunct1 [OF timeouts_exact [OF i(2), of "sample_ros_env\<lparr>steady_now := 300000000\<rparr>" "''c''"]] three
    by (simp only: x three_tenths_ns option.case env.simps) simp
  from 1 2 3 show ?thesis by blast
qed

section \<open>Topic notifications\<close>

text \<open>Sessions may vanish during the sending, the others stay as they are.\<close>

definition sessions_within :: "session_manager \<Rightarrow> session_manager \<Rightarrow> bool" where
  "sessions_within m m' = (\<forall>c. map_of (sessions m') c \<in> {None, map_of (sessions m) c})"

lemma sessions_within_trans: "sessions_within m1 m2 \<Longrightarrow> sessions_within m2 m3 \<Longrightarrow> sessions_within m1 m3"
  by (force simp: sessions_within_def)

lemma sessions_within_wants:
  assumes "sessions_within m m'" "wants_topic_updates c m'"
  shows "wants_topic_updates c m" "wants_schemas_in_updates c m' = wants_schemas_in_updates c m"
proof -
  have "map_of (sessions m') c \<noteq> None" using assms(2) by (auto simp: wants_topic_updates_def split: option.splits)
  then have "map_of (sessions m') c = map_of (sessions m) c"
    using spec [OF assms(1) [unfolded sessions_within_def], of c] by (simp del: not_None_eq)
  then show "wants_topic_updates c m" "wants_schemas_in_updates c m' = wants_schemas_in_updates c m"
    using assms(2) by (simp_all add: wants_topic_updates_def wants_schemas_in_updates_def)
qed

lemma fold_cleanup_clients: "clients (mw (fold (cleanup_session e) cs s)) = clients (mw s)"
  by (induction cs arbitrary: s) (simp_all add: frame_simps mw_simps)

lemma fold_cleanup_mw_wf: "mw_wf (mw s) \<Longrightarrow> mw_wf (mw (fold (cleanup_session e) cs s))"
  by (induction cs arbitrary: s) (simp_all add: frame_simps drop_pending_wf)

text \<open>A text for a connected client goes to its socket once, and one for another client nowhere.\<close>

lemma reply_effect:
  assumes "mw_wf (mw s)" and "s' = snd (reply_to e c d s)"
  shows "sessions_within (sess s) (sess s')" "known_topics s' = known_topics s" "mw_wf (mw s')"
    "set (clients (mw s')) \<subseteq> set (clients (mw s))"
    "if c \<in> set (clients (mw s)) then \<exists>sent. net (mw s') = net (mw s) @ [Text_Sent c d sent]
     else net (mw s') = net (mw s)"
proof -
  have k: "known_topics (fold (cleanup_session e) cs x) = known_topics x" for cs x
    by (induction cs arbitrary: x) (simp_all add: frame_simps)
  show "sessions_within (sess s) (sess s')"
    by (auto simp: assms(2) sessions_within_def reply_to_def case_prod_beta after_socket_call_def Let_def fold_cleanup_sessions)
  show "known_topics s' = known_topics s"
    by (simp add: assms(2) reply_to_def case_prod_beta after_socket_call_def Let_def k)
  have "mw_wf (snd (send_reply (network e) c d (mw s)))" using assms(1) by (rule send_reply_wf)
  then show "mw_wf (mw s')"
    by (simp add: assms(2) reply_to_def case_prod_beta after_socket_call_def Let_def fold_cleanup_mw_wf)
  show "set (clients (mw s')) \<subseteq> set (clients (mw s))"
    by (auto simp: assms reply_to_def send_reply_def case_prod_beta after_socket_call_def Let_def fold_cleanup_clients
        observe_clients split: if_splits)
  show "if c \<in> set (clients (mw s)) then \<exists>sent. net (mw s') = net (mw s) @ [Text_Sent c d sent]
     else net (mw s') = net (mw s)"
    by (auto simp: assms(2) reply_to_def send_reply_def case_prod_beta after_socket_net Let_def mw_simps)
qed

text \<open>The variant of a notification that a client asked for.\<close>

definition notification_for :: "session_manager \<Rightarrow> bytes \<Rightarrow> string option \<Rightarrow> string \<Rightarrow> bytes" where
  "notification_for m plain with_schemas c =
     (if wants_schemas_in_updates c m then string_bytes (the with_schemas) else plain)"

text \<open>
  The loop sends to the clients that ask for updates, once each and in the order of the loop;
  whoever asks and is connected at the end was sent its notification.
\<close>

lemma notify_effect:
  assumes "notify_clients e cs plain ws made s = (False, s')" "made = None \<or> made = ws"
    and "sessions_within m (sess s)" "mw_wf (mw s)"
  shows "known_topics s' = known_topics s \<and> set (clients (mw s')) \<subseteq> set (clients (mw s)) \<and>
    sessions_within (sess s) (sess s') \<and>
    (\<exists>sends. net (mw s') = net (mw s) @ map (\<lambda>(c, sent). Text_Sent c (notification_for m plain ws c) sent) sends \<and>
       subseq (map fst sends) cs \<and> (\<forall>c \<in> set (map fst sends). wants_topic_updates c m \<and> c \<in> set (clients (mw s))) \<and>
       (\<forall>c \<in> set cs. wants_topic_updates c (sess s') \<and> c \<in> set (clients (mw s')) \<longrightarrow> c \<in> set (map fst sends)))"
  using assms
proof (induction cs arbitrary: made s)
  case Nil
  then show ?case by (simp add: sessions_within_def)
next
  case (Cons c cs)
  note within = sessions_within_wants [OF Cons.prems(3)]
  show ?case
  proof (cases "wants_topic_updates c (sess s)")
    case False
    with Cons.prems(1) have rest: "notify_clients e cs plain ws made s = (False, s')" by simp
    from Cons.IH [OF this Cons.prems(2-4)] obtain sends where
      ih: "known_topics s' = known_topics s" "set (clients (mw s')) \<subseteq> set (clients (mw s))" "sessions_within (sess s) (sess s')"
      "net (mw s') = net (mw s) @ map (\<lambda>(c, sent). Text_Sent c (notification_for m plain ws c) sent) sends"
      "subseq (map fst sends) cs" "\<forall>c \<in> set (map fst sends). wants_topic_updates c m \<and> c \<in> set (clients (mw s))"
      "\<forall>c \<in> set cs. wants_topic_updates c (sess s') \<and> c \<in> set (clients (mw s')) \<longrightarrow> c \<in> set (map fst sends)" by blast
    moreover have "\<not> wants_topic_updates c (sess s')" using sessions_within_wants(1) [OF ih(3)] False by blast
    ultimately show ?thesis by (intro conjI exI [of _ sends]) auto
  next
    case True
    let ?d = "notification_for m plain ws c"
    let ?s1 = "snd (reply_to e c ?d s)"
    obtain made' where n: "notify_clients e cs plain ws made' ?s1 = (False, s')" "made' = None \<or> made' = ws"
      using Cons.prems(1,2) True within(2) [OF True] by (auto simp: notification_for_def split: if_splits option.splits)
    note r = reply_effect [OF Cons.prems(4) refl, where e = e and c = c and d = ?d]
    from Cons.IH [OF n sessions_within_trans [OF Cons.prems(3) r(1)] r(3)] obtain sends where
      ih: "known_topics s' = known_topics ?s1" "set (clients (mw s')) \<subseteq> set (clients (mw ?s1))" "sessions_within (sess ?s1) (sess s')"
      "net (mw s') = net (mw ?s1) @ map (\<lambda>(c, sent). Text_Sent c (notification_for m plain ws c) sent) sends"
      "subseq (map fst sends) cs" "\<forall>c \<in> set (map fst sends). wants_topic_updates c m \<and> c \<in> set (clients (mw ?s1))"
      "\<forall>c \<in> set cs. wants_topic_updates c (sess s') \<and> c \<in> set (clients (mw s')) \<longrightarrow> c \<in> set (map fst sends)" by blast
    have still: "known_topics s' = known_topics s" "set (clients (mw s')) \<subseteq> set (clients (mw s))" "sessions_within (sess s) (sess s')"
      using ih(1-3) r(1,2,4) sessions_within_trans [OF r(1) ih(3)] by auto
    show ?thesis
    proof (cases "c \<in> set (clients (mw s))")
      case True
      with r(5) obtain sent where "net (mw ?s1) = net (mw s) @ [Text_Sent c ?d sent]" by auto
      with ih(4-7) r(4) still True within(1) [OF \<open>wants_topic_updates c (sess s)\<close>] show ?thesis
        by (intro conjI exI [of _ "(c, sent) # sends"]) auto
    next
      case False
      with r(5) have "net (mw ?s1) = net (mw s)" by simp
      with ih(4-7) r(4) still False show ?thesis by (intro conjI exI [of _ sends]) auto
    qed
  qed
qed

lemma added_topics_find:
  "map_of (added_topics ho known current) t = (if map_of known t = map_of current t then None else map_of current t)"
proof -
  have "unique (t, ty)" if "unique = (\<lambda>p. p \<in> set (added_topics ho known current) \<longleftrightarrow>
      map_of current (fst p) = Some (snd p) \<and> map_of known (fst p) \<noteq> Some (snd p))" for unique ty
    using that by (auto simp: added_topics_def in_entries_iff)
  then have iff: "(t, ty) \<in> set (added_topics ho known current) \<longleftrightarrow>
      map_of current t = Some ty \<and> map_of known t \<noteq> Some ty" for ty by simp
  show ?thesis
  proof (cases "map_of (added_topics ho known current) t")
    case None
    then have "\<nexists>ty. (t, ty) \<in> set (added_topics ho known current)" by (force simp: map_of_eq_None_iff)
    then show ?thesis using None iff by (cases "map_of current t") auto
  next
    case (Some ty)
    then have "(t, ty) \<in> set (added_topics ho known current)" by (rule map_of_SomeD)
    then show ?thesis using Some iff by auto
  qed
qed

lemma removed_topics_iff:
  "t \<in> set (removed_topics ho known current) \<longleftrightarrow> map_of known t \<noteq> None \<and> map_of known t \<noteq> map_of current t"
  by (force simp: removed_topics_def in_entries_iff)

lemma subseq_imp_distinct: "subseq xs ys \<Longrightarrow> distinct ys \<Longrightarrow> distinct xs"
  by (induction rule: list_emb.induct) (auto dest: list_emb_set)

text \<open>
  C34. Topic notifications are exact. The first check only records the topics; a check that finds
  them unchanged sends nothing. Otherwise one notification goes to each client that asked for
  updates and is connected, in the order of the sessions and to nobody else, with schemas if
  the client asked for these; whoever asks for updates and is connected after the check has been sent
  it. Its lists of removed and added topics, applied to the topics known before in this order,
  give the current ones. The server then knows the current topics.
\<close>

theorem topic_notifications_exact:
  assumes "initialized s" and "sessions_wf (sess s)" "mw_wf (mw s)"
    and "check_topic_changes e s = (False, s')"
    and "current = current_topics e (whitelist s)"
    and "fresh = added_topics (order e) (known_topics s) current"
    and "gone = removed_topics (order e) (known_topics s) current"
    and "plain = json_dump e (notification (map (topic_entry e False) fresh) gone)"
    and "with_schemas = json_dump e (notification (map (topic_entry e True) fresh) gone)"
  shows "known_topics s' = current \<and>
    (\<forall>t. map_of current t =
       (case map_of fresh t of Some ty \<Rightarrow> Some ty
        | None \<Rightarrow> if t \<in> set gone then None else map_of (known_topics s) t)) \<and>
    (if topics_snapshot_taken s \<and> map_of (known_topics s) \<noteq> map_of current
     then \<exists>sends. net (mw s') = net (mw s) @
            map (\<lambda>(c, sent). Text_Sent c (string_bytes (the (if wants_schemas_in_updates c (sess s) then with_schemas
               else plain))) sent) sends \<and>
          subseq (map fst sends) (get_active_sessions (order e) (sess s)) \<and> distinct (map fst sends) \<and>
          (\<forall>c \<in> set (map fst sends). wants_topic_updates c (sess s) \<and> c \<in> set (clients (mw s))) \<and>
          (\<forall>c. wants_topic_updates c (sess s') \<and> c \<in> set (clients (mw s')) \<longrightarrow> c \<in> set (map fst sends))
     else net (mw s') = net (mw s))"
proof -
  have diff: "map_of current t = (case map_of fresh t of Some ty \<Rightarrow> Some ty
        | None \<Rightarrow> if t \<in> set gone then None else map_of (known_topics s) t)" for t
    unfolding assms(6,7) added_topics_find removed_topics_iff
    by (cases "map_of current t") (auto split: option.splits)
  have changed: "map_of (known_topics s) = map_of current \<longleftrightarrow> fresh = [] \<and> gone = []"
  proof
    assume eq: "map_of (known_topics s) = map_of current"
    then have "gone = []" using removed_topics_iff [of _ "order e" "known_topics s" current]
      by (metis assms(7) last_in_set)
    moreover have "map_of fresh t = None" for t by (simp add: assms(6) added_topics_find eq)
    then have "fresh = []" by (cases fresh; cases "hd fresh") (auto, metis option.distinct(1))
    ultimately show "fresh = [] \<and> gone = []" by simp
  next
    assume "fresh = [] \<and> gone = []"
    then show "map_of (known_topics s) = map_of current" using diff by (intro ext) simp
  qed
  show ?thesis
  proof (cases "topics_snapshot_taken s \<and> map_of (known_topics s) \<noteq> map_of current")
    case False
    then have "known_topics s' = current \<and> net (mw s') = net (mw s)"
      using assms(1,4) unfolding changed
      by (auto simp: check_topic_changes_def Let_def assms(5-7) split: if_splits)
    with diff False show ?thesis by auto
  next
    case True
    let ?s1 = "s\<lparr>known_topics := current\<rparr>"
    let ?active = "get_active_sessions (order e) (sess s)"
    from True assms(1,4) obtain content where t: "plain = Some content"
        "notify_clients e ?active (string_bytes content) with_schemas None ?s1 = (False, s')"
      unfolding changed
      by (auto simp: check_topic_changes_def Let_def assms(5-9) split: option.splits if_splits)
    have "sessions_within (sess s) (sess ?s1)" "mw_wf (mw ?s1)" using assms(3) by (simp_all add: sessions_within_def)
    from notify_effect [OF t(2) _ this] obtain sends where
      n: "known_topics s' = current" "sessions_within (sess s) (sess s')" "subseq (map fst sends) ?active"
      "net (mw s') = net (mw s) @
         map (\<lambda>(c, sent). Text_Sent c (notification_for (sess s) (string_bytes content) with_schemas c) sent) sends"
      "\<forall>c \<in> set (map fst sends). wants_topic_updates c (sess s) \<and> c \<in> set (clients (mw s))"
      "\<forall>c \<in> set ?active. wants_topic_updates c (sess s') \<and> c \<in> set (clients (mw s')) \<longrightarrow> c \<in> set (map fst sends)"
      by auto
    have "c \<in> set ?active" if "wants_topic_updates c (sess s')" for c
      using sessions_within_wants(1) [OF n(2) that]
      by (auto simp: set_active_sessions session_exists_def wants_topic_updates_def split: option.splits)
    moreover have "distinct (map fst sends)"
      using n(3) distinct_active_sessions [OF assms(2)] by (rule subseq_imp_distinct)
    moreover have "(\<lambda>(c, sent). Text_Sent c (string_bytes (the (if wants_schemas_in_updates c (sess s) then with_schemas
               else plain))) sent) = (\<lambda>(c, sent). Text_Sent c (notification_for (sess s) (string_bytes content) with_schemas c) sent)"
      by (auto simp: fun_eq_iff notification_for_def t(1))
    ultimately show ?thesis
      using diff n True by simp (intro exI [of _ sends] conjI; blast)
  qed
qed

text \<open>The sample client asks for updates, and the one topic of its source is new.\<close>

definition sample_watching :: "(ros2_manager, unit) server" where
  "sample_watching = sample_ros_server
     \<lparr>topics_snapshot_taken := True, sess := fst (set_topic_updates ''c'' True (sess sample_ros_server))\<rparr>"

lemma notify_returns: "ws \<noteq> None \<Longrightarrow> fst (notify_clients e cs plain ws made s) = False"
  by (induction e cs plain ws made s rule: notify_clients.induct) (auto split: option.splits)

theorem topic_notifications_exact_witness:
  "\<exists>s' sends. check_topic_changes sample_ros_env sample_watching = (False, s') \<and> known_topics s' = [(''/a'', ''T'')] \<and>
     known_topics sample_watching = [] \<and>
     net (mw s') = net (mw sample_watching) @ map (\<lambda>(c, sent). Text_Sent c (string_bytes ''r'') sent) sends \<and>
     map fst sends = [''c'']"
proof -
  have i: "initialized sample_watching" "known_topics sample_watching = []" "whitelist sample_watching = default_whitelist"
      "topics_snapshot_taken sample_watching" "net (mw sample_watching) = [Text_Sent ''c'' (string_bytes ''r'') True]"
    by (simp_all add: sample_watching_def sample_ros_state sample_state_def sample_mw_def)
  have wf: "sessions_wf (sess sample_watching)" "mw_wf (mw sample_watching)"
    using ros2_reachable(5) [OF sample_ros_reachable]
    by (simp_all add: sample_watching_def set_topic_updates_wf sample_ros_state sample_state_def)
      (simp_all add: mw_wf_def sample_mw_def kMaxIncomingQueueSize_def)
  have cur: "current_topics sample_ros_env default_whitelist = [(''/a'', ''T'')]"
    by (simp add: current_topics_def matches_def default_whitelist_def)
  obtain thrown s' where c: "check_topic_changes sample_ros_env sample_watching = (thrown, s')" by fastforce
  moreover have "\<not> fst (check_topic_changes sample_ros_env sample_watching)"
    by (simp add: check_topic_changes_def Let_def notify_returns)
  ultimately have c': "check_topic_changes sample_ros_env sample_watching = (False, s')" by simp
  have active: "get_active_sessions (order sample_ros_env) (sess sample_watching) = [''c'']"
    by (simp add: sample_watching_def sample_ros_state sample_state_def get_active_sessions_def entries_insertion
      set_topic_updates_def with_session_def)
  have here: "wants_topic_updates ''c'' (sess s')" "''c'' \<in> set (clients (mw s'))"
    using c'
    by (auto simp: check_topic_changes_def Let_def sample_watching_def sample_ros_state sample_state_def sample_mw_def
      current_topics_def matches_def default_whitelist_def added_topics_def removed_topics_def
      get_active_sessions_def entries_def reply_to_def send_reply_def
      wants_topic_updates_def wants_schemas_in_updates_def after_socket_call_def observe_def calm_network_def
      set_topic_updates_def with_session_def sample_session_def)
  have "map_of (known_topics sample_watching) \<noteq> map_of [(''/a'', ''T'')]" by (simp add: i(2) fun_eq_iff)
  with topic_notifications_exact [OF i(1) wf c' refl refl refl refl refl] i(2-5) cur active obtain sends where
    "known_topics s' = [(''/a'', ''T'')]" "net (mw s') = net (mw sample_watching) @ map (\<lambda>(c, sent). Text_Sent c (string_bytes ''r'') sent) sends"
    "subseq (map fst sends) [''c'']"
    "\<forall>c. wants_topic_updates c (sess s') \<and> c \<in> set (clients (mw s')) \<longrightarrow> c \<in> set (map fst sends)"
    by (auto cong del: if_weak_cong)
  moreover from this here have "map fst sends \<noteq> []" by auto
  then have "map fst sends = [''c'']"
    using \<open>subseq (map fst sends) [''c'']\<close> by (cases "map fst sends") (auto split: if_splits)
  ultimately show ?thesis using c' i(2) by (intro exI [of _ s'] exI [of _ sends]) auto
qed

end
