(* ===== verification/Schema_Extractor.thy ===== *)
theory Schema_Extractor
  imports Prelude
begin

text \<open>
  The schema extractor of the ROS 2 backend (\<^verbatim>\<open>src/ros2/src/schema_extractor.cpp\<close>): it reads
  the \<^verbatim>\<open>.msg\<close> file of a type and appends the files of the types it mentions, recursively.
  The ament index and the file system are values of the model, both finite; the two caches of
  the class are its state. The recursion takes fuel, and \<open>expansion_fuel\<close> is proved enough.
\<close>

section \<open>Text\<close>

text \<open>The lines that repeated \<^verbatim>\<open>std::getline\<close> reads: no line follows a final newline.\<close>

fun getlines :: "string \<Rightarrow> string list" where
  "getlines [] = []"
| "getlines (c # cs) =
     (if c = CHR 0x0A then [] # getlines cs
      else case getlines cs of [] \<Rightarrow> [[c]] | l # ls \<Rightarrow> (c # l) # ls)"

definition unlines :: "string list \<Rightarrow> string" where
  "unlines ls = concat (map (\<lambda>l. l @ [CHR 0x0A]) ls)"

lemma unlines_simps [simp]:
  "unlines [] = []" "unlines (l # ls) = l @ CHR 0x0A # unlines ls"
  "unlines (ls @ ls') = unlines ls @ unlines ls'"
  by (simp_all add: unlines_def)

lemma getlines_line: "CHR 0x0A \<notin> set l \<Longrightarrow> getlines (l @ CHR 0x0A # cs) = l # getlines cs"
  by (induction l) auto

lemma getlines_unlines: "\<forall>l \<in> set ls. CHR 0x0A \<notin> set l \<Longrightarrow> getlines (unlines ls) = ls"
  by (induction ls) (auto simp: getlines_line)

lemma getlines_no_newline: "l \<in> set (getlines cs) \<Longrightarrow> CHR 0x0A \<notin> set l"
  by (induction cs arbitrary: l) (auto split: if_splits list.splits)

definition is_space :: "char \<Rightarrow> bool" where
  "is_space c = (c \<in> {CHR '' '', CHR 0x09, CHR 0x0A, CHR 0x0B, CHR 0x0C, CHR 0x0D})"

text \<open>The word that \<^verbatim>\<open>line_stream >> first_word\<close> extracts, empty when there is none.\<close>

definition first_word :: "string \<Rightarrow> string" where
  "first_word line = takeWhile (\<lambda>c. \<not> is_space c) (dropWhile is_space line)"

text \<open>\<^verbatim>\<open>s.substr(0, s.find(c))\<close>, the whole string when \<open>c\<close> is absent, and what follows \<open>c\<close>.\<close>

abbreviation before :: "char \<Rightarrow> string \<Rightarrow> string" where
  "before c s \<equiv> takeWhile (\<lambda>x. x \<noteq> c) s"

abbreviation after :: "char \<Rightarrow> string \<Rightarrow> string" where
  "after c s \<equiv> tl (dropWhile (\<lambda>x. x \<noteq> c) s)"

abbreviation slash :: char where
  "slash \<equiv> CHR ''/''"

definition full_name :: "string \<Rightarrow> string \<Rightarrow> string" where
  "full_name package type_name = package @ slash # type_name"

lemma before_full_name [simp]: "slash \<notin> set p \<Longrightarrow> before slash (full_name p t) = p"
  by (induction p) (auto simp: full_name_def)

lemma after_full_name [simp]: "slash \<notin> set p \<Longrightarrow> after slash (full_name p t) = t"
  by (induction p) (auto simp: full_name_def)

lemma full_name_parts: "slash \<in> set s \<Longrightarrow> full_name (before slash s) (after slash s) = s"
  by (induction s) (auto simp: full_name_def)

lemma slash_in_full_name [simp]: "slash \<in> set (full_name p t)"
  by (simp add: full_name_def)

lemma no_slash_before [simp]: "slash \<notin> set (before slash s)"
  by (auto dest: set_takeWhileD)

section \<open>Types\<close>

definition parse_message_type :: "string \<Rightarrow> (string \<times> string) option" where
  "parse_message_type mt =
     (if slash \<notin> set mt then None
      else if slash \<notin> set (after slash mt) then None
      else Some (before slash mt, after slash (after slash mt)))"

definition kBuiltinTypes :: "string list" where
  "kBuiltinTypes =
     [''bool'', ''byte'', ''char'', ''float32'', ''float64'', ''int8'', ''uint8'', ''int16'', ''uint16'',
      ''int32'', ''uint32'', ''int64'', ''uint64'', ''string'', ''wstring'']"

text \<open>The message type that a line of a file of \<open>package\<close> mentions, if any.\<close>

definition nested_of_line :: "string \<Rightarrow> string \<Rightarrow> string option" where
  "nested_of_line package line =
     (let w = first_word line
      in if w = [] \<or> hd w = CHR ''#'' then None
         else let (nested_package, nested_type) =
                (if slash \<in> set w then (before slash w, before (CHR ''['') (after slash w))
                 else let base_type = before (CHR ''<'') (before (CHR ''['') w)
                      in if base_type \<in> set kBuiltinTypes then ([], []) else (package, base_type))
              in if nested_type = [] then None else Some (full_name nested_package nested_type))"

lemma nested_of_line_slash: "nested_of_line p l = Some x \<Longrightarrow> slash \<in> set x"
  by (auto simp: nested_of_line_def Let_def split: if_splits prod.splits)

section \<open>Files\<close>

record disk =
  share_directories :: "string umap"
  msg_files :: "string umap"

text \<open>A file as the extractor reads it, line by line: the last line ends with a newline too.\<close>

definition read_msg_file :: "disk \<Rightarrow> string \<Rightarrow> string \<Rightarrow> string option" where
  "read_msg_file d package type_name =
     (case map_of (share_directories d) package of
        None \<Rightarrow> None
      | Some dir \<Rightarrow>
          map_option (\<lambda>raw. unlines (getlines raw))
            (map_of (msg_files d) (dir @ ''/msg/'' @ type_name @ ''.msg'')))"

record extraction =
  expanded :: string
  processed_types :: "string list"
  msg_file_cache :: "string umap"

text \<open>The content from the cache or, when that is empty, from the disk.\<close>

definition load_msg :: "disk \<Rightarrow> string \<Rightarrow> string \<Rightarrow> extraction \<Rightarrow> string option \<times> extraction" where
  "load_msg d package type_name x =
     (let full_type = full_name package type_name;
          cached = (case map_of (msg_file_cache x) full_type of None \<Rightarrow> [] | Some c \<Rightarrow> c)
      in if cached \<noteq> [] then (Some cached, x)
         else case read_msg_file d package type_name of
                None \<Rightarrow> (None, x)
              | Some content \<Rightarrow>
                  (Some content, x\<lparr>msg_file_cache := AList.update full_type content (msg_file_cache x)\<rparr>))"

definition separator :: string where
  "separator = [CHR 0x0A] @ replicate 80 (CHR ''='') @ [CHR 0x0A]"

definition section_header :: "string \<Rightarrow> string" where
  "section_header full_type = separator @ ''MSG: '' @ full_type @ [CHR 0x0A]"

text \<open>The loop over the lines: copy each, collect the types not processed before.\<close>

fun scan_lines :: "string \<Rightarrow> string list \<Rightarrow> string list \<Rightarrow> extraction \<Rightarrow> string list \<times> extraction" where
  "scan_lines package [] nested x = (nested, x)"
| "scan_lines package (line # ls) nested x =
     (let x1 = x\<lparr>expanded := expanded x @ line @ [CHR 0x0A]\<rparr>
      in case nested_of_line package line of
           None \<Rightarrow> scan_lines package ls nested x1
         | Some t \<Rightarrow>
             if t \<in> set (processed_types x1) then scan_lines package ls nested x1
             else scan_lines package ls (nested @ [t])
                    (x1\<lparr>processed_types := processed_types x1 @ [t]\<rparr>))"

definition move_header_last :: "string list \<Rightarrow> string list" where
  "move_header_last ts =
     (if 2 \<le> length ts \<and> ts ! 0 = ''std_msgs/Header'' then tl ts @ [ts ! 0] else ts)"

lemma mset_move_header_last [simp]: "mset (move_header_last ts) = mset ts"
  by (cases ts) (auto simp: move_header_last_def)

lemma set_move_header_last [simp]: "set (move_header_last ts) = set ts"
  by (metis mset_move_header_last set_mset_mset)

lemma distinct_move_header_last [simp]: "distinct (move_header_last ts) = distinct ts"
  by (metis mset_move_header_last mset_eq_imp_distinct_iff)

section \<open>Expansion\<close>

fun build_message_definition_recursive ::
    "nat \<Rightarrow> disk \<Rightarrow> string \<Rightarrow> string \<Rightarrow> bool \<Rightarrow> extraction \<Rightarrow> (bool \<times> extraction) option"
  and build_nested :: "nat \<Rightarrow> disk \<Rightarrow> string list \<Rightarrow> extraction \<Rightarrow> (bool \<times> extraction) option" where
  "build_message_definition_recursive 0 d package type_name is_root x = None"
| "build_message_definition_recursive (Suc fuel) d package type_name is_root x =
     (case load_msg d package type_name x of
        (None, x1) \<Rightarrow> Some (False, x1)
      | (Some content, x1) \<Rightarrow>
          let x2 = (if is_root then x1
                    else x1\<lparr>expanded := expanded x1 @ section_header (full_name package type_name)\<rparr>);
              (nested, x3) = scan_lines package (getlines content) [] x2
          in build_nested fuel d (move_header_last nested) x3)"
| "build_nested fuel d [] x = Some (True, x)"
| "build_nested fuel d (t # ts) x =
     (case build_message_definition_recursive fuel d (before slash t) (after slash t) False x of
        None \<Rightarrow> None
      | Some (False, x1) \<Rightarrow> Some (False, x1)
      | Some (True, x1) \<Rightarrow> build_nested fuel d ts x1)"

section \<open>The extractor\<close>

record extractor =
  definition_cache :: "string umap"
  file_cache :: "string umap"

definition new_extractor :: extractor where
  "new_extractor = \<lparr>definition_cache = [], file_cache = []\<rparr>"

definition expansion_fuel :: "disk \<Rightarrow> extractor \<Rightarrow> nat" where
  "expansion_fuel d x =
     Suc (Suc (length (share_directories d) * length (msg_files d) + length (file_cache x)))"

definition invalid_type :: "string \<Rightarrow> string" where
  "invalid_type mt = ''invalid message type format: '' @ [CHR 0x27] @ mt @ [CHR 0x27]"

definition unresolved :: "string \<Rightarrow> string" where
  "unresolved mt = ''failed to resolve message definition for '' @ [CHR 0x27] @ mt @ [CHR 0x27]"

text \<open>An error text or a definition; \<^const>\<open>None\<close> only if the fuel did not suffice.\<close>

definition try_get_message_definition ::
    "disk \<Rightarrow> string \<Rightarrow> extractor \<Rightarrow> ((string + string) \<times> extractor) option" where
  "try_get_message_definition d mt x =
     (case map_of (definition_cache x) mt of
        Some text \<Rightarrow> Some (Inr text, x)
      | None \<Rightarrow>
          (case parse_message_type mt of
             None \<Rightarrow> Some (Inl (invalid_type mt), x)
           | Some (package, type_name) \<Rightarrow>
               (case build_message_definition_recursive (expansion_fuel d x) d package type_name True
                       \<lparr>expanded = [], processed_types = [], msg_file_cache = file_cache x\<rparr> of
                  None \<Rightarrow> None
                | Some (ok, y) \<Rightarrow>
                    let x1 = x\<lparr>file_cache := msg_file_cache y\<rparr>
                    in if \<not> ok then Some (Inl (unresolved mt), x1)
                       else Some (Inr (expanded y),
                              x1\<lparr>definition_cache := AList.update mt (expanded y) (definition_cache x1)\<rparr>))))"

definition get_message_definition :: "disk \<Rightarrow> string \<Rightarrow> extractor \<Rightarrow> (string \<times> extractor) option" where
  "get_message_definition d mt x =
     map_option (\<lambda>(r, x1). (case r of Inr text \<Rightarrow> text | Inl _ \<Rightarrow> [], x1)) (try_get_message_definition d mt x)"

section \<open>Comments\<close>

definition trim_end :: "string \<Rightarrow> string" where
  "trim_end s = rev (dropWhile (\<lambda>c. c \<in> {CHR '' '', CHR 0x09, CHR 0x0D, CHR 0x0A}) (rev s))"

definition uncomment_line :: "string \<Rightarrow> string list" where
  "uncomment_line line =
     (if CHR ''#'' \<in> set line
      then let t = trim_end (before (CHR ''#'') line) in if t = [] then [] else [t]
      else [line])"

definition remove_comments_from_schema :: "string \<Rightarrow> string" where
  "remove_comments_from_schema schema =
     unlines (concat (map uncomment_line (getlines schema)))"

end
