(* ===== verification/Schema_Properties.thy ===== *)
theory Schema_Properties
  imports Schema_Extractor "HOL-Library.Sublist"
begin

text \<open>
  What the schema extractor computes: the text of the type, then one section for each type it
  mentions, directly or not, each once; an error exactly when one of them has no file. The
  recursion ends, and the caches do not show.
\<close>

section \<open>The reference\<close>

definition text_of :: "disk \<Rightarrow> string \<Rightarrow> string option" where
  "text_of d t = read_msg_file d (before slash t) (after slash t)"

definition mentioned :: "disk \<Rightarrow> string \<Rightarrow> string set" where
  "mentioned d t =
     (case text_of d t of None \<Rightarrow> {}
      | Some c \<Rightarrow> {u. \<exists>l \<in> set (getlines c). nested_of_line (before slash t) l = Some u})"

abbreviation mentions :: "disk \<Rightarrow> string \<Rightarrow> string \<Rightarrow> bool" where
  "mentions d t u \<equiv> u \<in> mentioned d t"

definition section_of :: "disk \<Rightarrow> string \<Rightarrow> string" where
  "section_of d t = section_header t @ the (text_of d t)"

definition cache_ok :: "disk \<Rightarrow> string umap \<Rightarrow> bool" where
  "cache_ok d m = (\<forall>k c. map_of m k = Some c \<longrightarrow> slash \<in> set k \<and> text_of d k = Some c)"

lemma cache_ok_Nil [simp]: "cache_ok d []"
  by (simp add: cache_ok_def)

lemma text_of_full_name [simp]: "slash \<notin> set p \<Longrightarrow> text_of d (full_name p t) = read_msg_file d p t"
  by (simp add: text_of_def)

lemma text_of_unlines: "text_of d t = Some c \<Longrightarrow> unlines (getlines c) = c"
  by (auto simp: text_of_def read_msg_file_def getlines_unlines getlines_no_newline split: option.splits)

lemma mentioned_slash: "mentions d t u \<Longrightarrow> slash \<in> set u"
  by (auto simp: mentioned_def nested_of_line_slash split: option.splits)

section \<open>One file\<close>

lemma load_msg_frame:
  "load_msg d p t x = (r, y) \<Longrightarrow> y = x\<lparr>msg_file_cache := msg_file_cache y\<rparr>"
  by (auto simp: load_msg_def Let_def split: option.splits if_splits)

lemma load_msg_ok:
  assumes "load_msg d p t x = (r, y)" and "slash \<notin> set p" and "cache_ok d (msg_file_cache x)"
  shows "r = text_of d (full_name p t) \<and> cache_ok d (msg_file_cache y)"
proof (cases "map_of (msg_file_cache x) (full_name p t)")
  case None
  with assms show ?thesis
    by (auto simp: load_msg_def cache_ok_def Let_def split: option.splits if_splits)
next
  case (Some c)
  then have "text_of d (full_name p t) = Some c" using assms(3) by (simp add: cache_ok_def)
  with Some assms show ?thesis
    by (auto simp: load_msg_def cache_ok_def Let_def split: option.splits if_splits)
qed

lemma scan_lines_effect:
  assumes "scan_lines p ls nested x = (out, y)"
  shows "\<exists>new. out = nested @ new \<and> distinct new \<and> set new \<inter> set (processed_types x) = {} \<and>
    set new = {u. \<exists>l \<in> set ls. nested_of_line p l = Some u} - set (processed_types x) \<and>
    y = x\<lparr>expanded := expanded x @ unlines ls, processed_types := processed_types x @ new\<rparr>"
  using assms
proof (induction ls arbitrary: nested x)
  case Nil
  then show ?case by simp
next
  case (Cons l ls)
  show ?case
  proof (cases "\<exists>u. nested_of_line p l = Some u \<and> u \<notin> set (processed_types x)")
    case False
    let ?x = "x\<lparr>expanded := expanded x @ l @ [CHR 0x0A]\<rparr>"
    from False Cons.prems have "scan_lines p ls nested ?x = (out, y)"
      by (auto simp: Let_def split: option.splits if_splits)
    from Cons.IH [OF this] False show ?thesis by auto
  next
    case True
    then obtain u where u: "nested_of_line p l = Some u" "u \<notin> set (processed_types x)" by blast
    let ?x = "x\<lparr>expanded := expanded x @ l @ [CHR 0x0A], processed_types := processed_types x @ [u]\<rparr>"
    from u Cons.prems have "scan_lines p ls (nested @ [u]) ?x = (out, y)"
      by (simp add: Let_def)
    from Cons.IH [OF this] obtain new where n: "out = (nested @ [u]) @ new" "distinct new"
      "set new \<inter> set (processed_types ?x) = {}"
      "set new = {v. \<exists>l \<in> set ls. nested_of_line p l = Some v} - set (processed_types ?x)"
      "y = ?x\<lparr>expanded := expanded ?x @ unlines ls, processed_types := processed_types ?x @ new\<rparr>"
      by blast
    show ?thesis
    proof (intro exI [of _ "u # new"] conjI)
      show "set (u # new) = {v. \<exists>l \<in> set (l # ls). nested_of_line p l = Some v} - set (processed_types x)"
        using n(4) u by auto
    qed (use n u in auto)
  qed
qed

section \<open>The whole recursion\<close>

abbreviation "build \<equiv> build_message_definition_recursive"

text \<open>
  A call for the type \<open>t\<close> that succeeds appends its section, or its bare text for the root, and
  the sections of the types \<open>ts\<close> it has added to the processed ones, which include all that
  these files mention.
\<close>

definition expansion :: "disk \<Rightarrow> string set \<Rightarrow> string set \<Rightarrow> extraction \<Rightarrow> string \<Rightarrow> extraction \<Rightarrow> bool" where
  "expansion d roots shown x front y =
     (\<exists>ts new. expanded y = expanded x @ front @ concat (map (section_of d) ts) \<and> distinct ts \<and>
        processed_types y = processed_types x @ new \<and> distinct new \<and>
        set new \<inter> set (processed_types x) = {} \<and> set ts = shown \<union> set new \<and>
        (\<forall>t \<in> roots \<union> set ts. text_of d t \<noteq> None \<and> mentioned d t \<subseteq> set (processed_types y)) \<and>
        (\<forall>u \<in> set new. \<exists>t \<in> roots. (mentions d)\<^sup>+\<^sup>+ t u))"

lemma expansionE:
  assumes "expansion d roots shown x front y"
  obtains ts new where "expanded y = expanded x @ front @ concat (map (section_of d) ts)" "distinct ts"
    "processed_types y = processed_types x @ new" "distinct new"
    "set new \<inter> set (processed_types x) = {}" "set ts = shown \<union> set new"
    "\<forall>t \<in> roots \<union> set ts. text_of d t \<noteq> None \<and> mentioned d t \<subseteq> set (processed_types y)"
    "\<forall>u \<in> set new. \<exists>t \<in> roots. (mentions d)\<^sup>+\<^sup>+ t u"
  using assms by (auto simp: expansion_def)

lemma expansion_append:
  assumes "expansion d {t} {t} x [] y1" "expansion d L L y1 [] y" and "t \<notin> L"
    and "insert t L \<subseteq> set (processed_types x)"
  shows "expansion d (insert t L) (insert t L) x [] y"
proof -
  from assms(1) obtain ts1 new1 where 1: "expanded y1 = expanded x @ [] @ concat (map (section_of d) ts1)"
    "distinct ts1" "processed_types y1 = processed_types x @ new1" "distinct new1"
    "set new1 \<inter> set (processed_types x) = {}" "set ts1 = {t} \<union> set new1"
    "\<forall>t \<in> {t} \<union> set ts1. text_of d t \<noteq> None \<and> mentioned d t \<subseteq> set (processed_types y1)"
    "\<forall>u \<in> set new1. \<exists>t \<in> {t}. (mentions d)\<^sup>+\<^sup>+ t u" by (rule expansionE)
  from assms(2) obtain ts2 new2 where 2: "expanded y = expanded y1 @ [] @ concat (map (section_of d) ts2)"
    "distinct ts2" "processed_types y = processed_types y1 @ new2" "distinct new2"
    "set new2 \<inter> set (processed_types y1) = {}" "set ts2 = L \<union> set new2"
    "\<forall>t \<in> L \<union> set ts2. text_of d t \<noteq> None \<and> mentioned d t \<subseteq> set (processed_types y)"
    "\<forall>u \<in> set new2. \<exists>t \<in> L. (mentions d)\<^sup>+\<^sup>+ t u" by (rule expansionE)
  show ?thesis unfolding expansion_def
  proof (rule exI [of _ "ts1 @ ts2"], rule exI [of _ "new1 @ new2"], intro conjI)
    show "distinct (ts1 @ ts2)" using 1 2 assms(3,4) by auto
    show "set (ts1 @ ts2) = insert t L \<union> set (new1 @ new2)" using 1(6) 2(6) by auto
    show "\<forall>u \<in> insert t L \<union> set (ts1 @ ts2).
        text_of d u \<noteq> None \<and> mentioned d u \<subseteq> set (processed_types y)"
      using 1(6,7) 2(3,6,7) by auto
    show "\<forall>u \<in> set (new1 @ new2). \<exists>t \<in> insert t L. (mentions d)\<^sup>+\<^sup>+ t u"
      using 1(8) 2(8) by auto
  qed (use 1 2 in auto)
qed

lemma expansion_step:
  assumes "text_of d t = Some c" and "set first = mentioned d t - set (processed_types x)" "distinct first"
    and "expansion d (set first) (set first)
      (x\<lparr>expanded := expanded x @ pre, processed_types := processed_types x @ first, msg_file_cache := m\<rparr>) [] y"
    and "is_root \<and> shown = {} \<and> pre = front \<or>
         \<not> is_root \<and> shown = {t} \<and> t \<in> set (processed_types x) \<and> front = [] \<and> pre = section_of d t"
  shows "expansion d {t} shown x front y"
proof -
  let ?x = "x\<lparr>expanded := expanded x @ pre, processed_types := processed_types x @ first, msg_file_cache := m\<rparr>"
  from assms(4) obtain ts new where f: "expanded y = expanded ?x @ [] @ concat (map (section_of d) ts)"
    "distinct ts" "processed_types y = processed_types ?x @ new" "distinct new"
    "set new \<inter> set (processed_types ?x) = {}" "set ts = set first \<union> set new"
    "\<forall>t \<in> set first \<union> set ts. text_of d t \<noteq> None \<and> mentioned d t \<subseteq> set (processed_types y)"
    "\<forall>u \<in> set new. \<exists>t \<in> set first. (mentions d)\<^sup>+\<^sup>+ t u" by (rule expansionE)
  have e: "expanded y = expanded x @ pre @ concat (map (section_of d) ts)"
    "processed_types y = processed_types x @ first @ new"
    "set new \<inter> set (processed_types x @ first) = {}" using f(1,3,5) by simp_all
  have reach: "\<forall>u \<in> set (first @ new). \<exists>t' \<in> {t}. (mentions d)\<^sup>+\<^sup>+ t' u"
    using f(8) assms(2) by (auto intro: tranclp_into_tranclp2)
  have t: "text_of d t \<noteq> None \<and> mentioned d t \<subseteq> set (processed_types y)"
    using assms(1,2) e(2) by auto
  show ?thesis using assms(5)
  proof
    assume r: "is_root \<and> shown = {} \<and> pre = front"
    show ?thesis unfolding expansion_def
      by (rule exI [of _ ts], rule exI [of _ "first @ new"], intro conjI) (use r e f(2,4,6,7) t reach assms(2,3) in auto)
  next
    assume r: "\<not> is_root \<and> shown = {t} \<and> t \<in> set (processed_types x) \<and> front = [] \<and> pre = section_of d t"
    show ?thesis unfolding expansion_def
      by (rule exI [of _ "t # ts"], rule exI [of _ "first @ new"], intro conjI) (use r e f(2,4,6,7) t reach assms(2,3) in auto)
  qed
qed

lemma mentioned_full_name:
  "slash \<notin> set p \<Longrightarrow> text_of d (full_name p t) = Some c \<Longrightarrow>
    mentioned d (full_name p t) = {u. \<exists>l \<in> set (getlines c). nested_of_line p l = Some u}"
  by (simp add: mentioned_def)

lemma build_sound:
  "build fuel d p t is_root x = Some (ok, y) \<Longrightarrow> slash \<notin> set p \<Longrightarrow> cache_ok d (msg_file_cache x) \<Longrightarrow>
     (is_root \<or> full_name p t \<in> set (processed_types x)) \<Longrightarrow>
     cache_ok d (msg_file_cache y) \<and>
     (ok \<longrightarrow> expansion d {full_name p t} (if is_root then {} else {full_name p t}) x
        (if is_root then the (text_of d (full_name p t)) else []) y) \<and>
     (\<not> ok \<longrightarrow> (\<exists>u. (mentions d)\<^sup>*\<^sup>* (full_name p t) u \<and> text_of d u = None))"
  "build_nested fuel d ts x = Some (ok, y) \<Longrightarrow> cache_ok d (msg_file_cache x) \<Longrightarrow> distinct ts \<Longrightarrow>
     set ts \<subseteq> set (processed_types x) \<Longrightarrow> \<forall>t \<in> set ts. slash \<in> set t \<Longrightarrow>
     cache_ok d (msg_file_cache y) \<and>
     (ok \<longrightarrow> expansion d (set ts) (set ts) x [] y) \<and>
     (\<not> ok \<longrightarrow> (\<exists>t \<in> set ts. \<exists>u. (mentions d)\<^sup>*\<^sup>* t u \<and> text_of d u = None))"
proof (induction fuel d p t is_root x and fuel d ts x arbitrary: ok y and ok y
    rule: build_message_definition_recursive_build_nested.induct)
  case (1 d p t is_root x)
  then show ?case by simp
next
  case (2 fuel d p t is_root x)
  let ?t = "full_name p t"
  obtain r x1 where l: "load_msg d p t x = (r, x1)" by fastforce
  note l1 = load_msg_frame [OF l] and l2 = load_msg_ok [OF l "2.prems"(2,3)]
  show ?case
  proof (cases r)
    case None
    with l l2 "2.prems" show ?thesis by auto
  next
    case (Some c)
    let ?x2 = "if is_root then x1 else x1\<lparr>expanded := expanded x1 @ section_header ?t\<rparr>"
    obtain nested x3 where s: "scan_lines p (getlines c) [] ?x2 = (nested, x3)" by fastforce
    have t: "text_of d ?t = Some c" using l2 Some by simp
    have "expanded ?x2 = expanded x @ (if is_root then [] else section_header ?t)"
        "processed_types ?x2 = processed_types x" "msg_file_cache ?x2 = msg_file_cache x1"
      using arg_cong [OF l1, of expanded] arg_cong [OF l1, of processed_types] by simp_all
    with scan_lines_effect [OF s] have n: "distinct nested"
      "set nested = {u. \<exists>l \<in> set (getlines c). nested_of_line p l = Some u} - set (processed_types x)"
      "x3 = x\<lparr>expanded := expanded x @ (if is_root then c else section_of d ?t),
             processed_types := processed_types x @ nested, msg_file_cache := msg_file_cache x1\<rparr>"
      using text_of_unlines [OF t] t by (auto simp: section_of_def intro!: extraction.equality)
    from "2.prems"(1) have b: "build_nested fuel d (move_header_last nested) x3 = Some (ok, y)"
      using l s Some by simp
    have m: "set nested = mentioned d ?t - set (processed_types x)"
      using n(2) mentioned_full_name [OF "2.prems"(2), of d t c] l2 Some by simp
    have x3: "cache_ok d (msg_file_cache x3)" "set nested \<subseteq> set (processed_types x3)"
      using n(3) l2 by simp_all
    have slashes: "\<forall>u \<in> set nested. slash \<in> set u" using m mentioned_slash by blast
    have IH: "cache_ok d (msg_file_cache y) \<and>
       (ok \<longrightarrow> expansion d (set nested) (set nested) x3 [] y) \<and>
       (\<not> ok \<longrightarrow> (\<exists>t \<in> set nested. \<exists>u. (mentions d)\<^sup>*\<^sup>* t u \<and> text_of d u = None))"
      using "2.IH" [OF l [symmetric] Some refl refl s [symmetric] b] x3 n(1) slashes by simp
    show ?thesis
    proof (intro conjI impI)
      assume ok
      with IH have "expansion d (set nested) (set nested) x3 [] y" by simp
      from expansion_step [OF _ m n(1) this [unfolded n(3)], of c is_root]
      show "expansion d {?t} (if is_root then {} else {?t}) x (if is_root then the (text_of d ?t) else []) y"
        using t "2.prems"(4) by (cases is_root) auto
    next
      assume "\<not> ok"
      with IH obtain v u where v: "v \<in> set nested" "(mentions d)\<^sup>*\<^sup>* v u" "text_of d u = None" by blast
      then have "mentions d ?t v" using m by blast
      from converse_rtranclp_into_rtranclp [OF this v(2)] v(3)
      show "\<exists>u. (mentions d)\<^sup>*\<^sup>* ?t u \<and> text_of d u = None" by blast
    qed (use IH in simp)
  qed
next
  case (3 fuel d x)
  then show ?case by (auto simp: expansion_def)
next
  case (4 fuel d t ts x)
  have slash: "slash \<in> set t" using "4.prems" by simp
  note parts = full_name_parts [OF slash]
  from "4.prems"(1) obtain ok1 x1 where b: "build fuel d (before slash t) (after slash t) False x = Some (ok1, x1)"
    by (auto split: option.splits)
  note IH1 = "4.IH"(1) [OF b no_slash_before "4.prems"(2), unfolded parts]
  show ?case
  proof (cases ok1)
    case False
    with b IH1 "4.prems" show ?thesis by auto
  next
    case True
    with b "4.prems" have b2: "build_nested fuel d ts x1 = Some (ok, y)" by simp
    from IH1 True "4.prems" have e: "cache_ok d (msg_file_cache x1)" "expansion d {t} {t} x [] x1" by auto
    from e(2) have "set (processed_types x) \<subseteq> set (processed_types x1)" by (auto elim!: expansionE)
    then have IH2: "cache_ok d (msg_file_cache y) \<and> (ok \<longrightarrow> expansion d (set ts) (set ts) x1 [] y) \<and>
      (\<not> ok \<longrightarrow> (\<exists>t \<in> set ts. \<exists>u. (mentions d)\<^sup>*\<^sup>* t u \<and> text_of d u = None))"
      using "4.IH"(2) [OF b refl _ b2] True e(1) "4.prems" by auto
    then show ?thesis using expansion_append [OF e(2), of "set ts" y] "4.prems" by auto
  qed
qed

section \<open>Termination\<close>

text \<open>The types that have a file or a cached text; a type without one ends the recursion.\<close>

definition readable :: "disk \<Rightarrow> string umap \<Rightarrow> string set" where
  "readable d m = {t. slash \<in> set t \<and> text_of d t \<noteq> None} \<union> set (keys m)"

definition on_disk :: "disk \<Rightarrow> string \<Rightarrow> string \<times> string" where
  "on_disk d t =
     (before slash t, the (map_of (share_directories d) (before slash t)) @ ''/msg/'' @ after slash t @ ''.msg'')"

lemmas map_of_Some_fst = map_of_Some_in_keys [simplified]

lemma finite_on_disk:
  "finite {t. slash \<in> set t \<and> text_of d t \<noteq> None} \<and>
   card {t. slash \<in> set t \<and> text_of d t \<noteq> None} \<le> length (share_directories d) * length (msg_files d)"
proof -
  let ?E = "{t. slash \<in> set t \<and> text_of d t \<noteq> None}"
  let ?P = "set (keys (share_directories d)) \<times> set (keys (msg_files d))"
  have inj: "inj_on (on_disk d) ?E"
    by (rule inj_onI) (auto simp: on_disk_def dest: full_name_parts, metis full_name_parts)
  have img: "on_disk d ` ?E \<subseteq> ?P"
    by (auto simp: on_disk_def text_of_def read_msg_file_def split: option.splits
        intro: map_of_Some_fst)
  have fin: "finite ?E" using finite_subset [OF img] inj by (simp add: finite_image_iff)
  have "card ?E \<le> card ?P" using card_mono [OF _ img] card_image [OF inj] by simp
  also have "\<dots> \<le> length (share_directories d) * length (msg_files d)"
    using card_length [of "keys (share_directories d)"] card_length [of "keys (msg_files d)"]
    by (simp add: card_cartesian_product mult_le_mono)
  finally show ?thesis using fin by simp
qed

lemma readable_bound:
  "finite (readable d m) \<and> card (readable d m) \<le> length (share_directories d) * length (msg_files d) + length m"
proof -
  have "card (set (keys m)) \<le> length m" using card_length [of "keys m"] by simp
  with finite_on_disk [of d] card_Un_le [of "{t. slash \<in> set t \<and> text_of d t \<noteq> None}" "set (keys m)"]
  show ?thesis by (simp add: readable_def)
qed

lemma in_update_keys: "(a, b) \<in> set (AList.update k v m) \<Longrightarrow> a = k \<or> a \<in> fst ` set m"
  by (metis fst_conv image_eqI insert_iff set_keys_update)

lemma load_msg_readable:
  assumes "load_msg d p t x = (r, y)" and "slash \<notin> set p" and "readable d (msg_file_cache x) \<subseteq> S"
  shows "readable d (msg_file_cache y) \<subseteq> S \<and> (r \<noteq> None \<longrightarrow> full_name p t \<in> S)"
proof -
  have "text_of d (full_name p t) \<noteq> None \<Longrightarrow> full_name p t \<in> S"
    using assms(3) by (auto simp: readable_def)
  with assms show ?thesis
    by (auto simp: load_msg_def readable_def Let_def split: option.splits if_splits
        dest: map_of_Some_fst dest!: in_update_keys) (metis fst_conv image_eqI subsetD)+
qed

lemma build_terminates:
  "slash \<notin> set p \<Longrightarrow> finite S \<Longrightarrow> readable d (msg_file_cache x) \<subseteq> S \<Longrightarrow>
     card (S - set (processed_types x)) + of_bool (full_name p t \<in> S) < fuel \<Longrightarrow>
     \<exists>ok y. build fuel d p t is_root x = Some (ok, y) \<and> readable d (msg_file_cache y) \<subseteq> S \<and>
       set (processed_types x) \<subseteq> set (processed_types y)"
  "finite S \<Longrightarrow> readable d (msg_file_cache x) \<subseteq> S \<Longrightarrow> \<forall>t \<in> set ts. slash \<in> set t \<Longrightarrow>
     \<forall>t \<in> set ts. card (S - set (processed_types x)) + of_bool (t \<in> S) < fuel \<Longrightarrow>
     \<exists>ok y. build_nested fuel d ts x = Some (ok, y) \<and> readable d (msg_file_cache y) \<subseteq> S \<and>
       set (processed_types x) \<subseteq> set (processed_types y)"
proof (induction fuel d p t is_root x and fuel d ts x
    rule: build_message_definition_recursive_build_nested.induct)
  case (1 d p t is_root x)
  then show ?case by simp
next
  case (2 fuel d p t is_root x)
  let ?t = "full_name p t"
  obtain r x1 where l: "load_msg d p t x = (r, x1)" by fastforce
  note l1 = load_msg_frame [OF l] and l2 = load_msg_readable [OF l "2.prems"(1,3)]
  have p1: "processed_types x1 = processed_types x" using arg_cong [OF l1, of processed_types] by simp
  show ?case
  proof (cases r)
    case None
    with l l2 p1 show ?thesis by auto
  next
    case (Some c)
    let ?x2 = "if is_root then x1 else x1\<lparr>expanded := expanded x1 @ section_header ?t\<rparr>"
    have x2: "processed_types ?x2 = processed_types x" "msg_file_cache ?x2 = msg_file_cache x1"
      using p1 by simp_all
    obtain nested x3 where s: "scan_lines p (getlines c) [] ?x2 = (nested, x3)" by fastforce
    from scan_lines_effect [OF s] x2 have n: "set nested \<inter> set (processed_types x) = {}"
      "set nested \<subseteq> {u. \<exists>l \<in> set (getlines c). nested_of_line p l = Some u}"
      "processed_types x3 = processed_types x @ nested" "msg_file_cache x3 = msg_file_cache x1"
      by auto
    have slashes: "\<forall>u \<in> set nested. slash \<in> set u" using n(2) nested_of_line_slash by blast
    have S: "?t \<in> S" using l2 Some by simp
    have "card (S - set (processed_types x3)) + of_bool (u \<in> S) \<le> card (S - set (processed_types x))"
      if u: "u \<in> set nested" for u
    proof (cases "u \<in> S")
      case True
      have "S - set (processed_types x3) \<subset> S - set (processed_types x)" using True u n(1,3) by auto
      then have "card (S - set (processed_types x3)) < card (S - set (processed_types x))"
        using "2.prems"(2) by (intro psubset_card_mono) auto
      with True show ?thesis by simp
    next
      case False
      have "card (S - set (processed_types x3)) \<le> card (S - set (processed_types x))"
        using "2.prems"(2) n(3) by (intro card_mono) auto
      with False show ?thesis by simp
    qed
    moreover have "card (S - set (processed_types x)) < fuel" using "2.prems"(4) S by simp
    ultimately have fuel: "\<forall>u \<in> set (move_header_last nested).
        card (S - set (processed_types x3)) + of_bool (u \<in> S) < fuel"
      unfolding set_move_header_last by (blast intro: le_less_trans)
    have "readable d (msg_file_cache x3) \<subseteq> S" using l2 n(4) by simp
    from "2.IH" [OF l [symmetric] Some refl refl s [symmetric] "2.prems"(2) this _ fuel] slashes
    obtain ok y where "build_nested fuel d (move_header_last nested) x3 = Some (ok, y)"
      "readable d (msg_file_cache y) \<subseteq> S" "set (processed_types x3) \<subseteq> set (processed_types y)"
      by auto
    then show ?thesis using l s Some n(3) by simp
  qed
next
  case (3 fuel d x)
  then show ?case by auto
next
  case (4 fuel d t ts x)
  have slash: "slash \<in> set t" using "4.prems" by simp
  note parts = full_name_parts [OF slash]
  from "4.IH"(1) [OF no_slash_before "4.prems"(1,2), unfolded parts] "4.prems"(4) obtain ok x1 where
    b: "build fuel d (before slash t) (after slash t) False x = Some (ok, x1)"
      "readable d (msg_file_cache x1) \<subseteq> S" "set (processed_types x) \<subseteq> set (processed_types x1)" by auto
  show ?case
  proof (cases ok)
    case False
    with b show ?thesis by auto
  next
    case True
    have "card (S - set (processed_types x1)) \<le> card (S - set (processed_types x))"
      using "4.prems"(1) b(3) by (intro card_mono) auto
    then have "\<forall>t \<in> set ts. card (S - set (processed_types x1)) + of_bool (t \<in> S) < fuel"
      using "4.prems"(4) by fastforce
    from "4.IH"(2) [OF b(1) refl _ "4.prems"(1) b(2) _ this] True "4.prems"(3) b show ?thesis
      by fastforce
  qed
qed

section \<open>The caches do not show\<close>

definition same_output :: "extraction \<Rightarrow> extraction \<Rightarrow> bool" where
  "same_output x y = (expanded x = expanded y \<and> processed_types x = processed_types y)"

lemma load_msg_same:
  assumes "load_msg d p t x = (r, y)" "load_msg d p t x' = (r', y')" and "slash \<notin> set p"
    and "cache_ok d (msg_file_cache x)" "cache_ok d (msg_file_cache x')" and "same_output x x'"
  shows "r = r' \<and> same_output y y' \<and> cache_ok d (msg_file_cache y) \<and> cache_ok d (msg_file_cache y')"
proof -
  note f = load_msg_frame [OF assms(1)] load_msg_frame [OF assms(2)]
  have "same_output y y'" using assms(6) by (subst f(1), subst f(2)) (simp add: same_output_def)
  then show ?thesis using load_msg_ok [OF assms(1,3,4)] load_msg_ok [OF assms(2,3,5)] by simp
qed

lemma scan_lines_same:
  "same_output x x' \<Longrightarrow> fst (scan_lines p ls nested x) = fst (scan_lines p ls nested x') \<and>
     same_output (snd (scan_lines p ls nested x)) (snd (scan_lines p ls nested x'))"
proof (induction ls arbitrary: nested x x')
  case Nil
  then show ?case by simp
next
  case (Cons l ls)
  let ?x = "x\<lparr>expanded := expanded x @ l @ [CHR 0x0A]\<rparr>" and ?x' = "x'\<lparr>expanded := expanded x' @ l @ [CHR 0x0A]\<rparr>"
  have same: "same_output ?x ?x'" using Cons.prems by (simp add: same_output_def)
  have same': "same_output (?x\<lparr>processed_types := processed_types ?x @ [u]\<rparr>)
      (?x'\<lparr>processed_types := processed_types ?x' @ [u]\<rparr>)" for u
    using Cons.prems by (simp add: same_output_def)
  have p: "processed_types ?x = processed_types ?x'" using Cons.prems by (simp add: same_output_def)
  show ?case
    using Cons.IH [OF same, of nested] Cons.IH [OF same'] p
    by (cases "nested_of_line p l") (simp_all add: Let_def)
qed

lemma scan_lines_cache: "msg_file_cache (snd (scan_lines p ls nested x)) = msg_file_cache x"
  by (induction p ls nested x rule: scan_lines.induct) (auto simp: Let_def split: option.splits)

lemma build_same:
  "build fuel d p t is_root x = Some (ok, y) \<Longrightarrow> build fuel' d p t is_root x' = Some (ok', y') \<Longrightarrow>
     slash \<notin> set p \<Longrightarrow> cache_ok d (msg_file_cache x) \<Longrightarrow> cache_ok d (msg_file_cache x') \<Longrightarrow> same_output x x' \<Longrightarrow>
     ok = ok' \<and> same_output y y' \<and> cache_ok d (msg_file_cache y) \<and> cache_ok d (msg_file_cache y')"
  "build_nested fuel d ts x = Some (ok, y) \<Longrightarrow> build_nested fuel' d ts x' = Some (ok', y') \<Longrightarrow>
     cache_ok d (msg_file_cache x) \<Longrightarrow> cache_ok d (msg_file_cache x') \<Longrightarrow> same_output x x' \<Longrightarrow>
     ok = ok' \<and> same_output y y' \<and> cache_ok d (msg_file_cache y) \<and> cache_ok d (msg_file_cache y')"
proof (induction fuel d p t is_root x and fuel d ts x
    arbitrary: ok y fuel' x' ok' y' and ok y fuel' x' ok' y'
    rule: build_message_definition_recursive_build_nested.induct)
  case (1 d p t is_root x)
  then show ?case by simp
next
  case (2 fuel d p t is_root x)
  from "2.prems"(2) obtain n where fuel': "fuel' = Suc n" by (cases fuel') auto
  obtain r x1 r' x1' where l: "load_msg d p t x = (r, x1)" "load_msg d p t x' = (r', x1')" by fastforce
  note same = load_msg_same [OF l "2.prems"(3-6)]
  show ?case
  proof (cases r)
    case None
    with same l "2.prems" fuel' show ?thesis by auto
  next
    case (Some c)
    define s s' where "s = (if is_root then x1 else x1\<lparr>expanded := expanded x1 @ section_header (full_name p t)\<rparr>)"
      and "s' = (if is_root then x1' else x1'\<lparr>expanded := expanded x1' @ section_header (full_name p t)\<rparr>)"
    have ss: "same_output s s'" "cache_ok d (msg_file_cache s)" "cache_ok d (msg_file_cache s')"
      using same by (auto simp: s_def s'_def same_output_def)
    obtain nested x3 nested' x3' where q: "scan_lines p (getlines c) [] s = (nested, x3)"
        "scan_lines p (getlines c) [] s' = (nested', x3')" by fastforce
    with scan_lines_same [OF ss(1), of p "getlines c" "[]"] scan_lines_cache [of p "getlines c" "[]"] ss(2,3)
    have n: "nested' = nested" "same_output x3 x3'" "cache_ok d (msg_file_cache x3)" "cache_ok d (msg_file_cache x3')"
      by (metis fst_conv snd_conv)+
    from "2.prems"(1) have b: "build_nested fuel d (move_header_last nested) x3 = Some (ok, y)"
      using l q Some by (simp add: s_def)
    from "2.prems"(2) have b': "build_nested n d (move_header_last nested) x3' = Some (ok', y')"
      using l q Some n(1) same fuel' by (auto simp: s'_def)
    from "2.IH" [OF l(1) [symmetric] Some s_def refl q(1) [symmetric, folded s_def] b b' n(3,4,2)]
    show ?thesis .
  qed
next
  case (3 fuel d x)
  then show ?case by simp
next
  case (4 fuel d t ts x)
  from "4.prems"(1) obtain ok1 x1 where b: "build fuel d (before slash t) (after slash t) False x = Some (ok1, x1)"
    by (auto split: option.splits)
  from "4.prems"(2) obtain ok1' x1' where b': "build fuel' d (before slash t) (after slash t) False x' = Some (ok1', x1')"
    by (auto split: option.splits)
  note same = "4.IH"(1) [OF b b' no_slash_before "4.prems"(3-5)]
  show ?case
  proof (cases ok1)
    case False
    with b b' same "4.prems" show ?thesis by auto
  next
    case True
    with b b' same "4.prems"(1,2) have "build_nested fuel d ts x1 = Some (ok, y)" "build_nested fuel' d ts x1' = Some (ok', y')"
      by auto
    from "4.IH"(2) [OF b refl _ this] same True show ?thesis by blast
  qed
qed

section \<open>The extractor over a history of calls\<close>

definition is_definition :: "disk \<Rightarrow> string \<Rightarrow> string \<Rightarrow> string + string \<Rightarrow> bool" where
  "is_definition d mt root r =
     (if \<forall>u. (mentions d)\<^sup>*\<^sup>* root u \<longrightarrow> text_of d u \<noteq> None
      then \<exists>ts. distinct ts \<and> set ts = {u. (mentions d)\<^sup>+\<^sup>+ root u} \<and>
             r = Inr (the (text_of d root) @ concat (map (section_of d) ts))
      else r = Inl (unresolved mt))"

definition asked :: "disk \<Rightarrow> string list \<Rightarrow> extractor" where
  "asked d history = fold (\<lambda>mt x. snd (the (try_get_message_definition d mt x))) history new_extractor"

abbreviation start :: "extractor \<Rightarrow> extraction" where
  "start x \<equiv> \<lparr>expanded = [], processed_types = [], msg_file_cache = file_cache x\<rparr>"

lemma closed_contains_reachable:
  assumes "(mentions d)\<^sup>+\<^sup>+ root u" and "mentioned d root \<subseteq> A" "\<forall>t \<in> A. mentioned d t \<subseteq> A"
  shows "u \<in> A"
  using assms(1) by (induction rule: tranclp_induct) (use assms(2,3) in auto)

lemma expansion_is_definition:
  assumes "expansion d {root} {} (start x) (the (text_of d root)) y"
  shows "is_definition d mt root (Inr (expanded y))"
proof -
  from assms obtain ts new where e:
    "expanded y = expanded (start x) @ the (text_of d root) @ concat (map (section_of d) ts)" "distinct ts"
    "processed_types y = processed_types (start x) @ new" "distinct new"
    "set new \<inter> set (processed_types (start x)) = {}" "set ts = {} \<union> set new"
    "\<forall>t \<in> {root} \<union> set ts. text_of d t \<noteq> None \<and> mentioned d t \<subseteq> set (processed_types y)"
    "\<forall>u \<in> set new. \<exists>t \<in> {root}. (mentions d)\<^sup>+\<^sup>+ t u" by (rule expansionE)
  have all: "set ts = {u. (mentions d)\<^sup>+\<^sup>+ root u}"
    using e closed_contains_reachable [of d root _ "set ts"] by auto
  moreover have "text_of d u \<noteq> None" if "(mentions d)\<^sup>*\<^sup>* root u" for u
    using that e(7) all by (auto dest!: rtranclpD)
  ultimately show ?thesis using e(1,2) by (auto simp: is_definition_def)
qed

definition extractor_ok :: "disk \<Rightarrow> extractor \<Rightarrow> bool" where
  "extractor_ok d x =
     (cache_ok d (file_cache x) \<and>
      (\<forall>mt text. map_of (definition_cache x) mt = Some text \<longrightarrow>
         (\<exists>p t y fuel z. parse_message_type mt = Some (p, t) \<and> build fuel d p t True (start z) = Some (True, y) \<and>
            cache_ok d (file_cache z) \<and> text = expanded y)))"

lemma parse_message_type_slash: "parse_message_type mt = Some (p, t) \<Longrightarrow> slash \<notin> set p"
  by (auto simp: parse_message_type_def split: if_splits)

lemma build_root_total:
  assumes "slash \<notin> set p"
  shows "\<exists>ok y. build (expansion_fuel d x) d p t True (start x) = Some (ok, y)"
proof -
  let ?S = "readable d (file_cache x)"
  note bound = readable_bound [of d "file_cache x"]
  have "card (?S - set (processed_types (start x))) + of_bool (full_name p t \<in> ?S) < expansion_fuel d x"
    using bound by (simp add: expansion_fuel_def)
  from build_terminates(1) [OF assms _ _ this, of d True] bound show ?thesis by auto
qed

lemma try_get_total: "\<exists>r y. try_get_message_definition d mt x = Some (r, y)"
proof (cases "map_of (definition_cache x) mt = None \<and> parse_message_type mt \<noteq> None")
  case False
  then show ?thesis
    by (cases "map_of (definition_cache x) mt"; cases "parse_message_type mt")
       (auto simp: try_get_message_definition_def)
next
  case True
  then obtain p t where p: "parse_message_type mt = Some (p, t)" by auto
  from build_root_total [OF parse_message_type_slash [OF p], of d x t] True p show ?thesis
    by (auto simp: try_get_message_definition_def Let_def)
qed

text \<open>One call on an extractor whose caches are right: the answer and the caches afterwards.\<close>

lemma try_get_effect:
  assumes "extractor_ok d x"
  shows "\<exists>r y. try_get_message_definition d mt x = Some (r, y) \<and> extractor_ok d y \<and>
    (case parse_message_type mt of
       None \<Rightarrow> r = Inl (invalid_type mt)
     | Some (p, t) \<Rightarrow> is_definition d mt (full_name p t) r \<and>
         r = (case build (expansion_fuel d new_extractor) d p t True (start new_extractor) of
                Some (True, z) \<Rightarrow> Inr (expanded z) | _ \<Rightarrow> Inl (unresolved mt)))"
proof (cases "parse_message_type mt")
  case None
  with assms have "map_of (definition_cache x) mt = None"
    unfolding extractor_ok_def by (metis not_None_eq)
  with None assms show ?thesis by (simp add: try_get_message_definition_def)
next
  case (Some pt)
  obtain p t where p: "parse_message_type mt = Some (p, t)" using Some by (cases pt) auto
  note slash = parse_message_type_slash [OF p]
  obtain ok0 y0 where fresh: "build (expansion_fuel d new_extractor) d p t True (start new_extractor) = Some (ok0, y0)"
    using build_root_total [OF slash] by blast
  have agree: "ok = ok0 \<and> expanded y = expanded y0 \<and> cache_ok d (msg_file_cache y)"
    if "build n d p t True (start z) = Some (ok, y)" "cache_ok d (file_cache z)" for n z ok y
    using build_same(1) [OF that(1) fresh slash] that(2) by (simp add: same_output_def new_extractor_def)
  have spec_of: "is_definition d mt (full_name p t) (if ok then Inr (expanded y) else Inl (unresolved mt))"
    if "build n d p t True (start z) = Some (ok, y)" "cache_ok d (file_cache z)" for n z ok y
    using build_sound(1) [OF that(1) slash] that(2) expansion_is_definition [of d "full_name p t" z y mt]
    by (auto simp: is_definition_def)
  show ?thesis
  proof (cases "map_of (definition_cache x) mt")
    case (Some c)
    with assms p obtain y n z where b: "build n d p t True (start z) = Some (True, y)" "cache_ok d (file_cache z)"
        "c = expanded y" by (force simp: extractor_ok_def)
    from agree [OF b(1,2)] spec_of [OF b(1,2)] show ?thesis
      using Some assms p fresh b(3) by (auto simp: try_get_message_definition_def)
  next
    case None
    obtain ok y where b: "build (expansion_fuel d x) d p t True (start x) = Some (ok, y)"
      using build_root_total [OF slash] by blast
    have c: "cache_ok d (file_cache x)" using assms by (simp add: extractor_ok_def)
    let ?x = "x\<lparr>file_cache := msg_file_cache y\<rparr>"
    let ?x' = "?x\<lparr>definition_cache := AList.update mt (expanded y) (definition_cache x)\<rparr>"
    have ok1: "extractor_ok d ?x" using assms agree [OF b c] by (simp add: extractor_ok_def)
    have ok2: "extractor_ok d ?x'" if ok using assms agree [OF b c] p b c that by (fastforce simp: extractor_ok_def)
    from agree [OF b c] spec_of [OF b c] ok1 ok2 fresh b None p show ?thesis
      by (auto simp: try_get_message_definition_def Let_def)
  qed
qed

lemma asked_ok: "extractor_ok d (asked d history)"
proof -
  have "extractor_ok d x \<Longrightarrow> extractor_ok d (fold (\<lambda>mt x. snd (the (try_get_message_definition d mt x))) history x)" for x
  proof (induction history arbitrary: x)
    case (Cons mt history)
    from try_get_effect [OF Cons.prems, of mt] show ?case by (auto intro: Cons.IH)
  qed simp
  moreover have "extractor_ok d new_extractor" by (simp add: extractor_ok_def new_extractor_def)
  ultimately show ?thesis by (simp add: asked_def)
qed

text \<open>
  C27. Asking for a definition ends: whatever the files contain, mutual and self references
  included, and whatever the caches hold, the recursion returns within the fuel computed from
  the number of packages, files and cached texts.
\<close>

theorem schema_expansion_terminates:
  "\<exists>answer x'. try_get_message_definition d message_type x = Some (answer, x')"
  by (rule try_get_total)

text \<open>
  C22. The definition is complete and without repetition. After any history of calls on one
  disk, a request for a type in the three-part format answers with its text followed by one
  section for each type that it mentions, directly or through others, each exactly once; it
  answers with an error exactly when the type itself or one of these types cannot be read.
\<close>

theorem schema_definition_complete:
  assumes "parse_message_type message_type = Some (package, type_name)"
    and "root = full_name package type_name"
    and "try_get_message_definition d message_type (asked d history) = Some (answer, x')"
  shows "if \<exists>u. (mentions d)\<^sup>*\<^sup>* root u \<and> text_of d u = None
    then answer = Inl (unresolved message_type)
    else \<exists>ts. distinct ts \<and> set ts = {u. (mentions d)\<^sup>+\<^sup>+ root u} \<and>
      answer = Inr (the (text_of d root) @ concat (map (section_of d) ts))"
proof -
  have "is_definition d message_type root answer"
    using try_get_effect [OF asked_ok, of d message_type history] assms by auto
  then show ?thesis by (auto simp: is_definition_def split: if_splits)
qed

text \<open>A package whose type \<open>A\<close> has a field of its type \<open>B\<close> and one of itself.\<close>

definition sample_disk :: disk where
  "sample_disk =
     \<lparr>share_directories = [(''p'', ''/s'')],
      msg_files = [(''/s/msg/A.msg'', ''B[] b # list'' @ [CHR 0x0A] @ ''string<=8 n''),
                   (''/s/msg/B.msg'', ''float64 x'')]\<rparr>"

lemma sample_texts:
  "text_of sample_disk ''p/A'' = Some (''B[] b # list'' @ [CHR 0x0A] @ ''string<=8 n'' @ [CHR 0x0A])"
  "text_of sample_disk ''p/B'' = Some (''float64 x'' @ [CHR 0x0A])"
  by (simp_all add: text_of_def read_msg_file_def sample_disk_def)

lemma sample_mentions: "mentioned sample_disk ''p/A'' = {''p/B''}" "mentioned sample_disk ''p/B'' = {}"
  by (auto simp: mentioned_def sample_texts nested_of_line_def first_word_def is_space_def Let_def
      kBuiltinTypes_def full_name_def)

lemma sample_reach: "{u. (mentions sample_disk)\<^sup>+\<^sup>+ ''p/A'' u} = {''p/B''}"
proof -
  have "u = ''p/B''" if "(mentions sample_disk)\<^sup>+\<^sup>+ ''p/A'' u" for u
    using that by (induction rule: tranclp_induct) (auto simp: sample_mentions)
  moreover have "(mentions sample_disk)\<^sup>+\<^sup>+ ''p/A'' ''p/B''"
    by (rule tranclp.r_into_trancl) (simp add: sample_mentions)
  ultimately show ?thesis by blast
qed

theorem schema_definition_complete_witness:
  "fst (the (try_get_message_definition sample_disk ''p/msg/A'' (asked sample_disk [''p/msg/B'']))) =
     Inr (the (text_of sample_disk ''p/A'') @ section_of sample_disk ''p/B'')"
proof -
  have p: "parse_message_type ''p/msg/A'' = Some (''p'', ''A'')" by (simp add: parse_message_type_def)
  have root: "''p/A'' = full_name ''p'' ''A''" by (simp add: full_name_def)
  obtain r x' where t: "try_get_message_definition sample_disk ''p/msg/A'' (asked sample_disk [''p/msg/B'']) = Some (r, x')"
    using try_get_total by blast
  have ok: "\<not> (\<exists>u. (mentions sample_disk)\<^sup>*\<^sup>* ''p/A'' u \<and> text_of sample_disk u = None)"
  proof safe
    fix u assume "(mentions sample_disk)\<^sup>*\<^sup>* ''p/A'' u" and n: "text_of sample_disk u = None"
    then have "u = ''p/A'' \<or> u \<in> {u. (mentions sample_disk)\<^sup>+\<^sup>+ ''p/A'' u}" by (auto dest: rtranclpD)
    with n show False unfolding sample_reach by (auto simp: sample_texts)
  qed
  from schema_definition_complete [OF p root t] obtain ts where
    ts: "distinct ts" "set ts = {''p/B''}" "r = Inr (the (text_of sample_disk ''p/A'') @ concat (map (section_of sample_disk) ts))"
    unfolding sample_reach using ok by auto
  then have "ts = [''p/B'']" by (cases ts; cases "tl ts") auto
  with ts t show ?thesis by simp
qed

text \<open>
  C28. The caches do not show. After any history of calls, a request has the answer it would
  have had as the first one, so a definition does not depend on which types were asked for
  before.
\<close>

theorem schema_caches_transparent:
  "map_option fst (try_get_message_definition d message_type (asked d history)) =
   map_option fst (try_get_message_definition d message_type new_extractor)"
proof -
  have fresh: "extractor_ok d new_extractor" by (simp add: extractor_ok_def new_extractor_def)
  obtain r y where "try_get_message_definition d message_type (asked d history) = Some (r, y)"
      "case parse_message_type message_type of None \<Rightarrow> r = Inl (invalid_type message_type)
       | Some (p, t) \<Rightarrow> r = (case build (expansion_fuel d new_extractor) d p t True (start new_extractor) of
                Some (True, z) \<Rightarrow> Inr (expanded z) | _ \<Rightarrow> Inl (unresolved message_type))"
    using try_get_effect [OF asked_ok, of d message_type history]
    by (elim exE conjE) (rule that, auto split: option.splits simp del: not_None_eq)
  moreover obtain r' y' where "try_get_message_definition d message_type new_extractor = Some (r', y')"
      "case parse_message_type message_type of None \<Rightarrow> r' = Inl (invalid_type message_type)
       | Some (p, t) \<Rightarrow> r' = (case build (expansion_fuel d new_extractor) d p t True (start new_extractor) of
                Some (True, z) \<Rightarrow> Inr (expanded z) | _ \<Rightarrow> Inl (unresolved message_type))"
    using try_get_effect [OF fresh, of message_type]
    by (elim exE conjE) (rule that, auto split: option.splits simp del: not_None_eq)
  ultimately show ?thesis by (cases "parse_message_type message_type") auto
qed

section \<open>Comments\<close>

lemma set_trim_end: "set (trim_end s) \<subseteq> set s"
  by (auto simp: trim_end_def dest: set_dropWhileD)

lemma uncomment_line_clean:
  assumes "l \<in> set (uncomment_line line)" and "CHR 0x0A \<notin> set line"
  shows "CHR ''#'' \<notin> set l \<and> CHR 0x0A \<notin> set l"
proof (cases "CHR ''#'' \<in> set line")
  case False
  with assms show ?thesis by (simp add: uncomment_line_def)
next
  case True
  with assms have "l = trim_end (before (CHR ''#'') line)"
    by (simp add: uncomment_line_def Let_def split: if_splits)
  then have "set l \<subseteq> set (before (CHR ''#'') line)" by (simp add: set_trim_end)
  then have "x \<in> set l \<Longrightarrow> x \<in> set line \<and> x \<noteq> CHR ''#''" for x by (auto dest!: subsetD set_takeWhileD)
  then show ?thesis using assms(2) by blast
qed

lemma getlines_remove_comments:
  "getlines (remove_comments_from_schema s) = concat (map uncomment_line (getlines s))"
  unfolding remove_comments_from_schema_def
  by (rule getlines_unlines) (auto dest: uncomment_line_clean getlines_no_newline)

text \<open>
  Removing comments leaves text without \<open>#\<close>, keeps every line that has none as it is, and
  doing it again changes nothing.
\<close>

theorem remove_comments_correct:
  "CHR ''#'' \<notin> set (remove_comments_from_schema s) \<and>
   subseq (filter (\<lambda>l. CHR ''#'' \<notin> set l) (getlines s)) (getlines (remove_comments_from_schema s)) \<and>
   remove_comments_from_schema (remove_comments_from_schema s) = remove_comments_from_schema s"
proof -
  let ?ls = "concat (map uncomment_line (getlines s))"
  have clean: "CHR ''#'' \<notin> set l" if "l \<in> set ?ls" for l
    using that by (auto dest: uncomment_line_clean getlines_no_newline)
  have "CHR ''#'' \<notin> set (unlines ls)" if "\<forall>l \<in> set ls. CHR ''#'' \<notin> set l" for ls
    using that by (induction ls) auto
  then have none: "CHR ''#'' \<notin> set (remove_comments_from_schema s)"
    using clean by (simp add: remove_comments_from_schema_def)
  have "concat (map uncomment_line ls) = ls" if "\<forall>l \<in> set ls. CHR ''#'' \<notin> set l" for ls
    using that by (induction ls) (auto simp: uncomment_line_def)
  then have "remove_comments_from_schema (remove_comments_from_schema s) = remove_comments_from_schema s"
    using clean getlines_remove_comments [of s]
    by (simp add: remove_comments_from_schema_def [of "remove_comments_from_schema s"])
       (simp add: remove_comments_from_schema_def)
  moreover have "subseq (filter (\<lambda>l. CHR ''#'' \<notin> set l) ls) (concat (map uncomment_line ls))" for ls
    by (induction ls) (auto simp: uncomment_line_def Let_def)
  ultimately show ?thesis using none by (simp add: getlines_remove_comments)
qed

end
