(* ===== verification/Ros2_Topic_Source.thy ===== *)
theory Ros2_Topic_Source
  imports Schema_Properties Sample_Run
begin

text \<open>
  \<^verbatim>\<open>TopicDiscovery\<close> and \<^verbatim>\<open>Ros2TopicSource\<close> (\<^verbatim>\<open>src/ros2/src/topic_discovery.cpp\<close>,
  \<^verbatim>\<open>ros2_topic_source.cpp\<close>): which topics of the ROS graph the server offers, and their schemas.
  The graph's answers are arguments: the topics with their types, which the node returns as a
  map, and the publishers of a topic.
\<close>

section \<open>Discovery\<close>

definition kSystemTopics :: "string list" where
  "kSystemTopics = [''/rosout'', ''/parameter_events'', ''/robot_description'']"

definition should_filter_topic :: "string \<Rightarrow> bool" where
  "should_filter_topic t = (t \<in> set kSystemTopics \<or> take 2 t = ''/_'')"

fun discover_topics :: "(string \<times> string list) list \<Rightarrow> (string \<times> string) list" where
  "discover_topics [] = []"
| "discover_topics ((name, types) # rest) =
     (if should_filter_topic name then discover_topics rest
      else case types of [] \<Rightarrow> discover_topics rest
           | ty # _ \<Rightarrow> (name, ty) # discover_topics rest)"

definition discovery_is_transient_local :: "ros_graph \<Rightarrow> string \<Rightarrow> bool" where
  "discovery_is_transient_local g t =
     (publishers_info g t \<noteq> [] \<and> list_all pub_transient_local (publishers_info g t))"

section \<open>The topic source\<close>

record ros2_topic_source =
  topic_type_cache :: "string umap"
  schema_extractor :: extractor

definition ros2_get_topics ::
    "(string \<times> string list) list \<Rightarrow> ros2_topic_source \<Rightarrow> (string \<times> string) list \<times> ros2_topic_source" where
  "ros2_get_topics names x =
     (let topics = discover_topics names
      in (topics, x\<lparr>topic_type_cache := assign_all [] topics\<rparr>))"

definition unknown_topic :: "string \<Rightarrow> string" where
  "unknown_topic t = ''unknown topic '' @ [CHR 0x27] @ t @ [CHR 0x27]"

text \<open>The message of the exception or the schema; \<^const>\<open>None\<close> as in the extractor.\<close>

definition ros2_get_schema ::
    "disk \<Rightarrow> string \<Rightarrow> ros2_topic_source \<Rightarrow> ((string + string) \<times> ros2_topic_source) option" where
  "ros2_get_schema d t x =
     (case map_of (topic_type_cache x) t of
        None \<Rightarrow> Some (Inl (unknown_topic t), x)
      | Some ty \<Rightarrow>
          map_option (\<lambda>(r, y). (r, x\<lparr>schema_extractor := y\<rparr>))
            (try_get_message_definition d ty (schema_extractor x)))"

definition ros2_schema_encoding :: string where
  "ros2_schema_encoding = kSchemaEncodingRos2Msg"

text \<open>An environment of the server whose topic answers come from this source.\<close>

definition provided_by_ros2 ::
    "('b, 're) env \<Rightarrow> (string \<times> string list) list \<Rightarrow> ros_graph \<Rightarrow> disk \<Rightarrow> ros2_topic_source \<Rightarrow> bool" where
  "provided_by_ros2 e names g d x =
     (let (topics, y) = ros2_get_topics names x
      in source_topics e = topics \<and>
         (\<forall>t. map_option fst (ros2_get_schema d t y) = Some (source_schema e t)) \<and>
         source_encoding e = ros2_schema_encoding \<and>
         source_transient_local e = discovery_is_transient_local g)"

section \<open>Properties\<close>

lemma discover_keys: "set (keys (discover_topics names)) \<subseteq> set (keys names)"
  by (induction names rule: discover_topics.induct) (auto split: list.splits)

lemma discover_distinct: "unique_keys names \<Longrightarrow> unique_keys (discover_topics names)"
proof (induction names rule: discover_topics.induct)
  case (2 name types rest)
  then show ?case using discover_keys [of rest] by (auto split: list.splits)
qed simp

lemma map_of_discover:
  "unique_keys names \<Longrightarrow> map_of (discover_topics names) t = Some ty \<longleftrightarrow>
     \<not> should_filter_topic t \<and> (\<exists>types. map_of names t = Some (ty # types))"
proof (induction names rule: discover_topics.induct)
  case (2 name types rest)
  then have "map_of (discover_topics rest) name = None"
    using discover_keys [of rest] by (auto simp: map_of_eq_None_iff)
  with 2 show ?case by (auto split: list.splits)
qed simp

lemma map_of_assign_all_distinct:
  "unique_keys kvs \<Longrightarrow> map_of (assign_all [] kvs) = map_of kvs"
proof -
  assume "unique_keys kvs"
  then have "map_of (rev kvs) = map_of kvs" by (subst map_of_inject_set) (simp_all add: rev_map [symmetric])
  then show ?thesis by (simp add: map_of_assign_all)
qed

text \<open>What a request for the schema of a discovered topic answers.\<close>

lemma ros2_get_schema_effect:
  assumes "provided_by_ros2 e names g d x" and "unique_keys names"
    and "schema_extractor x = asked d history"
  shows "source_schema e t =
    (case map_of (discover_topics names) t of
       None \<Rightarrow> Inl (unknown_topic t)
     | Some ty \<Rightarrow> fst (the (try_get_message_definition d ty (asked d history))))"
proof -
  from assms(1) have "map_option fst (ros2_get_schema d t (snd (ros2_get_topics names x))) = Some (source_schema e t)"
    by (simp add: provided_by_ros2_def case_prod_beta)
  then show ?thesis
    using map_of_assign_all_distinct [OF discover_distinct [OF assms(2)]] assms(3)
    by (auto simp: ros2_get_schema_def ros2_get_topics_def Let_def split: option.splits)
qed

lemma definition_exists_iff:
  "(\<exists>text. fst (the (try_get_message_definition d ty (asked d history))) = Inr text) \<longleftrightarrow>
   (\<exists>p n. parse_message_type ty = Some (p, n) \<and>
      (\<forall>u. (mentions d)\<^sup>*\<^sup>* (full_name p n) u \<longrightarrow> text_of d u \<noteq> None))"
  using try_get_effect [OF asked_ok, of d ty history]
  by (cases "parse_message_type ty") (auto simp: is_definition_def split: if_splits)

text \<open>
  C25. Which topics a client can subscribe to on the ROS 2 backend. A requested topic passes the
  validation, with type \<open>ty\<close>, exactly when the whitelist matches it, it is neither one of the
  three system topics nor hidden, the graph lists it with \<open>ty\<close> as its first type, \<open>ty\<close> has three
  parts, and the files of all the types that it mentions can be read.
\<close>

theorem ros2_topic_accepted:
  assumes "provided_by_ros2 e names g d x" and "distinct (map fst names)"
    and "schema_extractor x = asked d history"
  shows "(\<exists>schema. validate_topic e w (assign_all [] (source_topics e)) t = Inr (ty, schema)) \<longleftrightarrow>
    matches (regex_match e) w t \<and>
    t \<notin> {''/rosout'', ''/parameter_events'', ''/robot_description''} \<and> take 2 t \<noteq> ''/_'' \<and>
    (\<exists>types. map_of names t = Some (ty # types)) \<and>
    (\<exists>p n. parse_message_type ty = Some (p, n) \<and>
       (\<forall>u. (mentions d)\<^sup>*\<^sup>* (full_name p n) u \<longrightarrow> text_of d u \<noteq> None))"
proof -
  have topics: "map_of (assign_all [] (source_topics e)) = map_of (discover_topics names)"
    using assms(1) map_of_assign_all_distinct [OF discover_distinct [OF assms(2)]]
    by (simp add: provided_by_ros2_def ros2_get_topics_def Let_def)
  note schema = ros2_get_schema_effect [OF assms, of t]
  note found = map_of_discover [OF assms(2), of t]
  have "(\<exists>schema. validate_topic e w (assign_all [] (source_topics e)) t = Inr (ty, schema)) \<longleftrightarrow>
      matches (regex_match e) w t \<and> map_of (discover_topics names) t = Some ty \<and>
      (\<exists>text. fst (the (try_get_message_definition d ty (asked d history))) = Inr text)"
    unfolding validate_topic_def topics extract_schema_def
    by (cases "map_of (discover_topics names) t")
       (auto simp: schema split: sum.splits)
  then show ?thesis
    by (auto simp: definition_exists_iff found should_filter_topic_def kSystemTopics_def)
qed

text \<open>A source whose graph lists one topic with a readable type, and one that is hidden.\<close>

definition sample_names :: "(string \<times> string list) list" where
  "sample_names = [(''/_h'', [''p/msg/A'']), (''/a'', [''p/msg/A''])]"

definition sample_source :: ros2_topic_source where
  "sample_source = \<lparr>topic_type_cache = [], schema_extractor = asked sample_disk []\<rparr>"

definition sample_source_env :: "(ros2_manager, unit) env" where
  "sample_source_env = sample_ros_env
     \<lparr>source_topics := discover_topics sample_names,
      source_schema := (\<lambda>t. fst (the (ros2_get_schema sample_disk t (snd (ros2_get_topics sample_names sample_source))))),
      source_encoding := ros2_schema_encoding,
      source_transient_local := discovery_is_transient_local sample_graph\<rparr>"

lemma ros2_get_schema_total: "\<exists>r y. ros2_get_schema d t x = Some (r, y)"
proof (cases "map_of (topic_type_cache x) t")
  case None
  then show ?thesis by (simp add: ros2_get_schema_def)
next
  case (Some ty)
  with try_get_total [of d ty "schema_extractor x"] show ?thesis by (auto simp: ros2_get_schema_def)
qed

lemma sample_source_provides:
  "provided_by_ros2 sample_source_env sample_names sample_graph sample_disk sample_source"
proof -
  have "map_option fst (ros2_get_schema d t x) = Some (fst (the (ros2_get_schema d t x)))" for d t x
    using ros2_get_schema_total [of d t x] by auto
  then show ?thesis
    by (simp add: provided_by_ros2_def sample_source_env_def ros2_get_topics_def Let_def)
qed

theorem ros2_topic_accepted_witness:
  "(\<exists>schema. validate_topic sample_source_env default_whitelist
      (assign_all [] (source_topics sample_source_env)) ''/a'' = Inr (''p/msg/A'', schema)) \<and>
   \<not> (\<exists>schema. validate_topic sample_source_env default_whitelist
      (assign_all [] (source_topics sample_source_env)) ''/_h'' = Inr (''p/msg/A'', schema))"
proof -
  have d: "distinct (map fst sample_names)" by (simp add: sample_names_def)
  have x: "schema_extractor sample_source = asked sample_disk []" by (simp add: sample_source_def)
  note accepted = ros2_topic_accepted [OF sample_source_provides d x]
  have p: "parse_message_type ''p/msg/A'' = Some (''p'', ''A'')" by (simp add: parse_message_type_def)
  have r: "text_of sample_disk u \<noteq> None" if "(mentions sample_disk)\<^sup>*\<^sup>* (full_name ''p'' ''A'') u" for u
  proof -
    from that have "u = ''p/A'' \<or> u \<in> {u. (mentions sample_disk)\<^sup>+\<^sup>+ ''p/A'' u}"
      by (auto simp: full_name_def dest: rtranclpD)
    then show ?thesis unfolding sample_reach by (auto simp: sample_texts)
  qed
  have m: "matches (regex_match sample_source_env) default_whitelist ''/a''"
    by (simp add: sample_source_env_def matches_def default_whitelist_def)
  show ?thesis
    using accepted [of default_whitelist "''/a''" "''p/msg/A''"] accepted [of default_whitelist "''/_h''" "''p/msg/A''"] p r m
    by (simp add: sample_names_def)
qed

end
