(* ===== verification/Topic_Sources.thy ===== *)
theory Topic_Sources
  imports Ros2_Topic_Source Dds_Discovery
begin

text \<open>
  The interface between the server and the topic source of a backend
  (\<^verbatim>\<open>topic_source_interface.hpp\<close>), as the answers of its virtual methods at the time of a call,
  and the three sources that implement it. What the server needs of a source is a locale.
\<close>

section \<open>The interface\<close>

text \<open>A topic is its name and its type; \<open>Inl\<close> is the exception of \<^verbatim>\<open>get_schema\<close>.\<close>

record source_answers =
  ts_get_topics :: "(string \<times> string) list"
  ts_get_schema :: "string \<Rightarrow> string + string"
  ts_schema_encoding :: string
  ts_is_transient_local :: "string \<Rightarrow> bool"

definition default_topic_is_transient_local :: "string \<Rightarrow> bool" where
  "default_topic_is_transient_local t = False"

text \<open>The environment of a server that is built with a source.\<close>

definition asking :: "source_answers \<Rightarrow> ('b, 're) env \<Rightarrow> ('b, 're) env" where
  "asking a e =
     e\<lparr>source_topics := ts_get_topics a, source_schema := ts_get_schema a,
       source_encoding := ts_schema_encoding a, source_transient_local := ts_is_transient_local a\<rparr>"

locale topic_source =
  fixes answers :: "'s \<Rightarrow> source_answers"
    and inv :: "'s \<Rightarrow> bool"
  assumes listed_once: "inv x \<Longrightarrow> unique_keys (ts_get_topics (answers x))"
begin

text \<open>Which topics pass the validation of a subscribe request.\<close>

lemma accepted_iff:
  assumes "inv x" "e = asking (answers x) e0"
  shows "validate_topic e w (assign_all [] (source_topics e)) t = Inr (ty, schema) \<longleftrightarrow>
    matches (regex_match e) w t \<and> map_of (ts_get_topics (answers x)) t = Some ty \<and>
    ts_get_schema (answers x) t = Inr schema"
proof -
  have "map_of (assign_all [] (source_topics e)) = map_of (ts_get_topics (answers x))"
    using map_of_assign_all_distinct [OF listed_once [OF assms(1)]] by (simp add: assms(2) asking_def)
  then show ?thesis
    by (auto simp: validate_topic_def extract_schema_def assms(2) asking_def split: option.splits sum.splits)
qed

end

section \<open>The three sources\<close>

text \<open>ROS 2: the graph, the disk and the source at the time of the call.\<close>

definition ros2_answers ::
    "(string \<times> string list) list \<times> ros_graph \<times> disk \<times> ros2_topic_source \<Rightarrow> source_answers" where
  "ros2_answers = (\<lambda>(names, g, d, x).
     let (topics, y) = ros2_get_topics names x
     in \<lparr>ts_get_topics = topics,
         ts_get_schema = (\<lambda>t. case ros2_get_schema d t y of None \<Rightarrow> Inl ''out of fuel'' | Some (r, _) \<Rightarrow> r),
         ts_schema_encoding = ros2_schema_encoding,
         ts_is_transient_local = discovery_is_transient_local g\<rparr>)"

text \<open>The two DDS sources do not override the durability.\<close>

definition fastdds_answers :: "hash_order \<Rightarrow> dds_source \<Rightarrow> source_answers" where
  "fastdds_answers ho s =
     \<lparr>ts_get_topics = fastdds_get_topics ho s, ts_get_schema = (\<lambda>t. Inr (fastdds_get_schema t s)),
      ts_schema_encoding = fastdds_schema_encoding,
      ts_is_transient_local = default_topic_is_transient_local\<rparr>"

definition rti_answers :: "hash_order \<Rightarrow> dds_source \<Rightarrow> source_answers" where
  "rti_answers ho s =
     \<lparr>ts_get_topics = rti_get_topics ho s, ts_get_schema = (\<lambda>t. Inr (rti_get_schema t s)),
      ts_schema_encoding = rti_schema_encoding,
      ts_is_transient_local = default_topic_is_transient_local\<rparr>"

interpretation ros2_source: topic_source ros2_answers "\<lambda>(names, _). unique_keys names"
proof
  fix x :: "(string \<times> string list) list \<times> ros_graph \<times> disk \<times> ros2_topic_source"
  assume "case x of (names, _) \<Rightarrow> unique_keys names"
  then show "unique_keys (ts_get_topics (ros2_answers x))"
    by (simp add: ros2_answers_def ros2_get_topics_def discover_distinct case_prod_beta Let_def)
qed

lemma listed_types: "map fst (map (\<lambda>(n, d). (n, f d)) xs) = map fst xs"
  by (simp add: case_prod_beta comp_def)

interpretation fastdds_source: topic_source "fastdds_answers ho" dds_source_wf for ho
  by unfold_locales
    (simp add: fastdds_answers_def fastdds_get_topics_def listed_types dds_source_wf_def distinct_entries del: map_map)

interpretation rti_source: topic_source "rti_answers ho" dds_source_wf for ho
  by unfold_locales
    (simp add: rti_answers_def rti_get_topics_def listed_types dds_source_wf_def distinct_entries del: map_map)

text \<open>The schema of a ROS 2 source never runs out of fuel, so the answers are those of the source.\<close>

lemma ros2_answers_provided:
  assumes "\<forall>t. ros2_get_schema d t (snd (ros2_get_topics names x)) \<noteq> None"
  shows "provided_by_ros2 (asking (ros2_answers (names, g, d, x)) e) names g d x"
  using assms
  by (auto simp: provided_by_ros2_def asking_def ros2_answers_def case_prod_beta split: option.splits)

section \<open>Which DDS topics are accepted\<close>

lemma map_of_listed:
  assumes "unique_keys m"
  shows "map_of (map (\<lambda>(n, d). (n, f d)) (entries ho m)) t = map_option f (map_of m t)"
  by (simp add: map_of_map map_of_entries [OF assms])

text \<open>
  C26. Which topics a client can subscribe to on the DDS backends. Whatever writers are announced,
  on whatever domains and in whatever order, a requested topic passes the validation, with a type
  and a schema, exactly when the whitelist matches it and some announcement of it was complete:
  the type and the schema are those of the first complete one. No DDS topic is shown as latched.
\<close>

theorem dds_topic_accepted:
  "(let e = asking (fastdds_answers ho (fastdds_run evs (fastdds_source mk ids))) e0
    in (validate_topic e w (assign_all [] (source_topics e)) t = Inr (ty, schema) \<longleftrightarrow>
          matches (regex_match e) w t \<and>
          map_option (\<lambda>d. (type_name d, schema_idl d)) (find (\<lambda>_. True) (List.map_filter (announces t) evs))
            = Some (ty, schema)) \<and>
       attach_latched_badge e t j = j) \<and>
   (let e = asking (rti_answers ho (rti_run calls (rti_source ids))) e0
    in (validate_topic e w (assign_all [] (source_topics e)) t = Inr (ty, schema) \<longleftrightarrow>
          matches (regex_match e) w t \<and>
          map_option (\<lambda>d. (type_name d, schema_idl d)) (find (\<lambda>_. True) (concat (map (rti_announced t) calls)))
            = Some (ty, schema)) \<and>
       attach_latched_badge e t j = j)"
proof -
  have first: "find (\<lambda>_. True) ds = (case ds of [] \<Rightarrow> None | d # _ \<Rightarrow> Some d)" for ds :: "discovered_topic list"
    by (cases ds) simp_all
  have badge: "attach_latched_badge (asking a e0) t j = j" if "ts_is_transient_local a = default_topic_is_transient_local" for a
    using that by (simp add: attach_latched_badge_def asking_def default_topic_is_transient_local_def)
  let ?f = "fastdds_run evs (fastdds_source mk ids)" and ?r = "rti_run calls (rti_source ids)"
  have wf: "dds_source_wf ?f" "dds_source_wf ?r" by (rule fastdds_run_wf rti_run_wf, rule new_sources_wf)+
  have f: "map_of (topics ?f) t = find (\<lambda>_. True) (List.map_filter (announces t) evs)"
    by (simp add: fastdds_run_lookup first) (simp add: fastdds_source_def)
  have r: "map_of (topics ?r) t = find (\<lambda>_. True) (concat (map (rti_announced t) calls))"
    by (simp add: rti_run_lookup first) (simp add: rti_source_def)
  have lf: "map_of (fastdds_get_topics ho ?f) t = map_option type_name (map_of (topics ?f) t)"
    and lr: "map_of (rti_get_topics ho ?r) t = map_option type_name (map_of (topics ?r) t)"
    using wf by (simp_all add: fastdds_get_topics_def rti_get_topics_def map_of_listed dds_source_wf_def)
  have fast: "validate_topic e w (assign_all [] (source_topics e)) t = Inr (ty, schema) \<longleftrightarrow>
      matches (regex_match e) w t \<and> map_option (\<lambda>d. (type_name d, schema_idl d)) (map_of (topics ?f) t) = Some (ty, schema)"
    if "e = asking (fastdds_answers ho ?f) e0" for e
    unfolding fastdds_source.accepted_iff [OF wf(1) that]
    by (auto simp: fastdds_answers_def lf fastdds_get_schema_def split: option.splits)
  have rti: "validate_topic e w (assign_all [] (source_topics e)) t = Inr (ty, schema) \<longleftrightarrow>
      matches (regex_match e) w t \<and> map_option (\<lambda>d. (type_name d, schema_idl d)) (map_of (topics ?r) t) = Some (ty, schema)"
    if "e = asking (rti_answers ho ?r) e0" for e
    unfolding rti_source.accepted_iff [OF wf(2) that]
    by (auto simp: rti_answers_def lr rti_get_schema_def split: option.splits)
  show ?thesis
    unfolding Let_def using fast [OF refl] rti [OF refl] f r
    by (simp add: badge fastdds_answers_def rti_answers_def)
qed

end
