(* ===== verification/Lock_Order.thy ===== *)
theory Lock_Order
  imports Main
begin

text \<open>
  Threads that take and release mutexes in the scoped manner of \<^verbatim>\<open>std::lock_guard\<close>. A call is
  described by its locking skeleton: which guards it opens, in which order and nesting, with
  branches and loops left to chance. If every thread only takes a mutex that is below the ones
  it holds, no state is a deadlock and all calls come to an end.
\<close>

section \<open>Locking skeletons and their traces\<close>

datatype 'l lock_action = Acquire 'l | Release 'l

datatype 'l locking =
  Quiet
| Guard 'l "'l locking"
| Next "'l locking" "'l locking"
| Either "'l locking" "'l locking"
| Repeat "'l locking"

text \<open>A block of statements, and a choice among branches.\<close>

definition block :: "'l locking list \<Rightarrow> 'l locking" where
  "block cs = foldr Next cs Quiet"

definition branch :: "'l locking list \<Rightarrow> 'l locking" where
  "branch cs = foldr Either cs Quiet"

text \<open>
  The traces of a skeleton. Any statement may be the last of its block: a return, a break or
  an exception leaves the enclosing guards, which release their mutexes on the way out.
\<close>

inductive traces :: "'l locking \<Rightarrow> 'l lock_action list \<Rightarrow> bool" where
  quiet: "traces Quiet []"
| guard: "traces c as \<Longrightarrow> traces (Guard l c) (Acquire l # as @ [Release l])"
| seq: "traces c as \<Longrightarrow> traces d bs \<Longrightarrow> traces (Next c d) (as @ bs)"
| leave: "traces c as \<Longrightarrow> traces (Next c d) as"
| first: "traces c as \<Longrightarrow> traces (Either c d) as"
| second: "traces d as \<Longrightarrow> traces (Either c d) as"
| stop: "traces (Repeat c) []"
| again: "traces c as \<Longrightarrow> traces (Repeat c) bs \<Longrightarrow> traces (Repeat c) (as @ bs)"

text \<open>A mutex may be taken below a bound: the innermost mutex held, if there is one.\<close>

fun below :: "'l :: linorder \<Rightarrow> 'l option \<Rightarrow> bool" where
  "below l None = True"
| "below l (Some m) = (l < m)"

fun ordered :: "'l :: linorder option \<Rightarrow> 'l locking \<Rightarrow> bool" where
  "ordered b Quiet = True"
| "ordered b (Guard l c) = (below l b \<and> ordered (Some l) c)"
| "ordered b (Next c d) = (ordered b c \<and> ordered b d)"
| "ordered b (Either c d) = (ordered b c \<and> ordered b d)"
| "ordered b (Repeat c) = ordered b c"

lemma ordered_block [simp]: "ordered b (block cs) = list_all (ordered b) cs"
  by (induction cs) (simp_all add: block_def)

lemma ordered_branch [simp]: "ordered b (branch cs) = list_all (ordered b) cs"
  by (induction cs) (simp_all add: branch_def)

text \<open>A larger bound, or none, leaves more freedom.\<close>

lemma ordered_weaken: "ordered (Some l) c \<Longrightarrow> below l b \<Longrightarrow> ordered b c"
proof (induction c arbitrary: l)
  case (Guard k c)
  then show ?case by (cases b) auto
qed auto

lemma ordered_free: "ordered b c \<Longrightarrow> ordered None c"
  by (induction c arbitrary: b) auto

section \<open>Disciplined threads\<close>

text \<open>What a thread may still do, given the mutexes it holds, the innermost first.\<close>

fun disciplined :: "'l :: linorder list \<Rightarrow> 'l lock_action list \<Rightarrow> bool" where
  "disciplined held [] = (held = [])"
| "disciplined held (Acquire l # as) = ((\<forall>h \<in> set held. l < h) \<and> disciplined (l # held) as)"
| "disciplined held (Release l # as) = (case held of [] \<Rightarrow> False | h # hs \<Rightarrow> h = l \<and> disciplined hs as)"

definition bound_of :: "'l list \<Rightarrow> 'l option" where
  "bound_of held = (case held of [] \<Rightarrow> None | h # _ \<Rightarrow> Some h)"

lemma below_held:
  assumes "sorted_wrt (<) held" "below l (bound_of held)"
  shows "\<forall>h \<in> set held. l < h"
  using assms by (cases held) (auto simp: bound_of_def dest: order.strict_trans)

lemma traces_disciplined:
  assumes "traces c as" "ordered (bound_of held) c" "sorted_wrt (<) held" "disciplined held rest"
  shows "disciplined held (as @ rest)"
  using assms
proof (induction arbitrary: held rest rule: traces.induct)
  case (guard c as l)
  have low: "\<forall>h \<in> set held. l < h" using below_held guard.prems(1,2) by auto
  have "disciplined (l # held) (as @ Release l # rest)"
    using guard.IH [of "l # held" "Release l # rest"] guard.prems low by (simp add: bound_of_def)
  with low show ?case by simp
qed auto

section \<open>Systems of threads\<close>

text \<open>A thread is what it holds and what it has to do yet.\<close>

type_synonym 'l thread = "'l list \<times> 'l lock_action list"

definition free_in :: "'l \<Rightarrow> 'l thread list \<Rightarrow> bool" where
  "free_in l ts = list_all (\<lambda>(held, _). l \<notin> set held) ts"

inductive lock_step :: "'l thread list \<Rightarrow> 'l thread list \<Rightarrow> bool" where
  acquire: "i < length ts \<Longrightarrow> ts ! i = (held, Acquire l # as) \<Longrightarrow> free_in l ts \<Longrightarrow>
    lock_step ts (ts[i := (l # held, as)])"
| release: "i < length ts \<Longrightarrow> ts ! i = (held, Release l # as) \<Longrightarrow>
    lock_step ts (ts[i := (remove1 l held, as)])"

definition started :: "'l lock_action list list \<Rightarrow> 'l thread list" where
  "started = map (Pair [])"

definition finished :: "'l thread list \<Rightarrow> bool" where
  "finished = list_all (\<lambda>(held, as). held = [] \<and> as = [])"

definition exclusive :: "'l thread list \<Rightarrow> bool" where
  "exclusive ts = (\<forall>i < length ts. \<forall>j < length ts. i \<noteq> j \<longrightarrow> set (fst (ts ! i)) \<inter> set (fst (ts ! j)) = {})"

definition system_ok :: "'l :: linorder thread list \<Rightarrow> bool" where
  "system_ok ts = (list_all (\<lambda>(held, as). sorted_wrt (<) held \<and> disciplined held as) ts \<and> exclusive ts)"

lemma system_ok_thread:
  "system_ok ts \<Longrightarrow> i < length ts \<Longrightarrow> ts ! i = (held, as) \<Longrightarrow> sorted_wrt (<) held \<and> disciplined held as"
  unfolding system_ok_def by (metis (mono_tags, lifting) case_prod_conv list_all_length)

lemma free_in_iff: "free_in l ts \<longleftrightarrow> l \<notin> \<Union> (set ` fst ` set ts)"
  by (simp add: free_in_def list_all_iff case_prod_beta)

lemma free_inD: "free_in l ts \<Longrightarrow> j < length ts \<Longrightarrow> l \<notin> set (fst (ts ! j))"
  by (simp add: free_in_iff)

lemma not_finished:
  "\<not> finished ts \<Longrightarrow> \<exists>i < length ts. fst (ts ! i) \<noteq> [] \<or> snd (ts ! i) \<noteq> []"
  by (simp add: finished_def list_all_length case_prod_beta)

lemma exclusiveD:
  "system_ok ts \<Longrightarrow> i < length ts \<Longrightarrow> j < length ts \<Longrightarrow> i \<noteq> j \<Longrightarrow>
    set (fst (ts ! i)) \<inter> set (fst (ts ! j)) = {}"
  by (simp add: system_ok_def exclusive_def)

lemma started_ok: "\<forall>as \<in> set tr. disciplined [] as \<Longrightarrow> system_ok (started tr)"
  by (auto simp: system_ok_def started_def exclusive_def list_all_iff)

lemma system_ok_update:
  assumes "system_ok ts" "i < length ts" "ts ! i = (held, as)"
    "sorted_wrt (<) held'" "disciplined held' as'"
    "\<forall>j < length ts. j \<noteq> i \<longrightarrow> set held' \<inter> set (fst (ts ! j)) = {}"
  shows "system_ok (ts[i := (held', as')])"
proof -
  have "list_all (\<lambda>(held, as). sorted_wrt (<) held \<and> disciplined held as) (ts[i := (held', as')])"
    using assms(1,4,5) set_update_subset_insert [of ts i "(held', as')"]
    by (auto simp: system_ok_def list_all_iff)
  moreover have "exclusive (ts[i := (held', as')])"
    unfolding exclusive_def
  proof (intro allI impI)
    fix a b
    assume "a < length (ts[i := (held', as')])" "b < length (ts[i := (held', as')])" "a \<noteq> b"
    then show "set (fst (ts[i := (held', as')] ! a)) \<inter> set (fst (ts[i := (held', as')] ! b)) = {}"
      using assms(1,2,6) by (cases "a = i"; cases "b = i") (auto simp: system_ok_def exclusive_def)
  qed
  ultimately show ?thesis by (simp add: system_ok_def)
qed

lemma lock_step_ok:
  assumes "lock_step ts ts'" "system_ok ts"
  shows "system_ok ts'"
  using assms
proof (induction rule: lock_step.induct)
  case (acquire i ts held l as)
  note t = system_ok_thread [OF acquire.prems acquire.hyps(1,2)]
  have "set (l # held) \<inter> set (fst (ts ! j)) = {}" if "j < length ts" "j \<noteq> i" for j
    using exclusiveD [OF acquire.prems acquire.hyps(1) that(1)] free_inD [OF acquire.hyps(3) that(1)]
      acquire.hyps(2) that(2) by auto
  with t show ?case
    by (intro system_ok_update [OF acquire.prems acquire.hyps(1,2)]) auto
next
  case (release i ts held l as)
  note t = system_ok_thread [OF release.prems release.hyps(1,2)]
  then obtain hs where held: "held = l # hs" by (cases held) auto
  have "set hs \<inter> set (fst (ts ! j)) = {}" if "j < length ts" "j \<noteq> i" for j
  proof -
    from exclusiveD [OF release.prems release.hyps(1) that(1)] that(2) release.hyps(2) held
    show ?thesis by auto
  qed
  with t held show ?case
    by (intro system_ok_update [OF release.prems release.hyps(1,2)]) auto
qed

text \<open>Progress: the holder of the smallest mutex held can go on, whatever the others wait for.\<close>

lemma lock_progress:
  assumes ok: "system_ok ts" and "\<not> finished ts"
  shows "\<exists>ts'. lock_step ts ts'"
proof (rule ccontr)
  assume stuck: "\<nexists>ts'. lock_step ts ts'"
  have waits: "\<exists>l rest. as = Acquire l # rest \<and> \<not> free_in l ts \<and> (\<forall>h \<in> set held. l < h)"
    if at: "i < length ts" "ts ! i = (held, as)" and more: "as \<noteq> []" for i held as
  proof -
    obtain a rest where as: "as = a # rest" using more by (cases as) auto
    show ?thesis
    proof (cases a)
      case (Acquire l)
      with at as have next_action: "ts ! i = (held, Acquire l # rest)" by simp
      have "\<not> free_in l ts" using lock_step.acquire [OF at(1) next_action] stuck by blast
      with Acquire as system_ok_thread [OF ok at] show ?thesis by simp
    next
      case (Release l)
      with at as have "ts ! i = (held, Release l # rest)" by simp
      from lock_step.release [OF at(1) this] stuck show ?thesis by blast
    qed
  qed
  let ?held = "\<Union>(set ` fst ` set ts)"
  obtain i held as where i: "i < length ts" "ts ! i = (held, as)" "held \<noteq> [] \<or> as \<noteq> []"
    using not_finished [OF assms(2)] by (metis prod.collapse)
  have "disciplined held as" using system_ok_thread [OF ok i(1,2)] by simp
  then have "as \<noteq> []" using i(3) by auto
  with waits [OF i(1,2)] obtain l where "\<not> free_in l ts" by blast
  then have some: "?held \<noteq> {}" unfolding free_in_iff by blast
  have fin: "finite ?held" by simp
  note least = Min_le [OF fin]
  from Min_in [OF fin some] obtain t where "t \<in> set ts" "Min ?held \<in> set (fst t)" by auto
  then obtain j where "j < length ts" "ts ! j = t" by (auto simp: in_set_conv_nth)
  moreover obtain held' as' where "t = (held', as')" by (cases t)
  ultimately have j: "j < length ts" "ts ! j = (held', as')" "Min ?held \<in> set held'"
    using \<open>Min ?held \<in> set (fst t)\<close> by simp_all
  have "as' \<noteq> []" using system_ok_thread [OF ok j(1,2)] j(3) by auto
  with waits [OF j(1,2)] obtain k where k: "\<not> free_in k ts" "\<forall>h \<in> set held'. k < h" by blast
  have "k \<in> ?held" using k(1) unfolding free_in_iff by blast
  moreover have "k < Min ?held" using k(2) j(3) by blast
  ultimately show False using least by (meson leD)
qed

text \<open>Each step does one action, so every run is as long as the traces and can be completed.\<close>

definition work_left :: "'l thread list \<Rightarrow> nat" where
  "work_left ts = sum_list (map (\<lambda>(_, as). length as) ts)"

lemma lock_step_work: "lock_step ts ts' \<Longrightarrow> work_left ts = Suc (work_left ts')"
proof (induction rule: lock_step.induct)
  case (acquire i ts held l as)
  then show ?case
    using elem_le_sum_list [of i "map (\<lambda>(_, as). length as) ts"]
    by (simp add: work_left_def map_update sum_list_update)
next
  case (release i ts held l as)
  then show ?case
    using elem_le_sum_list [of i "map (\<lambda>(_, as). length as) ts"]
    by (simp add: work_left_def map_update sum_list_update)
qed

lemma lock_steps_ok: "lock_step\<^sup>*\<^sup>* ts ts' \<Longrightarrow> system_ok ts \<Longrightarrow> system_ok ts'"
  by (induction rule: rtranclp_induct) (auto intro: lock_step_ok)

lemma lock_run_completes:
  "system_ok ts \<Longrightarrow> \<exists>ts'. lock_step\<^sup>*\<^sup>* ts ts' \<and> finished ts'"
proof (induction "work_left ts" arbitrary: ts rule: less_induct)
  case less
  show ?case
  proof (cases "finished ts")
    case False
    then obtain ts1 where s: "lock_step ts ts1" using lock_progress less.prems by blast
    then obtain ts' where "lock_step\<^sup>*\<^sup>* ts1 ts'" "finished ts'"
      using less.hyps [of ts1] lock_step_work [OF s] lock_step_ok [OF s less.prems] by auto
    with s show ?thesis by (meson converse_rtranclp_into_rtranclp)
  qed blast
qed

end
