(* ===== verification/Locking.thy ===== *)
theory Locking
  imports Lock_Order
begin

text \<open>
  The locking skeletons of the bridge: for every function that a thread of the program calls,
  the guards it opens. The event loop or the timers call the server, the threads of the socket
  library run the client callback, and those of the ROS or DDS library deliver samples and
  announce topics; each may call anything at any time here. A shared lock counts as an
  exclusive one. \<open>Sockets\<close> stands for the socket library's own locks, which
  \<^verbatim>\<open>websocket_middleware.cpp\<close> says are taken by the calls on a client's socket and held by the
  thread that runs the client callback. Other locks inside the libraries have no place here, so
  that the claim is about the program's own mutexes: not those of Fast DDS, which
  \<^verbatim>\<open>close_subscription\<close> may take within the second critical section of a subscribe, nor the one
  of the list of clients, which \<^verbatim>\<open>getClients\<close> takes under \<^verbatim>\<open>clients_mutex_\<close>.
\<close>

section \<open>The mutexes and their order\<close>

datatype mutex =
  Sockets | Cleanup | Last_Sent | Stats | Topics | Replays
| Sessions | Buffer | Mw_State | Mw_Clients | Mw_Queue
| Backend | Backend_Callback | Discovery | Schema_Cache

text \<open>
  The order documented in \<^verbatim>\<open>bridge_server.hpp\<close>, \<^verbatim>\<open>cleanup_mutex_ > last_sent_mutex_ >
  stats_mutex_\<close>, with the leaf locks below them and the socket library above.
\<close>

fun rank :: "mutex \<Rightarrow> nat" where
  "rank Sockets = 14"
| "rank Cleanup = 13"
| "rank Topics = 12"
| "rank Last_Sent = 11"
| "rank Stats = 10"
| "rank Replays = 9"
| "rank Sessions = 8"
| "rank Backend = 7"
| "rank Backend_Callback = 6"
| "rank Discovery = 5"
| "rank Schema_Cache = 4"
| "rank Buffer = 3"
| "rank Mw_State = 2"
| "rank Mw_Clients = 1"
| "rank Mw_Queue = 0"

lemma rank_inject: "rank a = rank b \<Longrightarrow> a = b"
  by (cases a; cases b) simp_all

instantiation mutex :: linorder
begin

definition less_eq_mutex :: "mutex \<Rightarrow> mutex \<Rightarrow> bool" where
  "a \<le> b \<longleftrightarrow> rank a \<le> rank b"

definition less_mutex :: "mutex \<Rightarrow> mutex \<Rightarrow> bool" where
  "a < b \<longleftrightarrow> rank a < rank b"

instance
  by intro_classes (auto simp: less_eq_mutex_def less_mutex_def intro: rank_inject)

end

abbreviation locks :: "mutex \<Rightarrow> mutex locking" where
  "locks m \<equiv> Guard m Quiet"

section \<open>Backends\<close>

text \<open>What the server calls of a backend, and what the backend's threads run.\<close>

record backend_locking =
  set_callback_locks :: "mutex locking"
  subscribe_locks :: "mutex locking"
  unsubscribe_locks :: "mutex locking"
  query_locks :: "mutex locking"
  unsubscribe_all_locks :: "mutex locking"
  get_topics_locks :: "mutex locking"
  get_schema_locks :: "mutex locking"
  deliver_locks :: "mutex locking"
  announce_locks :: "mutex locking"

text \<open>The server's message callback: the receive counter, then the buffer.\<close>

definition ingest_locks :: "mutex locking" where
  "ingest_locks = block [locks Stats, locks Buffer]"

definition build_definition_locks :: "mutex locking" where
  "build_definition_locks = Repeat (block [locks Schema_Cache, locks Schema_Cache])"

definition schema_locks :: "mutex locking" where
  "schema_locks = block [locks Schema_Cache, build_definition_locks, locks Schema_Cache]"

definition ros2_locking :: backend_locking where
  "ros2_locking =
     \<lparr>set_callback_locks = locks Backend_Callback, subscribe_locks = locks Backend,
      unsubscribe_locks = locks Backend, query_locks = locks Backend,
      unsubscribe_all_locks = locks Backend, get_topics_locks = Quiet,
      get_schema_locks = schema_locks,
      deliver_locks = Repeat (block [locks Backend_Callback, ingest_locks]),
      announce_locks = Quiet\<rparr>"

text \<open>
  The DDS managers look the topic up and create the entities between two critical sections;
  the second may close the entities again, with none of the program's mutexes; the data listener copies the callback in one.
\<close>

definition dds_subscribe_locks :: "mutex locking" where
  "dds_subscribe_locks =
     block [locks Backend, locks Discovery, locks Discovery, locks Discovery, locks Backend]"

definition dds_deliver_locks :: "mutex locking" where
  "dds_deliver_locks = block [locks Backend, Repeat ingest_locks]"

definition fastdds_locking :: backend_locking where
  "fastdds_locking =
     \<lparr>set_callback_locks = locks Backend, subscribe_locks = dds_subscribe_locks,
      unsubscribe_locks = locks Backend, query_locks = Quiet,
      unsubscribe_all_locks = locks Backend, get_topics_locks = locks Discovery,
      get_schema_locks = locks Discovery, deliver_locks = dds_deliver_locks,
      announce_locks = block [locks Discovery, locks Discovery]\<rparr>"

definition rti_locking :: backend_locking where
  "rti_locking =
     \<lparr>set_callback_locks = locks Backend, subscribe_locks = dds_subscribe_locks,
      unsubscribe_locks = locks Backend, query_locks = Quiet,
      unsubscribe_all_locks = locks Backend, get_topics_locks = locks Discovery,
      get_schema_locks = locks Discovery, deliver_locks = dds_deliver_locks,
      announce_locks = Repeat (locks Discovery)\<rparr>"

section \<open>The middleware\<close>

definition receive_request_locks :: "mutex locking" where
  "receive_request_locks = block [locks Mw_State, locks Mw_Queue]"

text \<open>The client is looked up under the lock; the socket is called without it.\<close>

definition send_reply_locks :: "mutex locking" where
  "send_reply_locks = block [locks Mw_Clients, locks Sockets]"

text \<open>
  The lookup; the flush of \<^verbatim>\<open>run_backpressure\<close>, which reads the buffered amount, pops and
  sends; the decision about the current frame; the shed counter and the throttled warning.
\<close>

definition send_binary_locks :: "mutex locking" where
  "send_binary_locks =
     block [locks Mw_Clients,
            Repeat (block [locks Sockets, locks Mw_Clients, locks Sockets]),
            locks Sockets,
            Either (locks Sockets) (locks Mw_Clients),
            Either (locks Mw_Clients) Quiet,
            Either (block [locks Mw_Clients, locks Mw_Clients]) Quiet]"

definition mw_initialize_locks :: "mutex locking" where
  "mw_initialize_locks = locks Mw_State"

definition shutdown_locks :: "mutex locking" where
  "shutdown_locks =
     block [locks Mw_State, Repeat (locks Sockets), Either (locks Mw_State) Quiet,
            locks Mw_Clients, locks Mw_Queue]"

section \<open>The server\<close>

abbreviation session_call :: "mutex locking" where
  "session_call \<equiv> locks Sessions"

definition release_locks :: "backend_locking \<Rightarrow> mutex locking" where
  "release_locks b = block [unsubscribe_locks b, query_locks b, locks Buffer]"

definition collect_replay_locks :: "backend_locking \<Rightarrow> mutex locking" where
  "collect_replay_locks b = block [query_locks b, locks Buffer, locks Buffer, locks Replays]"

definition cleanup_locks :: "backend_locking \<Rightarrow> mutex locking" where
  "cleanup_locks b =
     block [Guard Cleanup
              (block [locks Replays, session_call,
                      Either (block [session_call, Repeat (release_locks b), session_call, locks Last_Sent])
                             Quiet]),
            locks Mw_Clients]"

text \<open>The session is looked up, created if new, and its heartbeat updated.\<close>

definition touch_locks :: "mutex locking" where
  "touch_locks = block [session_call, Either session_call Quiet, session_call]"

definition get_topics_handler_locks :: "backend_locking \<Rightarrow> mutex locking" where
  "get_topics_handler_locks b =
     block [touch_locks, get_topics_locks b, Repeat (Either (get_schema_locks b) Quiet)]"

definition subscribe_handler_locks :: "backend_locking \<Rightarrow> mutex locking" where
  "subscribe_handler_locks b =
     block [touch_locks, session_call, get_topics_locks b, Repeat (get_schema_locks b),
            Guard Cleanup
              (block [session_call,
                      Repeat (block [Either (subscribe_locks b) Quiet, session_call,
                                     Either (release_locks b)
                                       (block [session_call, Either (collect_replay_locks b) Quiet])]),
                      Repeat session_call]),
            session_call]"

definition unsubscribe_handler_locks :: "backend_locking \<Rightarrow> mutex locking" where
  "unsubscribe_handler_locks b =
     block [touch_locks,
            Guard Cleanup
              (block [session_call, session_call,
                      Repeat (block [Either (release_locks b) Quiet, session_call])])]"

definition pause_handler_locks :: "backend_locking \<Rightarrow> mutex locking" where
  "pause_handler_locks b =
     block [touch_locks,
            Guard Cleanup
              (block [session_call, session_call, session_call,
                      Repeat (block [release_locks b, session_call])])]"

definition resume_handler_locks :: "backend_locking \<Rightarrow> mutex locking" where
  "resume_handler_locks b =
     block [touch_locks, get_topics_locks b,
            Guard Cleanup
              (block [session_call, session_call, session_call, session_call,
                      Repeat (block [subscribe_locks b, session_call, collect_replay_locks b])])]"

definition topic_updates_handler_locks :: "mutex locking" where
  "topic_updates_handler_locks = block [touch_locks, session_call, Either session_call Quiet]"

definition single_request_locks :: "backend_locking \<Rightarrow> mutex locking" where
  "single_request_locks b =
     block [branch [get_topics_handler_locks b, subscribe_handler_locks b, unsubscribe_handler_locks b,
                    touch_locks, pause_handler_locks b, resume_handler_locks b,
                    topic_updates_handler_locks],
            send_reply_locks,
            Either (cleanup_locks b) (block [locks Replays, Repeat send_binary_locks])]"

definition process_requests_locks :: "backend_locking \<Rightarrow> mutex locking" where
  "process_requests_locks b = Repeat (block [receive_request_locks, single_request_locks b])"

definition timeouts_locks :: "backend_locking \<Rightarrow> mutex locking" where
  "timeouts_locks b = block [session_call, Repeat (cleanup_locks b)]"

definition topic_changes_locks :: "backend_locking \<Rightarrow> mutex locking" where
  "topic_changes_locks b =
     block [get_topics_locks b, locks Topics, session_call,
            Repeat (block [session_call, session_call, Repeat (get_schema_locks b), send_reply_locks])]"

definition publish_locks :: "mutex locking" where
  "publish_locks =
     block [locks Buffer, session_call, Repeat session_call, Repeat session_call, locks Last_Sent,
            Repeat send_binary_locks, locks Stats]"

definition initialize_locks :: "backend_locking \<Rightarrow> mutex locking" where
  "initialize_locks b = block [set_callback_locks b, locks Mw_State, mw_initialize_locks]"

text \<open>
  The callback of the socket library: the state check, then the branch for an opened or closed
  connection or a message.
\<close>

definition client_callback_locks :: "backend_locking \<Rightarrow> mutex locking" where
  "client_callback_locks b =
     Guard Sockets
       (block [locks Mw_State,
               branch [block [locks Mw_Clients, locks Mw_State],
                       block [locks Mw_State, cleanup_locks b, locks Mw_Clients],
                       locks Mw_Queue]])"

section \<open>No deadlock\<close>

text \<open>Everything that a thread of the program may call.\<close>

definition entry_points :: "backend_locking \<Rightarrow> mutex locking list" where
  "entry_points b =
     [initialize_locks b, process_requests_locks b, publish_locks, timeouts_locks b,
      topic_changes_locks b, client_callback_locks b, deliver_locks b, announce_locks b,
      set_callback_locks b, unsubscribe_all_locks b, shutdown_locks,
      locks Stats \<comment> \<open>the statistics of the server\<close>,
      locks Mw_Clients \<comment> \<open>the statistics of the middleware\<close>,
      query_locks b]"

definition any_calls :: "backend_locking \<Rightarrow> mutex locking" where
  "any_calls b = Repeat (branch (entry_points b))"

lemmas skeleton_defs =
  any_calls_def entry_points_def initialize_locks_def process_requests_locks_def publish_locks_def
  timeouts_locks_def topic_changes_locks_def client_callback_locks_def shutdown_locks_def
  single_request_locks_def get_topics_handler_locks_def subscribe_handler_locks_def
  unsubscribe_handler_locks_def pause_handler_locks_def resume_handler_locks_def
  topic_updates_handler_locks_def touch_locks_def cleanup_locks_def release_locks_def
  collect_replay_locks_def send_binary_locks_def send_reply_locks_def receive_request_locks_def
  mw_initialize_locks_def ingest_locks_def schema_locks_def build_definition_locks_def
  dds_subscribe_locks_def dds_deliver_locks_def

lemma backends_ordered:
  "ordered None (any_calls ros2_locking)"
  "ordered None (any_calls fastdds_locking)"
  "ordered None (any_calls rti_locking)"
  by (simp_all add: skeleton_defs ros2_locking_def fastdds_locking_def rti_locking_def less_mutex_def)

text \<open>
  C5. The program cannot deadlock on its mutexes. Take any number of threads, each making any
  sequence of the program's calls on one of the three backends, every call leaving early
  wherever it likes, and any interleaving of their acquisitions and releases: no two threads
  ever hold the same mutex, as long as a call is unfinished some thread can take its next step,
  and all calls can be brought to their end with every mutex released.
\<close>

theorem bridge_deadlock_free:
  assumes "b \<in> {ros2_locking, fastdds_locking, rti_locking}"
    and "\<forall>as \<in> set calls. traces (any_calls b) as"
    and "lock_step\<^sup>*\<^sup>* (started calls) ts"
  shows "exclusive ts \<and> (finished ts \<or> (\<exists>ts'. lock_step ts ts')) \<and>
    (\<exists>ts'. lock_step\<^sup>*\<^sup>* ts ts' \<and> finished ts')"
proof -
  have o: "ordered None (any_calls b)" using assms(1) backends_ordered by blast
  have "disciplined [] as" if "as \<in> set calls" for as
    using traces_disciplined [of "any_calls b" as "[]" "[]"] assms(2) that o by (simp add: bound_of_def)
  then have ok: "system_ok ts" using lock_steps_ok [OF assms(3)] started_ok by blast
  then show ?thesis
    using lock_progress [OF ok] lock_run_completes [OF ok] by (auto simp: system_ok_def)
qed

text \<open>
  A publish that is about to hand a frame to a socket, beside a thread of the socket library
  that stores a request and holds the socket's lock meanwhile.
\<close>

definition guarded_once :: "mutex \<Rightarrow> mutex lock_action list" where
  "guarded_once m = [Acquire m, Release m]"

definition sample_publish :: "mutex lock_action list" where
  "sample_publish = concat (map guarded_once [Buffer, Sessions, Last_Sent, Mw_Clients, Sockets, Sockets, Stats])"

definition sample_message :: "mutex lock_action list" where
  "sample_message = Acquire Sockets # guarded_once Mw_State @ guarded_once Mw_Queue @ [Release Sockets]"

inductive_simps quiet_traces [simp]: "traces Quiet as"
inductive_cases guard_tracesE: "traces (Guard l c) as"

lemma locks_traces [simp]: "traces (locks m) as \<longleftrightarrow> as = guarded_once m"
  using traces.guard [OF traces.quiet, of m] by (auto simp: guarded_once_def elim: guard_tracesE)

lemma branch_traces: "c \<in> set cs \<Longrightarrow> traces c as \<Longrightarrow> traces (branch cs) as"
  by (induction cs) (auto simp: branch_def intro: traces.intros)

lemma block_traces:
  "traces (block []) []" "traces c as \<Longrightarrow> traces (block cs) bs \<Longrightarrow> traces (block (c # cs)) (as @ bs)"
  "traces c as \<Longrightarrow> traces (block (c # cs)) as"
  by (simp_all add: block_def traces.intros)

lemma once: "traces c as \<Longrightarrow> traces (Repeat c) as"
  using traces.again [OF _ traces.stop, of c as] by simp

lemma entry_point_traces: "c \<in> set (entry_points b) \<Longrightarrow> traces c as \<Longrightarrow> traces (any_calls b) as"
  unfolding any_calls_def by (intro once branch_traces)

lemma sample_message_traces: "traces (any_calls b) sample_message"
proof -
  have "traces (block [locks Mw_State,
               branch [block [locks Mw_Clients, locks Mw_State],
                       block [locks Mw_State, cleanup_locks b, locks Mw_Clients],
                       locks Mw_Queue]]) (guarded_once Mw_State @ guarded_once Mw_Queue)"
    by (rule block_traces(2), simp, rule block_traces(3), rule branch_traces [of "locks Mw_Queue"]) simp_all
  from traces.guard [OF this, of Sockets]
  have "traces (client_callback_locks b) sample_message"
    by (simp add: client_callback_locks_def sample_message_def)
  then show ?thesis by (rule entry_point_traces [rotated]) (simp add: entry_points_def)
qed

lemma sample_publish_traces: "traces (any_calls b) sample_publish"
proof -
  have "traces send_binary_locks (guarded_once Mw_Clients @ [] @ guarded_once Sockets @ guarded_once Sockets)"
    unfolding send_binary_locks_def
    by (intro block_traces(2,3) traces.stop traces.first) simp_all
  then have send: "traces (Repeat send_binary_locks) (guarded_once Mw_Clients @ guarded_once Sockets @ guarded_once Sockets)"
    by (intro once) simp
  have "traces publish_locks (guarded_once Buffer @ guarded_once Sessions @ [] @ [] @ guarded_once Last_Sent @
      (guarded_once Mw_Clients @ guarded_once Sockets @ guarded_once Sockets) @ guarded_once Stats)"
    unfolding publish_locks_def by (intro block_traces(2,3) traces.stop send) simp_all
  then have "traces publish_locks sample_publish" by (simp add: sample_publish_def)
  then show ?thesis by (rule entry_point_traces [rotated]) (simp add: entry_points_def)
qed

theorem bridge_deadlock_free_witness:
  "\<exists>ts ts'. lock_step (started [sample_publish, sample_message]) ts \<and>
     ts ! 1 = ([Sockets], tl sample_message) \<and> lock_step\<^sup>*\<^sup>* ts ts' \<and> finished ts'"
proof -
  let ?init = "started [sample_publish, sample_message]"
  let ?ts = "?init[1 := ([Sockets], tl sample_message)]"
  have step: "lock_step ?init ?ts"
    using lock_step.acquire [of 1 ?init "[]" Sockets "tl sample_message"]
    by (simp add: started_def sample_message_def free_in_def)
  obtain ts' where "lock_step\<^sup>*\<^sup>* ?ts ts'" "finished ts'"
    using bridge_deadlock_free [of ros2_locking "[sample_publish, sample_message]" ?ts]
      sample_publish_traces sample_message_traces step
    by auto
  with step show ?thesis by (intro exI [of _ ?ts] exI [of _ ts']) (simp add: started_def)
qed

text \<open>
  The discipline is needed: were the map of clients locked across a call on the socket, the
  thread that sends and the thread that opens a connection could block each other for good.
\<close>

lemma lock_held_across_socket_call_deadlocks:
  assumes "careless = Guard Mw_Clients (locks Sockets)"
  shows "\<not> ordered None careless \<and>
    (\<exists>as bs ts. traces careless as \<and> traces (client_callback_locks ros2_locking) bs \<and>
       lock_step\<^sup>*\<^sup>* (started [as, bs]) ts \<and> \<not> finished ts \<and> (\<nexists>ts'. lock_step ts ts'))"
proof
  show "\<not> ordered None careless" by (simp add: assms less_mutex_def)
  let ?as = "Acquire Mw_Clients # guarded_once Sockets @ [Release Mw_Clients]"
  let ?bs = "Acquire Sockets # (guarded_once Mw_State @ guarded_once Mw_Clients) @ [Release Sockets]"
  have a: "traces careless ?as"
    unfolding assms by (rule traces.guard) simp
  have b: "traces (client_callback_locks ros2_locking) ?bs"
    unfolding client_callback_locks_def
    by (intro traces.guard block_traces(2) block_traces(3) branch_traces
        [of "block [locks Mw_Clients, locks Mw_State]"]) simp_all
  define left where "left = ([Mw_Clients], guarded_once Sockets @ [Release Mw_Clients])"
  define right where "right = ([Sockets], guarded_once Mw_Clients @ [Release Sockets])"
  have 1: "lock_step (started [?as, ?bs]) [([], ?as), ([Sockets], tl ?bs)]"
    using lock_step.acquire [of 1 "started [?as, ?bs]" "[]" Sockets] by (simp add: started_def free_in_def)
  have 2: "lock_step [([], ?as), ([Sockets], tl ?bs)]
      [([], ?as), ([Mw_State, Sockets], tl (tl ?bs))]"
    using lock_step.acquire [of 1 "[([], ?as), ([Sockets], tl ?bs)]" "[Sockets]" Mw_State]
    by (simp add: free_in_def guarded_once_def)
  have 3: "lock_step [([], ?as), ([Mw_State, Sockets], tl (tl ?bs))] [([], ?as), right]"
    using lock_step.release [of 1 "[([], ?as), ([Mw_State, Sockets], tl (tl ?bs))]" "[Mw_State, Sockets]" Mw_State]
    by (simp add: right_def guarded_once_def)
  have 4: "lock_step [([], ?as), right] [left, right]"
    using lock_step.acquire [of 0 "[([], ?as), right]" "[]" Mw_Clients]
    by (simp add: free_in_def left_def right_def)
  from 1 2 3 4 have reach: "lock_step\<^sup>*\<^sup>* (started [?as, ?bs]) [left, right]"
    by (elim converse_rtranclp_into_rtranclp) (rule rtranclp.rtrancl_refl)
  have "False" if "lock_step [left, right] ts'" for ts'
    using that
  proof (cases rule: lock_step.cases)
    case (acquire i held l as)
    then have "i = 0 \<or> i = 1" by auto
    with acquire show ?thesis by (auto simp: left_def right_def guarded_once_def free_in_def)
  next
    case (release i held l as)
    then have "i = 0 \<or> i = 1" by auto
    with release show ?thesis by (auto simp: left_def right_def guarded_once_def)
  qed
  moreover have "\<not> finished [left, right]" by (simp add: finished_def left_def)
  ultimately show "\<exists>as bs ts. traces careless as \<and> traces (client_callback_locks ros2_locking) bs \<and>
       lock_step\<^sup>*\<^sup>* (started [as, bs]) ts \<and> \<not> finished ts \<and> (\<nexists>ts'. lock_step ts ts')"
    using a b reach by blast
qed

end
