(* ===== verification/Publish_Properties.thy ===== *)
theory Publish_Properties
  imports Publish_Loop "HOL-Library.Sublist"
begin

text \<open>
  What the publish loop puts into the frames of a group of clients, and what its rate gate
  lets through.
\<close>

section \<open>The rate gate\<close>

lemma admitted_append:
  "admitted i l (xs @ ys) =
     (fst (admitted i l xs) @ fst (admitted i (snd (admitted i l xs)) ys),
      snd (admitted i (snd (admitted i l xs)) ys))"
  by (induction xs arbitrary: l) (simp_all add: case_prod_beta)

lemma admitted_last: "snd (admitted i l msgs) = last (l # map timestamp_ns (fst (admitted i l msgs)))"
  by (induction msgs arbitrary: l) (auto simp: case_prod_beta)

lemma admitted_subseq: "subseq (fst (admitted i l msgs)) msgs"
  by (induction msgs arbitrary: l) (auto simp: case_prod_beta)

lemma admitted_set: "set (fst (admitted i l msgs)) \<subseteq> set msgs"
  by (induction msgs arbitrary: l) (auto simp: case_prod_beta)

lemma gate_no_overflow:
  fixes a b i :: u64
  assumes "unat a + unat i < 2 ^ 64"
  shows "b \<ge> a + i \<longleftrightarrow> unat a + unat i \<le> unat b"
proof -
  have "unat (a + i) = unat a + unat i" using assms by (simp add: unat_word_ariths)
  then show ?thesis by (simp add: word_le_nat_alt)
qed

lemma admitted_spaced:
  assumes "unat l + unat i < 2 ^ 64" "\<forall>m \<in> set msgs. unat (timestamp_ns m) + unat i < 2 ^ 64"
  shows "sorted_wrt (\<lambda>a b. a + unat i \<le> b) (unat l # map (\<lambda>m. unat (timestamp_ns m)) (fst (admitted i l msgs)))"
  using assms
proof (induction msgs arbitrary: l)
  case Nil
  then show ?case by simp
next
  case (Cons m msgs)
  show ?case
  proof (cases "timestamp_ns m \<ge> l + i")
    case True
    then have "unat l + unat i \<le> unat (timestamp_ns m)" using gate_no_overflow [OF Cons.prems(1)] by simp
    with Cons.IH [of "timestamp_ns m"] Cons.prems(2) True show ?thesis by (auto simp: case_prod_beta)
  next
    case False
    with Cons.IH [of l] Cons.prems show ?thesis by simp
  qed
qed

section \<open>Routing\<close>

text \<open>A message as a client sees it, and which of them go into a frame of their own.\<close>

definition wire :: "string \<Rightarrow> buffered_message \<Rightarrow> wire_message" where
  "wire t msg = (t, timestamp_ns msg, payload msg)"

definition heavy_wire :: "nat \<Rightarrow> wire_message \<Rightarrow> bool" where
  "heavy_wire threshold w = (threshold \<noteq> 0 \<and> threshold \<le> length (snd (snd w)))"

lemma heavy_wire_wire [simp]: "heavy_wire threshold (wire t msg) = heavy_message threshold msg"
  by (simp add: heavy_wire_def wire_def heavy_message_def)

text \<open>The messages a group is due, in order: all of a topic without a rate, else what the gate admits.\<close>

fun due_messages :: "rat umap \<Rightarrow> u64 umap \<Rightarrow> (string \<times> buffered_message list) list \<Rightarrow> wire_message list" where
  "due_messages subs sent [] = []"
| "due_messages subs sent ((t, msgs) # rest) =
     (case map_of subs t of
        None \<Rightarrow> []
      | Some rate \<Rightarrow>
          map (wire t) (if rate_mhz rate = 0 then msgs
            else fst (admitted (min_interval_ns (rate_mhz rate))
                        (case map_of sent t of None \<Rightarrow> 0 | Some v \<Rightarrow> v) msgs)))
     @ due_messages subs sent rest"

definition lossless :: "compressor \<Rightarrow> (bytes \<Rightarrow> bytes option) \<Rightarrow> bool" where
  "lossless z unpack = (\<forall>d. d \<noteq> [] \<longrightarrow> (\<exists>c. z d = Some c \<and> c \<noteq> [] \<and> unpack c = Some d))"

definition frame_holds ::
    "(bytes \<Rightarrow> bytes option) \<Rightarrow> string list \<Rightarrow> bool \<Rightarrow> group_frame \<Rightarrow> wire_message list \<Rightarrow> bool" where
  "frame_holds unpack ids heavy f ws =
     (decode_frame unpack (compressed_data f) = Some (0, ws) \<and> msg_count f = length ws \<and>
      client_ids f = ids \<and> is_heavy f = heavy)"

definition fits :: "wire_message list \<Rightarrow> bool" where
  "fits ws = (list_all well_sized ws \<and> length ws < 2 ^ 32 \<and> length (concat (map message_bytes ws)) < 2 ^ 32)"

lemma fits_filter: "fits ws \<Longrightarrow> fits (filter P ws)"
proof -
  assume f: "fits ws"
  have "length (concat (map message_bytes (filter P ws))) \<le> length (concat (map message_bytes ws))"
    by (induction ws) auto
  with f show ?thesis
    using length_filter_le [of P ws] by (auto simp: fits_def list_all_iff simp del: length_filter_le)
qed

lemma fits_singleton: "fits ws \<Longrightarrow> w \<in> set ws \<Longrightarrow> fits [w]"
proof -
  assume f: "fits ws" and w: "w \<in> set ws"
  have "length (message_bytes w) \<le> length (concat (map message_bytes ws))"
    using w by (induction ws) auto
  with f w show ?thesis by (auto simp: fits_def list_all_iff)
qed

lemma finalize_fits:
  assumes "lossless z unpack" "fits ws"
  shows "\<exists>frame. finalize z 0 (serialize_all ws new_serializer) = Inr frame \<and> decode_frame unpack frame = Some (0, ws)"
  using finalize_decodes [of z unpack ws 0] assms by (auto simp: lossless_def fits_def list_all_iff)

text \<open>What routing some messages adds to the state of a group.\<close>

definition routes ::
    "(bytes \<Rightarrow> bytes option) \<Rightarrow> nat \<Rightarrow> string list \<Rightarrow> wire_message list \<Rightarrow> group_state \<Rightarrow> group_state \<Rightarrow> bool" where
  "routes unpack threshold ids ws g g' =
     (light_serializer g' = serialize_all (filter (\<lambda>w. \<not> heavy_wire threshold w) ws) (light_serializer g) \<and>
      group_msg_count g' = group_msg_count g + length ws \<and>
      (\<exists>fs. heavy_frames g' = heavy_frames g @ fs \<and>
         list_all2 (\<lambda>f w. frame_holds unpack ids True f [w]) fs (filter (heavy_wire threshold) ws)))"

lemma routes_Nil: "routes unpack threshold ids [] g g"
  by (simp add: routes_def serialize_all_def)

lemma routes_append:
  assumes "routes unpack threshold ids ws g g1" "routes unpack threshold ids ws' g1 g2"
  shows "routes unpack threshold ids (ws @ ws') g g2"
proof -
  have "serialize_all (xs @ ys) s = serialize_all ys (serialize_all xs s)" for xs ys s
    by (simp add: serialize_all_def)
  with assms show ?thesis
    by (auto simp: routes_def intro!: list_all2_appendI)
qed

lemma serialize_wire:
  "serialize_all (wire t msg # ws) s =
     serialize_all ws (serialize_message t (timestamp_ns msg) (payload msg) s)"
  "serialize_all [] s = s"
  by (simp_all add: serialize_all_def wire_def)

lemma route_message_routes:
  assumes "lossless z unpack" "fits [wire t msg]"
  shows "\<exists>g'. route_message z threshold ids t msg g = Some g' \<and> routes unpack threshold ids [wire t msg] g g'"
proof (cases "heavy_message threshold msg")
  case True
  obtain frame where f: "finalize z 0 (serialize_all [wire t msg] new_serializer) = Inr frame"
      "decode_frame unpack frame = Some (0, [wire t msg])"
    using finalize_fits [OF assms] by blast
  then have "finalize z 0 (serialize_message t (timestamp_ns msg) (payload msg) new_serializer) = Inr frame"
    by (simp add: serialize_all_def wire_def)
  with f(2) True show ?thesis
    by (auto simp: route_message_def routes_def frame_holds_def serialize_all_def)
next
  case False
  then show ?thesis
    by (simp add: route_message_def routes_def serialize_wire)
qed

lemma route_all_routes:
  assumes "lossless z unpack" "\<forall>msg \<in> set msgs. fits [wire t msg]"
  shows "\<exists>g'. route_all z threshold ids t msgs g = Some g' \<and> routes unpack threshold ids (map (wire t) msgs) g g'"
  using assms(2)
proof (induction msgs arbitrary: g)
  case Nil
  then show ?case by (simp add: routes_Nil)
next
  case (Cons msg msgs)
  obtain g1 where 1: "route_message z threshold ids t msg g = Some g1" "routes unpack threshold ids [wire t msg] g g1"
    using route_message_routes [OF assms(1), of t msg threshold ids g] Cons.prems by auto
  from Cons.IH [of g1] Cons.prems obtain g2 where
    2: "route_all z threshold ids t msgs g1 = Some g2" "routes unpack threshold ids (map (wire t) msgs) g1 g2"
    by auto
  with 1 routes_append [OF 1(2) 2(2)] show ?case by simp
qed

lemma due_messages_other:
  "t \<notin> set (keys rest) \<Longrightarrow> due_messages subs (AList.update t v sent) rest = due_messages subs sent rest"
  by (induction rest) (auto split: option.splits)

lemma route_topics_routes:
  assumes "lossless z unpack" "unique_keys messages" "\<forall>w \<in> set (due_messages subs rep messages). fits [w]"
  shows "\<exists>g' rep'. route_topics z threshold ids subs messages rep g = (Some g', rep') \<and>
    routes unpack threshold ids (due_messages subs rep messages) g g'"
  using assms(2,3)
proof (induction messages arbitrary: rep g)
  case Nil
  then show ?case by (simp add: routes_Nil)
next
  case (Cons tm rest)
  obtain t msgs where tm: "tm = (t, msgs)" by (cases tm)
  show ?case
  proof (cases "map_of subs t")
    case None
    with Cons show ?thesis by (simp add: tm)
  next
    case (Some rate)
    define last_sent where "last_sent = (case map_of rep t of None \<Rightarrow> 0 | Some v \<Rightarrow> v)"
    obtain out l where a: "admitted (min_interval_ns (rate_mhz rate)) last_sent msgs = (out, l)" by fastforce
    define due_now where "due_now = (if rate_mhz rate = 0 then msgs else out)"
    define rep1 where "rep1 = (if rate_mhz rate = 0 then rep else AList.update t l rep)"
    have d: "due_messages subs rep ((t, msgs) # rest) = map (wire t) due_now @ due_messages subs rep1 rest"
      using Cons.prems(1) due_messages_other [of t rest subs l rep] a
      by (simp add: Some due_now_def rep1_def last_sent_def tm)
    obtain g1 where 1: "route_all z threshold ids t due_now g = Some g1"
        "routes unpack threshold ids (map (wire t) due_now) g g1"
      using route_all_routes [OF assms(1), of due_now t threshold ids g] Cons.prems(2)
      by (auto simp: tm d simp del: due_messages.simps)
    obtain g2 rep2 where 2: "route_topics z threshold ids subs rest rep1 g1 = (Some g2, rep2)"
        "routes unpack threshold ids (due_messages subs rep1 rest) g1 g2"
      using Cons.IH [of rep1 g1] Cons.prems
      by (auto simp: tm d simp del: due_messages.simps)
    have "route_topics z threshold ids subs ((t, msgs) # rest) rep g = (Some g2, rep2)"
      using 1(1) 2(1) a Some by (auto simp: due_now_def rep1_def last_sent_def Let_def)
    with routes_append [OF 1(2) 2(2)] show ?thesis by (simp add: tm d del: due_messages.simps)
  qed
qed

section \<open>The claims\<close>

text \<open>
  The frames of a group hold exactly what its clients are due: the small messages, in order, in
  one frame, and each message of at least the threshold in a frame of its own.
\<close>

lemma group_frames:
  assumes "lossless z unpack" and "distinct (map fst messages)"
    and "ws = due_messages (get_subscriptions (hd ids) m) (map_at (hd ids) sent) messages"
    and "fits ws"
    and "light = filter (\<lambda>w. \<not> heavy_wire threshold w) ws"
  shows "\<exists>fs sent'. build_group z threshold messages m ids sent = (Some fs, sent') \<and>
    list_all2 (\<lambda>f (heavy, held). frame_holds unpack ids heavy f held) fs
      ((if light = [] then [] else [(False, light)]) @
       map (\<lambda>w. (True, [w])) (filter (heavy_wire threshold) ws))"
proof -
  have fit1: "\<forall>w \<in> set ws. fits [w]" using fits_singleton [OF assms(4)] by blast
  obtain g rep where r: "route_topics z threshold ids (get_subscriptions (hd ids) m) messages
        (map_at (hd ids) sent) new_group_state = (Some g, rep)"
      "routes unpack threshold ids ws new_group_state g"
    using route_topics_routes [OF assms(1,2), of "get_subscriptions (hd ids) m" "map_at (hd ids) sent" threshold ids new_group_state]
      fit1 by (auto simp: assms(3))
  then have g: "light_serializer g = serialize_all light new_serializer" "group_msg_count g = length ws"
    and h: "list_all2 (\<lambda>f w. frame_holds unpack ids True f [w]) (heavy_frames g) (filter (heavy_wire threshold) ws)"
    by (auto simp: routes_def new_group_state_def assms(5))
  have count: "message_count (light_serializer g) = length light"
    by (simp add: g(1) serialize_all_fields) (simp add: new_serializer_def)
  have heavies: "list_all2 (\<lambda>f (heavy, held). frame_holds unpack ids heavy f held) (heavy_frames g)
      (map (\<lambda>w. (True, [w])) (filter (heavy_wire threshold) ws))"
    using h by (simp add: list_all2_map2)
  show ?thesis
  proof (cases "light = []")
    case True
    then have "ws = [] \<Longrightarrow> heavy_frames g = []" using h by simp
    with True heavies show ?thesis
      using r(1) g(2) count by (cases "ws = []") (auto simp: build_group_def Let_def)
  next
    case False
    obtain frame where f: "finalize z 0 (light_serializer g) = Inr frame" "decode_frame unpack frame = Some (0, light)"
      using finalize_fits [OF assms(1) fits_filter [OF assms(4)]] by (auto simp: g(1) assms(5))
    have "ws \<noteq> []" using False assms(5) by auto
    with False heavies f show ?thesis
      using r(1) g(2) count by (simp add: build_group_def Let_def frame_holds_def)
  qed
qed

text \<open>
  C33. The rate gate. As long as no timestamp is within one interval of the end of the 64-bit
  range, the messages it admits keep their order and are at least one interval apart, the first
  one that far from the last time sent; the next message is admitted exactly when one interval
  has passed since the last one admitted.
\<close>

theorem rate_gate_spacing:
  assumes "unat last_sent + unat interval < 2 ^ 64"
    and "\<forall>m \<in> set (msgs @ [msg]). unat (timestamp_ns m) + unat interval < 2 ^ 64"
    and "admitted interval last_sent msgs = (out, latest)"
  shows "subseq out msgs \<and>
    sorted_wrt (\<lambda>a b. a + unat interval \<le> b) (unat last_sent # map (\<lambda>m. unat (timestamp_ns m)) out) \<and>
    latest = last (last_sent # map timestamp_ns out) \<and>
    fst (admitted interval last_sent (msgs @ [msg])) =
      out @ (if unat latest + unat interval \<le> unat (timestamp_ns msg) then [msg] else [])"
proof -
  have latest: "latest = last (last_sent # map timestamp_ns out)"
    using admitted_last [of interval last_sent msgs] assms(3) by simp
  have sub: "subseq out msgs" using admitted_subseq [of interval last_sent msgs] assms(3) by simp
  have "out \<noteq> [] \<Longrightarrow> last out \<in> set msgs"
    using admitted_set [of interval last_sent msgs] assms(3) last_in_set [of out] by auto
  then have "unat latest + unat interval < 2 ^ 64"
    using assms(1,2) by (cases "out = []") (simp_all add: latest last_map)
  note gate = gate_no_overflow [OF this, of "timestamp_ns msg"]
  show ?thesis
    using admitted_spaced [OF assms(1), of msgs] assms(2,3) sub latest gate
    by (simp add: admitted_append)
qed

theorem rate_gate_spacing_witness:
  "map timestamp_ns (fst (admitted 10 0
     (map (\<lambda>t. \<lparr>timestamp_ns = t, received_at_ns = 0, payload = []\<rparr>) [12, 15, 21] @
      [\<lparr>timestamp_ns = 22, received_at_ns = 0, payload = []\<rparr>]))) = [12, 22]"
proof -
  let ?msg = "\<lambda>t. \<lparr>timestamp_ns = t, received_at_ns = 0, payload = []\<rparr> :: buffered_message"
  have a: "admitted 10 0 (map ?msg [12, 15, 21]) = ([?msg 12], 12)" by simp
  have b: "\<forall>m \<in> set (map ?msg [12, 15, 21] @ [?msg 22]). unat (timestamp_ns m) + unat (10 :: u64) < 2 ^ 64"
    by simp
  from rate_gate_spacing [OF _ b a] show ?thesis by simp
qed

end
