(* ===== verification/Delivery.thy ===== *)
theory Delivery
  imports Publish_Properties Request_Claims Sample_Run
begin

text \<open>
  From the buffer to the wire: what one publish cycle puts on the sockets. The groups of
  clients, the frames of a group, the backpressure policy and the socket are put together.
\<close>

section \<open>Healthy sockets\<close>

text \<open>
  A transport that is never congested, never fails and never loses its client: a send hands
  over the whole backlog and then the frame.
\<close>

locale healthy_transport = transport ops alive pending wire inv
  for ops :: "'s callables" and alive :: "'s \<Rightarrow> bool" and pending :: "'s \<Rightarrow> frame list"
    and wire :: "'s \<Rightarrow> frame list" and inv :: "'s \<Rightarrow> bool" +
  fixes watermark :: nat
  assumes calm: "inv s \<Longrightarrow> alive s \<Longrightarrow> buffered_amount ops s = (n, s') \<Longrightarrow> n < watermark \<and> alive s'"
    and steady: "inv s \<Longrightarrow> alive s \<Longrightarrow> send ops f s = (ok, s') \<Longrightarrow> ok \<and> alive s'"
begin

lemma flush_everything:
  assumes "inv s" "alive s" "pending s = fs"
  shows "\<exists>s'. flush_backlog ops watermark (length fs) s = (False, length fs, s') \<and>
    inv s' \<and> alive s' \<and> wire s' = wire s @ fs \<and> pending s' = []"
  using assms
proof (induction fs arbitrary: s)
  case Nil
  then show ?case by simp
next
  case (Cons f fs)
  obtain n s1 where a: "buffered_amount ops s = (n, s1)" by fastforce
  note c = calm [OF Cons.prems(1,2) a] and r = read_law [OF Cons.prems(1) a]
  obtain popped s2 where p: "pop_pending ops s1 = (popped, s2)" by fastforce
  have pl: "inv s2 \<and> wire s2 = wire s1 \<and> alive s2 \<and> popped = Some f \<and> pending s2 = fs"
    using pop_law [OF _ p] r c Cons.prems(3) by simp
  obtain ok s3 where x: "send ops f s2 = (ok, s3)" by fastforce
  have sl: "ok \<and> alive s3" using steady [OF _ _ x] pl by simp
  then have tl: "inv s3 \<and> wire s3 = wire s2 @ [f] \<and> pending s3 = fs"
    using send_law [OF _ x] pl by simp
  with sl Cons.IH [of s3] obtain s' where
    "flush_backlog ops watermark (length fs) s3 = (False, length fs, s')"
    "inv s'" "alive s'" "wire s' = wire s3 @ fs" "pending s' = []" by blast
  with a c r p pl x sl tl show ?case by simp
qed

lemma healthy_delivery:
  assumes "inv s" "alive s"
  shows "\<exists>s'. run_backpressure priority f watermark (length (pending s)) ops s =
      (\<lparr>result = KDelivered, frames_flushed = length (pending s), dropped = 0\<rparr>, s') \<and>
    inv s' \<and> alive s' \<and> wire s' = wire s @ pending s @ [f] \<and> pending s' = []"
proof -
  obtain s1 where fl: "flush_backlog ops watermark (length (pending s)) s = (False, length (pending s), s1)"
      "inv s1" "alive s1" "wire s1 = wire s @ pending s" "pending s1 = []"
    using flush_everything [OF assms refl] by blast
  obtain n s2 where a: "buffered_amount ops s1 = (n, s2)" by fastforce
  note c = calm [OF fl(2,3) a] and r = read_law [OF fl(2) a]
  obtain ok s3 where x: "send ops f s2 = (ok, s3)" by fastforce
  have "ok \<and> alive s3" using steady [OF _ _ x] c r by simp
  moreover then have "inv s3 \<and> wire s3 = wire s2 @ [f] \<and> pending s3 = []"
    using send_law [OF _ x] c r fl(5) by simp
  ultimately show ?thesis using fl a c r x by (simp add: run_backpressure_def)
qed

end

text \<open>The socket of a client that stays healthy whatever happens on the network.\<close>

definition healthy :: "network \<Rightarrow> nat \<Rightarrow> string \<Rightarrow> bool" where
  "healthy nw w c =
     (\<forall>evs. ix_buffered_amount nw evs c < w \<and> ix_send_success nw evs c \<and> c \<notin> set (ix_closed nw evs))"

interpretation healthy_socket: healthy_transport "client_callables nw c" "\<lambda>m. c \<in> set (clients m)"
    "\<lambda>m. backlog_of m c" "\<lambda>m. wire_of m c" "\<lambda>m. mw_wf m \<and> healthy nw w c" w
  for nw c w
proof unfold_locales
  fix m n m'
  assume m: "mw_wf m \<and> healthy nw w c" and a: "buffered_amount (client_callables nw c) m = (n, m')"
  from client_socket.read_law [OF _ a] m
  show "(mw_wf m' \<and> healthy nw w c) \<and> wire_of m' c = wire_of m c \<and>
      (c \<in> set (clients m') \<longrightarrow> c \<in> set (clients m) \<and> backlog_of m' c = backlog_of m c)" by simp
  from m a show "n < w \<and> c \<in> set (clients m')" if "c \<in> set (clients m)"
    using that by (auto simp: healthy_def observe_clients)
next
  fix m r m'
  assume m: "mw_wf m \<and> healthy nw w c" and p: "pop_pending (client_callables nw c) m = (r, m')"
  from client_socket.pop_law [OF _ p] m
  show "(mw_wf m' \<and> healthy nw w c) \<and> wire_of m' c = wire_of m c \<and>
      (c \<in> set (clients m')) = (c \<in> set (clients m)) \<and>
      (r, backlog_of m' c) =
        (if c \<in> set (clients m)
         then (case backlog_of m c of [] \<Rightarrow> (None, []) | f # fs \<Rightarrow> (Some f, fs))
         else (None, backlog_of m c))" by simp
next
  fix m f ok m'
  assume m: "mw_wf m \<and> healthy nw w c" and x: "send (client_callables nw c) f m = (ok, m')"
  from client_socket.send_law [OF _ x] m
  show "(mw_wf m' \<and> healthy nw w c) \<and> wire_of m' c = wire_of m c @ (if ok then [f] else []) \<and>
      (c \<in> set (clients m') \<longrightarrow> c \<in> set (clients m) \<and> backlog_of m' c = backlog_of m c)" by simp
  from m x show "ok \<and> c \<in> set (clients m')" if "c \<in> set (clients m)"
    using that by (auto simp: healthy_def observe_clients)
next
  fix m f r m'
  assume m: "mw_wf m \<and> healthy nw w c" and q: "queue_pending (client_callables nw c) f m = (r, m')"
  from client_socket.queue_law [OF _ q] m
  show "(mw_wf m' \<and> healthy nw w c) \<and> wire_of m' c = wire_of m c \<and>
      (c \<in> set (clients m')) = (c \<in> set (clients m)) \<and>
      (if c \<in> set (clients m)
       then \<exists>d. r = Some d \<and> backlog_of m' c = drop d (backlog_of m c @ [f])
       else r = None \<and> backlog_of m' c = backlog_of m c)" by blast
qed

section \<open>One frame\<close>

definition served :: "('b, 're) env \<Rightarrow> string \<Rightarrow> ('b, 're) server \<Rightarrow> bool" where
  "served e c s =
     (mw_wf (mw s) \<and> c \<in> set (clients (mw s)) \<and>
      healthy (network e) (socket_buffer_watermark (mw s)) c)"

lemma drop_pending_watermark: "socket_buffer_watermark (drop_pending c m) = socket_buffer_watermark m"
  by (simp add: drop_pending_def fold_pending_def Let_def split: option.splits)

lemma fold_cleanup_mw:
  assumes "mw_wf (mw s)" "c \<notin> set cs"
  shows "mw_wf (mw (fold (cleanup_session e) cs s)) \<and>
    clients (mw (fold (cleanup_session e) cs s)) = clients (mw s) \<and>
    socket_buffer_watermark (mw (fold (cleanup_session e) cs s)) = socket_buffer_watermark (mw s) \<and>
    backlog_of (mw (fold (cleanup_session e) cs s)) c = backlog_of (mw s) c"
  using assms
proof (induction cs arbitrary: s)
  case (Cons d cs)
  then show ?case
    using Cons.IH [of "cleanup_session e d s"]
    by (simp add: frame_simps mw_simps drop_pending_wf drop_pending_watermark)
qed simp

lemma wire_of_net: "net m = net m' \<Longrightarrow> wire_of m c = wire_of m' c"
  by (simp add: wire_of_def)

lemma after_socket_served:
  assumes "mw_wf m" "c \<in> set (clients m)"
  shows "mw_wf (mw (after_socket_call e m s)) \<and> clients (mw (after_socket_call e m s)) = clients m \<and>
    socket_buffer_watermark (mw (after_socket_call e m s)) = socket_buffer_watermark m \<and>
    backlog_of (mw (after_socket_call e m s)) c = backlog_of m c \<and>
    wire_of (mw (after_socket_call e m s)) c = wire_of m c"
  using fold_cleanup_mw [of "s\<lparr>mw := m\<rparr>" c "filter (\<lambda>c. c \<notin> set (clients m)) (clients (mw s))" e] assms
  by (auto simp: after_socket_call_def Let_def intro!: wire_of_net simp: fold_cleanup_net)

lemma send_binary_watermark:
  assumes "send_binary nw now c f p m = (r, m')"
  shows "socket_buffer_watermark m' = socket_buffer_watermark m"
proof -
  have "preserved_by (client_callables nw c) (\<lambda>x. socket_buffer_watermark x = socket_buffer_watermark m)"
    by (auto simp: preserved_by_def client_callables_def Let_def mw_simps case_prod_beta
        split: option.splits)
  from send_binary_preserves [OF assms refl this] show ?thesis
    by (simp add: drop_warning_def Let_def mw_simps)
qed

lemma send_frame_self:
  assumes "served e c s"
  shows "\<exists>s'. send_frame e c f p s = (KDelivered, s') \<and> served e c s' \<and>
    wire_of (mw s') c = wire_of (mw s) c @ backlog_of (mw s) c @ [f] \<and> backlog_of (mw s') c = []"
proof -
  let ?w = "socket_buffer_watermark (mw s)"
  have inv: "mw_wf (mw s) \<and> healthy (network e) ?w c" and c: "c \<in> set (clients (mw s))"
    using assms by (auto simp: served_def)
  obtain m' where m: "run_backpressure p f ?w (length (backlog_of (mw s) c)) (client_callables (network e) c) (mw s) =
      (\<lparr>result = KDelivered, frames_flushed = length (backlog_of (mw s) c), dropped = 0\<rparr>, m')"
      "mw_wf m'" "c \<in> set (clients m')" "wire_of m' c = wire_of (mw s) c @ backlog_of (mw s) c @ [f]"
      "backlog_of m' c = []"
    using healthy_socket.healthy_delivery [OF inv c, of p f] by auto
  then have b: "send_binary (network e) (steady_now e) c f p (mw s) = (KDelivered, m')"
    using c by (simp add: send_binary_def backlog_size_eq)
  show ?thesis
    using after_socket_served [OF m(2,3), of e s] m send_binary_watermark [OF b] assms
    by (simp add: send_frame_def b served_def)
qed

text \<open>What is sent to somebody else does not touch a client.\<close>

definition untouched :: "string \<Rightarrow> middleware \<Rightarrow> middleware \<Rightarrow> bool" where
  "untouched c m m' =
     (mw_wf m' \<and> c \<in> set (clients m') \<and> backlog_of m' c = backlog_of m c \<and> wire_of m' c = wire_of m c)"

lemma untouched_observe:
  assumes "untouched c m m'" "healthy nw w c" "accepted_by c ev = []"
  shows "untouched c m (observe nw ev m')"
proof -
  have "c \<in> set (clients (observe nw ev m'))"
    using assms by (simp add: untouched_def observe_clients healthy_def)
  with assms observe_backlog [of m' c nw ev] show ?thesis
    by (simp add: untouched_def observe_wf wire_of_observe backlog_of_def)
qed

lemma callables_untouched:
  assumes "c' \<noteq> c" "healthy nw w c"
  shows "preserved_by (client_callables nw c') (untouched c m)"
proof -
  have pop: "untouched c m x \<Longrightarrow> untouched c m (snd (pop_pending (client_callables nw c') x))" for x
    using pop_callable [of x nw c', OF _ surjective_pairing] assms(1)
    by (auto simp: untouched_def client_callables_def backlog_of_def wire_of_def case_prod_beta
        split: option.splits)
  have queue: "untouched c m x \<Longrightarrow> untouched c m (snd (queue_pending (client_callables nw c') f x))" for x f
    using queue_callable [of x nw c' f, OF _ surjective_pairing] assms(1)
    by (auto simp: untouched_def client_callables_def backlog_of_def wire_of_def case_prod_beta Let_def
        split: option.splits if_splits)
  show ?thesis
    unfolding preserved_by_def using pop queue untouched_observe [OF _ assms(2)] assms(1) by auto
qed

lemma send_frame_other:
  assumes "served e c s" "c' \<noteq> c" "send_frame e c' f p s = (r, s')"
  shows "served e c s' \<and> wire_of (mw s') c = wire_of (mw s) c \<and> backlog_of (mw s') c = backlog_of (mw s) c"
proof -
  obtain m where b: "send_binary (network e) (steady_now e) c' f p (mw s) = (r, m)"
      and s': "s' = after_socket_call e m s"
    using assms(3) by (auto simp: send_frame_def split: prod.splits)
  have h: "healthy (network e) (socket_buffer_watermark (mw s)) c" using assms(1) by (simp add: served_def)
  have "untouched c (mw s) m"
  proof (rule send_binary_preserves [OF b _ callables_untouched [OF assms(2) h]])
    show "untouched c (mw s) (mw s)" using assms(1) by (simp add: untouched_def served_def)
    show "untouched c (mw s) x \<Longrightarrow> untouched c (mw s) (x\<lparr>heavy_shed_total := n\<rparr>)" for x n
      by (simp add: untouched_def mw_wf_shed backlog_of_def wire_of_def)
    show "untouched c (mw s) x \<Longrightarrow> untouched c (mw s) (snd (drop_warning (network e) (steady_now e) c' x))" for x
      using untouched_observe [OF _ h, of "mw s" x "Clock_Read (steady_now e)"]
      by (simp add: untouched_def drop_warning_wf mw_simps backlog_of_def wire_of_def)
  qed
  then show ?thesis
    using after_socket_served [of m c e s] send_binary_watermark [OF b] assms(1)
    by (simp add: untouched_def served_def s')
qed

section \<open>All frames of a cycle\<close>

text \<open>What a client reads when frames are sent to it: its backlog first, if there is a frame.\<close>

definition after_backlog :: "frame list \<Rightarrow> frame list \<Rightarrow> frame list" where
  "after_backlog backlog fs = (if fs = [] then [] else backlog @ fs)"

definition reads_after ::
    "('b, 're) env \<Rightarrow> string \<Rightarrow> frame list \<Rightarrow> ('b, 're) server \<Rightarrow> ('b, 're) server \<Rightarrow> bool" where
  "reads_after e c fs s s' =
     (served e c s' \<and> wire_of (mw s') c = wire_of (mw s) c @ after_backlog (backlog_of (mw s) c) fs \<and>
      backlog_of (mw s') c = (if fs = [] then backlog_of (mw s) c else []))"

lemma reads_after_trans:
  "reads_after e c fs s s1 \<Longrightarrow> reads_after e c gs s1 s2 \<Longrightarrow> reads_after e c (fs @ gs) s s2"
  by (auto simp: reads_after_def after_backlog_def)

lemma send_to_clients_reads:
  assumes "served e c s" "distinct cs"
  shows "reads_after e c (if c \<in> set cs \<and> c \<notin> set ps then [compressed_data f] else []) s
    (snd (send_to_clients e ps f cs any s))"
  using assms
proof (induction cs arbitrary: any s)
  case Nil
  then show ?case by (simp add: reads_after_def after_backlog_def)
next
  case (Cons d cs)
  show ?case
  proof (cases "d \<in> set ps")
    case True
    with Cons show ?thesis by auto
  next
    case False
    let ?p = "if is_heavy f then KHeavy else KNormal"
    obtain r s1 where x: "send_frame e d (compressed_data f) ?p s = (r, s1)" by fastforce
    have 1: "reads_after e c (if d = c then [compressed_data f] else []) s s1"
    proof (cases "d = c")
      case True
      then show ?thesis
        using send_frame_self [OF Cons.prems(1), of "compressed_data f" ?p] x
        by (auto simp: reads_after_def after_backlog_def)
    next
      case False
      then show ?thesis
        using send_frame_other [OF Cons.prems(1) _ x] by (simp add: reads_after_def after_backlog_def)
    qed
    then have "served e c s1" by (simp add: reads_after_def)
    from Cons.IH [OF this] Cons.prems(2) have 2:
      "reads_after e c (if c \<in> set cs \<and> c \<notin> set ps then [compressed_data f] else []) s1
        (snd (send_to_clients e ps f cs (any \<or> forwarded r) s1))" by simp
    from reads_after_trans [OF 1 2] Cons.prems(2) x False show ?thesis
      by (auto split: if_splits)
  qed
qed

lemma send_frames_reads:
  assumes "served e c s" "\<forall>f \<in> set fs. distinct (client_ids f)" "c \<notin> set ps"
  shows "reads_after e c (map compressed_data (filter (\<lambda>f. c \<in> set (client_ids f)) fs)) s
    (snd (send_frames e ps fs tot s))"
  using assms(1,2)
proof (induction fs arbitrary: tot s)
  case Nil
  then show ?case by (simp add: reads_after_def after_backlog_def)
next
  case (Cons f fs)
  obtain any s1 where x: "send_to_clients e ps f (client_ids f) False s = (any, s1)" by fastforce
  from send_to_clients_reads [OF Cons.prems(1), of "client_ids f" ps f False] Cons.prems(2) assms(3) x
  have 1: "reads_after e c (if c \<in> set (client_ids f) then [compressed_data f] else []) s s1" by simp
  then have "served e c s1" by (simp add: reads_after_def)
  from reads_after_trans [OF 1 Cons.IH [OF this]] Cons.prems(2) x show ?case
    by (auto simp: Let_def)
qed

section \<open>Groups\<close>

text \<open>The clients of each group are those with its key, in the order of the sessions.\<close>

definition key_of :: "session_manager \<Rightarrow> string \<Rightarrow> group_key" where
  "key_of m c = group_key (get_subscriptions c m)"

definition group_members :: "session_manager \<Rightarrow> string list \<Rightarrow> string \<Rightarrow> string list" where
  "group_members m active c =
     filter (\<lambda>d. get_subscriptions d m \<noteq> [] \<and> key_of m d = key_of m c) active"

text \<open>Groups as the code keeps them: the keys in ascending order, no group empty.\<close>

definition tidy :: "(group_key \<times> string list) list \<Rightarrow> bool" where
  "tidy gs = (sorted_wrt (<) (map fst gs) \<and> list_all (\<lambda>(k, ids). ids \<noteq> []) gs)"

definition ids_of :: "(group_key \<times> string list) list \<Rightarrow> group_key \<Rightarrow> string list" where
  "ids_of gs k = (case map_of gs k of None \<Rightarrow> [] | Some ids \<Rightarrow> ids)"

lemma tidy_member:
  assumes "tidy gs"
  shows "(k, ids) \<in> set gs \<longleftrightarrow> ids = ids_of gs k \<and> ids \<noteq> []"
proof -
  have "distinct (map fst gs)" using assms by (simp add: tidy_def strict_sorted_iff)
  note iff = map_of_eq_Some_iff [OF this, of k, symmetric]
  have "map_of gs k = Some ids \<Longrightarrow> ids \<noteq> []"
    using assms by (auto simp: tidy_def list_all_iff dest: map_of_SomeD)
  then show ?thesis by (cases "map_of gs k") (auto simp: iff ids_of_def)
qed

lemma insert_group_keys: "set (map fst (insert_group k c gs)) = insert k (set (map fst gs))"
  by (induction k c gs rule: insert_group.induct) auto

lemma insert_group_tidy: "tidy gs \<Longrightarrow> tidy (insert_group k c gs)"
proof (induction k c gs rule: insert_group.induct)
  case (2 k c k' cs gs)
  then show ?case
    using insert_group_keys [of k c gs] by (fastforce simp: tidy_def)
qed (simp add: tidy_def)

lemma insert_group_ids:
  "tidy gs \<Longrightarrow> ids_of (insert_group k c gs) k' = ids_of gs k' @ (if k' = k then [c] else [])"
proof (induction k c gs rule: insert_group.induct)
  case (2 k c k0 cs gs)
  then have t: "tidy gs" "\<forall>x \<in> set (map fst gs). k0 < x" by (auto simp: tidy_def)
  then have "k < k0 \<Longrightarrow> map_of gs k = None" by (force simp: map_of_eq_None_iff)
  with 2 t show ?case by (auto simp: ids_of_def)
qed (simp add: ids_of_def)

lemma group_clients_ids:
  assumes "tidy gs"
  shows "tidy (group_clients m cs gs) \<and> ids_of (group_clients m cs gs) k =
    ids_of gs k @ filter (\<lambda>d. get_subscriptions d m \<noteq> [] \<and> key_of m d = k) cs"
  using assms
proof (induction cs arbitrary: gs)
  case (Cons c cs)
  then show ?case
    using Cons.IH [OF insert_group_tidy [OF Cons.prems], of "key_of m c" c]
      insert_group_ids [OF Cons.prems, of "key_of m c" c k]
    by (auto simp: Let_def key_of_def)
qed simp

lemma groups_member:
  "(k, ids) \<in> set (group_clients m active []) \<longleftrightarrow>
     ids = filter (\<lambda>d. get_subscriptions d m \<noteq> [] \<and> key_of m d = k) active \<and> ids \<noteq> []"
  using group_clients_ids [of "[]" m active k] tidy_member [of "group_clients m active []" k ids]
  by (simp add: tidy_def ids_of_def)

text \<open>The group of a client, and that it is in no other.\<close>

lemma group_of_client:
  assumes "c \<in> set active" "get_subscriptions c m \<noteq> []"
  shows "(key_of m c, group_members m active c) \<in> set (group_clients m active [])"
    "c \<in> set (group_members m active c)"
    "(k, ids) \<in> set (group_clients m active []) \<Longrightarrow> c \<in> set ids \<Longrightarrow> ids = group_members m active c"
  using assms by (auto simp: groups_member group_members_def filter_empty_conv)

lemma groups_apart:
  assumes "distinct active"
  shows "sorted_wrt (\<lambda>a b. set a \<inter> set b = {}) (map snd (group_clients m active []))"
    "\<forall>ids \<in> set (map snd (group_clients m active [])). distinct ids \<and> ids \<noteq> []"
proof -
  let ?gs = "group_clients m active []"
  show "\<forall>ids \<in> set (map snd ?gs). distinct ids \<and> ids \<noteq> []"
    using assms by (auto simp: groups_member)
  have "tidy ?gs" using group_clients_ids [of "[]" m active] by (simp add: tidy_def)
  then have "sorted_wrt (\<lambda>x y. fst x < fst y) ?gs" by (simp add: tidy_def sorted_wrt_map)
  then have "sorted_wrt (\<lambda>x y. set (snd x) \<inter> set (snd y) = {}) ?gs"
    by (rule sorted_wrt_mono_rel [rotated]) (auto simp: groups_member)
  then show "sorted_wrt (\<lambda>a b. set a \<inter> set b = {}) (map snd ?gs)" by (simp add: sorted_wrt_map)
qed

section \<open>The frames of all groups\<close>

lemma map_at_update: "c \<noteq> d \<Longrightarrow> map_at c (AList.update d v sent) = map_at c sent"
  by (simp add: map_at_def)

lemma propagate_other: "c \<notin> set ids \<Longrightarrow> map_at c (propagate ids rep sent) = map_at c sent"
proof -
  have "c \<notin> set cs \<Longrightarrow> map_at c (fold (\<lambda>c ts. if c \<noteq> h then AList.update c rep ts else ts) cs sent) = map_at c sent"
    for h cs
    by (induction cs arbitrary: sent) (auto simp: map_at_update)
  then show "c \<notin> set ids \<Longrightarrow> map_at c (propagate ids rep sent) = map_at c sent"
    by (simp add: propagate_def)
qed

lemma build_group_other:
  assumes "build_group z threshold messages m ids sent = (r, sent')" "c \<notin> set ids" "ids \<noteq> []"
  shows "map_at c sent' = map_at c sent"
proof -
  have "c \<noteq> hd ids" using assms(2,3) by (cases ids) auto
  with assms(1,2) show ?thesis
    by (auto simp: build_group_def Let_def propagate_other map_at_update
        split: prod.splits option.splits if_splits sum.splits)
qed

text \<open>Everything that was drained, as the clients would see it.\<close>

definition all_messages :: "(string \<times> buffered_message list) list \<Rightarrow> wire_message list" where
  "all_messages messages = concat (map (\<lambda>(t, msgs). map (wire t) msgs) messages)"

lemma due_subseq: "subseq (due_messages subs rep messages) (all_messages messages)"
  unfolding all_messages_def
proof (induction messages)
  case (Cons tm messages)
  obtain t msgs where tm: "tm = (t, msgs)" by (cases tm)
  have "subseq (case map_of subs t of None \<Rightarrow> []
      | Some rate \<Rightarrow> map (wire t) (if rate_mhz rate = 0 then msgs
          else fst (admitted (min_interval_ns (rate_mhz rate))
                      (case map_of rep t of None \<Rightarrow> 0 | Some v \<Rightarrow> v) msgs))) (map (wire t) msgs)"
    by (auto split: option.splits intro: subseq_map admitted_subseq)
  then show ?case using Cons.IH by (simp add: tm list_emb_append_mono)
qed simp

lemma fits_subseq: "fits ws \<Longrightarrow> subseq vs ws \<Longrightarrow> fits vs"
proof -
  assume f: "fits ws" and s: "subseq vs ws"
  have "length (concat (map message_bytes vs)) \<le> length (concat (map message_bytes ws))"
    using s by (induction rule: list_emb.induct) auto
  moreover have "set vs \<subseteq> set ws" using s by (auto dest: list_emb_set)
  moreover have "length vs \<le> length ws" using s by (rule list_emb_length)
  ultimately show "fits vs" using f by (auto simp: fits_def list_all_iff)
qed

text \<open>A frame as its reader sees it: the flag word and the messages.\<close>

definition parts :: "nat \<Rightarrow> wire_message list \<Rightarrow> wire_message list list" where
  "parts threshold ws =
     (let light = filter (\<lambda>w. \<not> heavy_wire threshold w) ws
      in (if light = [] then [] else [light]) @ map (\<lambda>w. [w]) (filter (heavy_wire threshold) ws))"

definition readable :: "(bytes \<Rightarrow> bytes option) \<Rightarrow> frame list \<Rightarrow> wire_message list list \<Rightarrow> bool" where
  "readable unpack fs wss = (map (decode_frame unpack) fs = map (\<lambda>ws. Some (0, ws)) wss)"

lemma build_group_reads:
  assumes "lossless z unpack" "unique_keys messages" "fits (all_messages messages)"
    and "ws = due_messages (get_subscriptions (hd ids) m) (map_at (hd ids) sent) messages"
  shows "\<exists>fs sent'. build_group z threshold messages m ids sent = (Some fs, sent') \<and>
    (\<forall>f \<in> set fs. client_ids f = ids) \<and> readable unpack (map compressed_data fs) (parts threshold ws)"
proof -
  let ?light = "filter (\<lambda>w. \<not> heavy_wire threshold w) ws"
  have "fits ws" unfolding assms(4) by (rule fits_subseq [OF assms(3) due_subseq])
  from group_frames [OF assms(1,2,4) this refl] obtain fs sent' where
    b: "build_group z threshold messages m ids sent = (Some fs, sent')"
    and h: "list_all2 (\<lambda>f (heavy, held). frame_holds unpack ids heavy f held) fs
      ((if ?light = [] then [] else [(False, ?light)]) @
       map (\<lambda>w. (True, [w])) (filter (heavy_wire threshold) ws))" by blast
  have "list_all2 (\<lambda>f (heavy, held). frame_holds unpack ids heavy f held) fs hs \<Longrightarrow>
      (\<forall>f \<in> set fs. client_ids f = ids) \<and> readable unpack (map compressed_data fs) (map snd hs)" for hs
    by (induction rule: list_all2_induct) (auto simp: readable_def frame_holds_def)
  from this [OF h] b show ?thesis
    by (auto simp: parts_def comp_def Let_def split: if_splits)
qed

text \<open>The frames for one client among those of all groups.\<close>

lemma build_frames_reads:
  assumes "lossless z unpack" "unique_keys messages" "fits (all_messages messages)"
    and "sorted_wrt (\<lambda>a b. set a \<inter> set b = {}) idss" "\<forall>ids \<in> set idss. ids \<noteq> []"
  shows "\<exists>fs sent'. build_frames z threshold messages m idss sent = (Some fs, sent') \<and>
    (\<forall>f \<in> set fs. client_ids f \<in> set idss) \<and>
    (\<forall>ids \<in> set idss. \<forall>c \<in> set ids.
       readable unpack (map compressed_data (filter (\<lambda>f. c \<in> set (client_ids f)) fs))
         (parts threshold (due_messages (get_subscriptions (hd ids) m) (map_at (hd ids) sent) messages)))"
  using assms(4,5)
proof (induction idss arbitrary: sent)
  case Nil
  then show ?case by simp
next
  case (Cons ids idss)
  let ?due = "\<lambda>ids sent. due_messages (get_subscriptions (hd ids) m) (map_at (hd ids) sent) messages"
  obtain fs sent1 where 1: "build_group z threshold messages m ids sent = (Some fs, sent1)"
      "\<forall>f \<in> set fs. client_ids f = ids" "readable unpack (map compressed_data fs) (parts threshold (?due ids sent))"
    using build_group_reads [OF assms(1-3) refl] by blast
  obtain gs sent2 where 2: "build_frames z threshold messages m idss sent1 = (Some gs, sent2)"
      "\<forall>f \<in> set gs. client_ids f \<in> set idss"
      "\<forall>ids \<in> set idss. \<forall>c \<in> set ids.
         readable unpack (map compressed_data (filter (\<lambda>f. c \<in> set (client_ids f)) gs))
           (parts threshold (?due ids sent1))"
    using Cons.IH [of sent1] Cons.prems by auto
  have apart: "set ids \<inter> set ids' = {}" if "ids' \<in> set idss" for ids'
    using Cons.prems(1) that by simp
  have own: "filter (\<lambda>f. c \<in> set (client_ids f)) (fs @ gs) = fs" if "c \<in> set ids" for c
  proof -
    have "filter (\<lambda>f. c \<in> set (client_ids f)) gs = []"
      using 2(2) apart that by (fastforce simp: filter_empty_conv)
    moreover have "filter (\<lambda>f. c \<in> set (client_ids f)) fs = fs" using 1(2) that by (simp add: filter_id_conv)
    ultimately show ?thesis by simp
  qed
  have other: "filter (\<lambda>f. c \<in> set (client_ids f)) (fs @ gs) = filter (\<lambda>f. c \<in> set (client_ids f)) gs"
      "?due ids' sent1 = ?due ids' sent" if "ids' \<in> set idss" "c \<in> set ids'" for c ids'
  proof -
    show "filter (\<lambda>f. c \<in> set (client_ids f)) (fs @ gs) = filter (\<lambda>f. c \<in> set (client_ids f)) gs"
      using 1(2) apart [OF that(1)] that(2) by (auto simp: filter_empty_conv)
    have "hd ids' \<in> set ids'" using Cons.prems(2) that(1) by simp
    then have "hd ids' \<notin> set ids" using apart [OF that(1)] by blast
    then show "?due ids' sent1 = ?due ids' sent"
      using build_group_other [OF 1(1)] Cons.prems(2) by simp
  qed
  have "\<forall>ids' \<in> set (ids # idss). \<forall>c \<in> set ids'.
      readable unpack (map compressed_data (filter (\<lambda>f. c \<in> set (client_ids f)) (fs @ gs)))
        (parts threshold (?due ids' sent))"
    using own other 1(3) 2(3) by (auto simp del: filter_append)
  then show ?case using 1(1,2) 2(1,2) by (auto simp del: filter_append)
qed

section \<open>One publish cycle\<close>

text \<open>Clients of one group are due the same messages.\<close>

lemma group_key_rates:
  assumes "unique_keys subs" "unique_keys subs'" "group_key subs = group_key subs'"
  shows "map_option rate_mhz (map_of subs t) = map_option rate_mhz (map_of subs' t)"
proof -
  let ?mhz = "map (\<lambda>(t, r). (t, rate_mhz r))"
  have "set (sort (?mhz subs)) = set (sort (?mhz subs'))" using assms(3) by (simp add: group_key_def)
  then have "set (?mhz subs) = set (?mhz subs')" by simp
  moreover have "unique_keys (?mhz subs)" "unique_keys (?mhz subs')" using assms(1,2) by simp_all
  ultimately have "map_of (?mhz subs) = map_of (?mhz subs')" by (metis map_of_inject_set)
  then show ?thesis using map_of_map_values [of rate_mhz] by metis
qed

lemma due_messages_same_rates:
  assumes "\<And>t. map_option rate_mhz (map_of subs t) = map_option rate_mhz (map_of subs' t)"
  shows "due_messages subs rep messages = due_messages subs' rep messages"
proof (induction messages)
  case (Cons tm messages)
  obtain t msgs where tm: "tm = (t, msgs)" by (cases tm)
  show ?case
    using Cons.IH assms [of t] by (cases "map_of subs t"; cases "map_of subs' t") (simp_all add: tm)
qed simp

lemma due_messages_none: "due_messages [] rep messages = []"
  by (induction messages) auto

lemma publish_reads:
  assumes "initialized s" "sessions_wf (sess s)" "served e c s" "gone_before_lock e = []"
    and "topic_buffers (buf s) \<noteq> []" "get_active_sessions (order e) (sess s) \<noteq> []"
    and "build_frames (zstd e) (heavy_frame_threshold_bytes s) (entries (order e) (topic_buffers (buf s))) (sess s)
           (map snd (group_clients (sess s) (get_active_sessions (order e) (sess s)) [])) (last_sent_times s) = (Some fs, sent)"
    and "\<forall>f \<in> set fs. client_ids f \<in> set (map snd (group_clients (sess s) (get_active_sessions (order e) (sess s)) []))"
    and "\<not> is_paused c (sess s)"
  shows "reads_after e c (map compressed_data (filter (\<lambda>f. c \<in> set (client_ids f)) fs)) s
    (publish_aggregated_messages e s)"
proof -
  let ?active = "get_active_sessions (order e) (sess s)"
  let ?groups = "group_clients (sess s) ?active []"
  let ?s1 = "s\<lparr>buf := snd (move_messages (buf s))\<rparr>"
  let ?ps = "filter (\<lambda>c. is_paused c (sess s)) (concat (map snd ?groups))"
  let ?s2 = "?s1\<lparr>last_sent_times := sent\<rparr>"
  obtain tot s3 where x: "send_frames e ?ps fs no_totals ?s2 = (tot, s3)" by fastforce
  have p: "publish_aggregated_messages e s = add_stats tot s3"
    using assms(1,4-7) x
    by (simp add: publish_aggregated_messages_def move_messages_def lock_cleanup_def Let_def)
  have "served e c ?s2" using assms(3) by (simp add: served_def)
  moreover have "\<forall>f \<in> set fs. distinct (client_ids f)"
    using assms(8) groups_apart(2) [OF distinct_active_sessions [OF assms(2)], of "sess s" "order e"] by blast
  moreover have "c \<notin> set ?ps" using assms(9) by simp
  ultimately have "reads_after e c (map compressed_data (filter (\<lambda>f. c \<in> set (client_ids f)) fs)) ?s2 s3"
    using send_frames_reads [of e c ?s2 fs ?ps no_totals] x by simp
  moreover have "mw (add_stats tot s3) = mw s3" by (simp add: add_stats_def)
  ultimately show ?thesis by (simp add: p reads_after_def served_def)
qed

lemma publish_reaches:
  assumes "initialized s" and "sessions_wf (sess s)" and "buffer_wf (buf s)" and "mw_wf (mw s)"
    and "c \<in> set (clients (mw s))" and "healthy (network e) (socket_buffer_watermark (mw s)) c"
    and "\<not> is_paused c (sess s)" and "gone_before_lock e = []"
    and "lossless (zstd e) unpack" and "fits (all_messages messages)"
    and "messages = entries (order e) (topic_buffers (buf s))"
    and "front = hd (group_members (sess s) (get_active_sessions (order e) (sess s)) c)"
  shows "\<exists>fs. readable unpack fs (parts (heavy_frame_threshold_bytes s)
      (due_messages (get_subscriptions c (sess s)) (map_at front (last_sent_times s)) messages)) \<and>
    wire_of (mw (publish_aggregated_messages e s)) c =
      wire_of (mw s) c @ after_backlog (backlog_of (mw s) c) fs"
proof -
  let ?m = "sess s" and ?e = "publish_aggregated_messages e s"
  let ?active = "get_active_sessions (order e) ?m"
  let ?groups = "group_clients ?m ?active []"
  let ?due = "due_messages (get_subscriptions c ?m) (map_at front (last_sent_times s)) messages"
  have served: "served e c s" using assms(4-6) by (simp add: served_def)
  have u: "unique_keys messages" using assms(3) by (simp add: assms(11) buffer_wf_def distinct_entries)
  have "distinct ?active" using assms(2) by (rule distinct_active_sessions)
  note apart = groups_apart [OF this, of ?m]
  obtain fs sent where b: "build_frames (zstd e) (heavy_frame_threshold_bytes s) messages ?m (map snd ?groups)
        (last_sent_times s) = (Some fs, sent)"
      "\<forall>f \<in> set fs. client_ids f \<in> set (map snd ?groups)"
      "\<forall>ids \<in> set (map snd ?groups). \<forall>c \<in> set ids.
         readable unpack (map compressed_data (filter (\<lambda>f. c \<in> set (client_ids f)) fs))
           (parts (heavy_frame_threshold_bytes s)
              (due_messages (get_subscriptions (hd ids) ?m) (map_at (hd ids) (last_sent_times s)) messages))"
    using build_frames_reads [OF assms(9) u assms(10) apart(1)] apart(2) by blast
  consider (silent) "topic_buffers (buf s) = [] \<or> ?active = []"
    | (idle) "topic_buffers (buf s) \<noteq> []" "?active \<noteq> []" "get_subscriptions c ?m = []"
    | (busy) "topic_buffers (buf s) \<noteq> []" "?active \<noteq> []" "get_subscriptions c ?m \<noteq> []"
    by blast
  then show ?thesis
  proof cases
    case silent
    have "?active = [] \<Longrightarrow> get_subscriptions c ?m = []"
      using set_active_sessions [of "order e" ?m] by (auto intro: no_session_no_subscription)
    with silent have "?due = []" by (elim disjE) (simp_all add: assms(11) due_messages_none)
    moreover have "mw ?e = mw s"
      using silent assms(1) by (auto simp: publish_aggregated_messages_def move_messages_def Let_def)
    ultimately show ?thesis
      by (intro exI [of _ "[]"]) (simp add: readable_def parts_def after_backlog_def)
  next
    case idle
    have "c \<notin> set ids" if "ids \<in> set (map snd ?groups)" for ids
      using that idle(3) by (auto simp: groups_member)
    then have "filter (\<lambda>f. c \<in> set (client_ids f)) fs = []" using b(2) by (auto simp: filter_empty_conv)
    moreover have "reads_after e c (map compressed_data (filter (\<lambda>f. c \<in> set (client_ids f)) fs)) s ?e"
      using publish_reads [OF assms(1,2) served assms(8) idle(1,2) _ _ assms(7)] b by (simp add: assms(11))
    ultimately show ?thesis
      using idle(3)
      by (intro exI [of _ "[]"]) (simp add: readable_def parts_def after_backlog_def reads_after_def due_messages_none)
  next
    case busy
    let ?ids = "group_members ?m ?active c"
    have "session_exists c ?m" using busy(3) no_session_no_subscription by blast
    then have c: "c \<in> set ?active" by (simp add: set_active_sessions)
    note g = group_of_client(1,2) [OF c busy(3)]
    have front: "front \<in> set ?ids" using g(2) assms(12) by (auto intro: hd_in_set)
    then have "group_key (get_subscriptions front ?m) = group_key (get_subscriptions c ?m)"
      by (simp add: group_members_def key_of_def)
    from due_messages_same_rates [OF group_key_rates [OF _ _ this]]
    have due: "due_messages (get_subscriptions front ?m) (map_at front (last_sent_times s)) messages = ?due"
      using assms(2) by simp
    let ?fs = "map compressed_data (filter (\<lambda>f. c \<in> set (client_ids f)) fs)"
    have "?ids \<in> set (map snd ?groups)" using g(1) by force
    with b(3) g(2) due have "readable unpack ?fs (parts (heavy_frame_threshold_bytes s) ?due)"
      by (auto simp: assms(12))
    moreover have "reads_after e c ?fs s ?e"
      using publish_reads [OF assms(1,2) served assms(8) busy(1,2) _ _ assms(7)] b by (simp add: assms(11))
    ultimately show ?thesis by (intro exI [of _ ?fs]) (simp add: reads_after_def)
  qed
qed

text \<open>
  C3. From the buffer to the wire. Take a client that is not paused, whose socket is neither
  congested nor failing, in a cycle during which no disconnect takes effect before the rate
  state is locked. What its socket accepts in one publish cycle is first its backlog, if there
  is anything to send, and then frames that decode to exactly the buffered messages of its
  topics that its rates admit: those below the threshold, in order, in one frame, each of the
  others in a frame of its own. The rate state is that of the first active client with the
  same topics and rates.
\<close>

theorem publish_delivers:
  assumes "initialized s" and "sessions_wf (sess s)" and "buffer_wf (buf s)" and "mw_wf (mw s)"
    and "c \<in> set (clients (mw s))" and "healthy (network e) (socket_buffer_watermark (mw s)) c"
    and "\<not> is_paused c (sess s)" and "gone_before_lock e = []"
    and "lossless (zstd e) unpack" and "fits (all_messages messages)"
    and "messages = entries (order e) (topic_buffers (buf s))"
    and "front = hd (group_members (sess s) (get_active_sessions (order e) (sess s)) c)"
  shows "\<exists>fs. readable unpack fs (parts (heavy_frame_threshold_bytes s)
      (due_messages (get_subscriptions c (sess s)) (map_at front (last_sent_times s)) messages)) \<and>
    wire_of (mw (publish_aggregated_messages e s)) c =
      wire_of (mw s) c @ after_backlog (backlog_of (mw s) c) fs"
  by (rule publish_reaches [OF assms])

text \<open>The sample client has subscribed and one message has come in since.\<close>

definition sample_fed :: "(ros2_manager, unit) server" where
  "sample_fed = on_ingest 1 2 ''/a'' 7 [9] sample_ros_server"

lemma sample_fed_state:
  "sess sample_fed = \<lparr>sessions = [(''c'', sample_session False)], timeout_duration = 10\<rparr>"
  "mw sample_fed = sample_mw [Text_Sent ''c'' (string_bytes ''r'') True]"
  "topic_buffers (buf sample_fed) = [(''/a'', [\<lparr>timestamp_ns = 7, received_at_ns = 2, payload = [9]\<rparr>])]"
  "initialized sample_fed" "last_sent_times sample_fed = []" "heavy_frame_threshold_bytes sample_fed = 8"
  by (simp_all add: sample_fed_def on_ingest_def sample_ros_state add_message_def push_back_def
      cleanup_old_messages_def set_latched_def new_message_buffer_def buffered_def Let_def)
    (simp add: sample_state_def)

lemma sample_fed_wf: "sessions_wf (sess sample_fed)" "buffer_wf (buf sample_fed)" "mw_wf (mw sample_fed)"
proof -
  show "sessions_wf (sess sample_fed)" "buffer_wf (buf sample_fed)" "mw_wf (mw sample_fed)"
    using ros2_reachable(5,6) [OF sample_ros_reachable]
    by (simp_all add: sample_fed_def on_ingest_def add_message_wf sample_ros_state)
      (simp add: mw_wf_def sample_mw_def kMaxIncomingQueueSize_def)
qed

theorem publish_delivers_witness:
  "\<exists>f. decode_frame Some f = Some (0, [(''/a'', 7, [9])]) \<and>
     wire_of (mw (publish_aggregated_messages sample_ros_env sample_fed)) ''c'' = [f]"
proof -
  let ?messages = "[(''/a'', [\<lparr>timestamp_ns = 7, received_at_ns = 2, payload = [9]\<rparr>])] :: (string \<times> buffered_message list) list"
  have c: "''c'' \<in> set (clients (mw sample_fed))" "\<not> is_paused ''c'' (sess sample_fed)"
    "healthy (network sample_ros_env) (socket_buffer_watermark (mw sample_fed)) ''c''"
    by (simp_all add: sample_fed_state sample_mw_def is_paused_def sample_session_def healthy_def calm_network_def)
  have z: "lossless (zstd sample_ros_env) Some" by (simp add: lossless_def)
  have m: "?messages = entries (order sample_ros_env) (topic_buffers (buf sample_fed))"
    by (simp add: sample_fed_state entries_insertion)
  have f: "fits (all_messages ?messages)"
    by (simp add: fits_def all_messages_def wire_def well_sized_def message_bytes_split unsigned_of_nat)
  have g: "gone_before_lock sample_ros_env = []" by simp
  from publish_delivers [OF sample_fed_state(4) sample_fed_wf c(1,3,2) g z f m refl] show ?thesis
    by (auto simp: sample_fed_state get_subscriptions_def sample_session_def wire_def rate_mhz_def
        parts_def heavy_wire_def readable_def after_backlog_def backlog_of_def wire_of_def sample_mw_def Let_def)
qed

section \<open>Who gets nothing\<close>

lemma send_frame_wire_other:
  assumes "c' \<noteq> c"
  shows "wire_of (mw (snd (send_frame e c' f p s))) c = wire_of (mw s) c"
proof -
  obtain r m where b: "send_binary (network e) (steady_now e) c' f p (mw s) = (r, m)" by fastforce
  have "preserved_by (client_callables (network e) c') (\<lambda>m. wire_of m c = wire_of (mw s) c)"
    using assms
    by (auto simp: preserved_by_def client_callables_def Let_def wire_of_observe case_prod_beta
        split: option.splits) (auto simp: wire_of_def)
  from send_binary_preserves [OF b refl this] have "wire_of m c = wire_of (mw s) c"
    by (simp add: drop_warning_def Let_def wire_of_observe) (simp add: wire_of_def mw_simps)
  then show ?thesis by (simp add: send_frame_def b wire_of_def after_socket_net)
qed

lemma send_to_clients_wire_other:
  "c \<notin> set cs \<or> c \<in> set ps \<Longrightarrow>
     wire_of (mw (snd (send_to_clients e ps f cs any s))) c = wire_of (mw s) c"
proof (induction cs arbitrary: any s)
  case (Cons d cs)
  then show ?case
    by (cases "d = c") (auto simp: Let_def case_prod_beta send_frame_wire_other)
qed simp

lemma send_frames_wire_other:
  "\<forall>f \<in> set fs. c \<notin> set (client_ids f) \<or> c \<in> set ps \<Longrightarrow>
     wire_of (mw (snd (send_frames e ps fs tot s))) c = wire_of (mw s) c"
proof (induction fs arbitrary: tot s)
  case (Cons f fs)
  then show ?case
    using send_to_clients_wire_other [of c "client_ids f" ps e f False s]
    by (simp add: case_prod_beta Let_def)
qed simp

definition carries :: "string list \<Rightarrow> group_frame list \<Rightarrow> bool" where
  "carries ids fs = (\<forall>f \<in> set fs. client_ids f = ids)"

lemma route_message_ids:
  "route_message z threshold ids t msg g = Some g' \<Longrightarrow> carries ids (heavy_frames g) \<Longrightarrow> carries ids (heavy_frames g')"
  by (auto simp: route_message_def carries_def split: if_splits sum.splits)

lemma route_all_ids:
  "route_all z threshold ids t msgs g = Some g' \<Longrightarrow> carries ids (heavy_frames g) \<Longrightarrow> carries ids (heavy_frames g')"
  by (induction msgs arbitrary: g) (auto simp: bind_eq_Some_conv dest: route_message_ids)

lemma route_topics_ids:
  "route_topics z threshold ids subs messages rep g = (Some g', rep') \<Longrightarrow> carries ids (heavy_frames g) \<Longrightarrow>
     carries ids (heavy_frames g')"
proof (induction messages arbitrary: rep g)
  case (Cons tm messages)
  obtain t msgs where tm: "tm = (t, msgs)" by (cases tm)
  from Cons show ?case
    by (auto simp: tm Let_def case_prod_beta split: option.splits if_splits dest: route_all_ids)
qed simp

lemma build_group_ids:
  assumes "build_group z threshold messages m ids sent = (Some fs, sent')"
  shows "carries ids fs"
proof -
  obtain r rep where t: "route_topics z threshold ids (get_subscriptions (hd ids) m) messages
      (map_at (hd ids) sent) new_group_state = (r, rep)" by fastforce
  have "carries ids (heavy_frames new_group_state)" by (simp add: carries_def new_group_state_def)
  with route_topics_ids t have "r = Some g \<Longrightarrow> carries ids (heavy_frames g)" for g by blast
  with assms t show ?thesis
    by (auto simp: build_group_def carries_def Let_def split: option.splits if_splits sum.splits)
qed

lemma build_frames_ids:
  assumes "build_frames z threshold messages m idss sent = (Some fs, sent')"
  shows "\<forall>f \<in> set fs. client_ids f \<in> set idss"
  using assms
proof (induction idss arbitrary: sent fs sent')
  case (Cons ids idss)
  obtain gs hs sent1 where "build_group z threshold messages m ids sent = (Some gs, sent1)"
      "build_frames z threshold messages m idss sent1 = (Some hs, sent')" "fs = gs @ hs"
    using Cons.prems by (auto split: prod.splits option.splits)
  with Cons.IH build_group_ids show ?case by (fastforce simp: carries_def)
qed simp

text \<open>
  C14. Who gets nothing. A publish cycle puts no frame at all, not even one of its backlog, on
  the socket of a client that is paused or has no subscription, whatever the network does and
  whoever disconnects meanwhile.
\<close>

theorem publish_skips:
  assumes "is_paused c (sess s) \<or> get_subscriptions c (sess s) = []"
  shows "wire_of (mw (publish_aggregated_messages e s)) c = wire_of (mw s) c"
proof -
  let ?active = "get_active_sessions (order e) (sess s)"
  let ?groups = "group_clients (sess s) ?active []"
  let ?ps = "filter (\<lambda>c. is_paused c (sess s)) (concat (map snd ?groups))"
  let ?s2 = "lock_cleanup e (s\<lparr>buf := snd (move_messages (buf s))\<rparr>)"
  have quiet: "wire_of (mw ?s2) c = wire_of (mw s) c"
    using net_frame.lock_cleanup_f [of e "s\<lparr>buf := snd (move_messages (buf s))\<rparr>"] by (simp add: wire_of_def)
  have out: "c \<notin> set ids \<or> c \<in> set ?ps" if "ids \<in> set (map snd ?groups)" for ids
    using assms that by (auto simp: groups_member)
  have sends: "wire_of (mw (snd (send_frames e ?ps fs tot (?s2\<lparr>last_sent_times := sent\<rparr>)))) c = wire_of (mw s) c"
    if b: "fst (build_frames z n messages (sess s) (map snd ?groups) x) = Some fs" for z n messages x fs tot sent
  proof -
    obtain sent' where "build_frames z n messages (sess s) (map snd ?groups) x = (Some fs, sent')"
      using b by (metis prod.collapse)
    from build_frames_ids [OF this] out have "\<forall>f \<in> set fs. c \<notin> set (client_ids f) \<or> c \<in> set ?ps" by blast
    from send_frames_wire_other [OF this, of e tot "?s2\<lparr>last_sent_times := sent\<rparr>"] quiet
    show ?thesis by simp
  qed
  have stats: "mw (add_stats tot x) = mw x" for tot x by (simp add: add_stats_def)
  show ?thesis
    using quiet sends
    by (simp add: publish_aggregated_messages_def move_messages_def Let_def stats case_prod_beta
        split: option.splits prod.splits)
qed

text \<open>The sample client pauses; a message that had come in before is not sent to it.\<close>

theorem publish_skips_witness:
  "let s = sample_fed\<lparr>sess := fst (set_paused ''c'' True (sess sample_fed))\<rparr>
   in topic_buffers (buf s) \<noteq> [] \<and> wire_of (mw (publish_aggregated_messages sample_ros_env s)) ''c'' = []"
proof -
  let ?s = "sample_fed\<lparr>sess := fst (set_paused ''c'' True (sess sample_fed))\<rparr>"
  have p: "is_paused ''c'' (sess ?s) \<or> get_subscriptions ''c'' (sess ?s) = []"
    by (simp add: sample_fed_state set_paused_def with_session_def is_paused_def)
  have "wire_of (mw ?s) ''c'' = []" by (simp add: sample_fed_state wire_of_def sample_mw_def)
  with publish_skips [OF p, of sample_ros_env] show ?thesis by (simp add: sample_fed_state)
qed

end
