(* ===== verification/Confinement.thy ===== *)
theory Confinement
  imports Server_Properties Delivery
begin

text \<open>
  The whitelist confines the clients: whatever they ask and however the calls interleave, only
  topics that the whitelist admits are ever subscribed to or delivered. This needs nothing of
  the backend, only that the regular expressions mean the same at all times.
\<close>

section \<open>Properties of the sessions\<close>

text \<open>
  A property of the sessions that the session operations keep, where a topic may be added only
  if it is allowed: then every call of the server keeps it, if the whitelist only admits
  allowed topics.
\<close>

locale session_property =
  fixes Q :: "session_manager \<Rightarrow> bool" and allowed :: "string \<Rightarrow> bool"
  assumes Q_heartbeat: "Q m \<Longrightarrow> Q (fst (update_heartbeat now c m))"
    and Q_create: "Q m \<Longrightarrow> Q (fst (create_session now c m))"
    and Q_ref: "Q m \<Longrightarrow> Q (fst (set_ref_held c t b m))"
    and Q_paused: "Q m \<Longrightarrow> Q (fst (set_paused c b m))"
    and Q_updates: "Q m \<Longrightarrow> Q (fst (set_topic_updates c b m))"
    and Q_schemas: "Q m \<Longrightarrow> Q (fst (set_include_schemas_in_updates c b m))"
    and Q_unsubscribe: "Q m \<Longrightarrow> Q (fst (remove_subscription c t m))"
    and Q_remove: "Q m \<Longrightarrow> Q (fst (remove_session c m))"
    and Q_add: "Q m \<Longrightarrow> allowed t \<Longrightarrow> Q (fst (add_subscription c t r m))"
    and Q_subscribed: "Q m \<Longrightarrow> map_of (get_subscriptions c m) t \<noteq> None \<Longrightarrow> allowed t"
    and Q_new: "Q (new_session_manager n)"
begin

lemmas Q_laws = Q_heartbeat Q_create Q_ref Q_paused Q_updates Q_schemas Q_unsubscribe Q_remove

abbreviation holds :: "('b, 're) server \<Rightarrow> bool" where
  "holds s \<equiv> Q (sess s)"

lemma fold_holds: "holds s \<Longrightarrow> (\<And>x s. holds s \<Longrightarrow> holds (f x s)) \<Longrightarrow> holds (fold f xs s)"
  by (induction xs arbitrary: s) auto

lemma cleanup_holds: "holds s \<Longrightarrow> holds (cleanup_session e c s)"
  by (simp add: frame_simps Q_remove)

lemma closed_holds: "holds s \<Longrightarrow> holds (client_closed e c s)"
  using client_closed_sess [of e c s] Q_remove [of "sess s" c] by auto

lemma lock_holds: "holds s \<Longrightarrow> holds (lock_cleanup e s)"
  unfolding lock_cleanup_def by (rule fold_holds) (auto intro: closed_holds)

lemma touch_holds: "holds s \<Longrightarrow> holds (touch_session e c s)"
  by (simp add: touch_session_def Let_def Q_heartbeat Q_create)

lemma socket_holds: "holds s \<Longrightarrow> holds (after_socket_call e m s)"
  unfolding after_socket_call_def Let_def by (auto intro!: fold_holds cleanup_holds)

lemma sends_hold:
  "holds s \<Longrightarrow> holds (snd (reply_to e c d s))" "holds s \<Longrightarrow> holds (snd (send_frame e c f p s))"
  by (simp_all add: reply_to_def send_frame_def case_prod_beta socket_holds)

lemma unsubscribe_loop_holds: "holds s \<Longrightarrow> holds (snd (unsubscribe_loop e c held js current removed s))"
  by (induction js arbitrary: current removed s)
    (auto simp: Let_def frame_simps Q_unsubscribe split: option.splits)

lemma release_held_holds: "holds s \<Longrightarrow> holds (release_held e c ts s)"
  by (induction ts arbitrary: s) (simp_all add: Let_def frame_simps Q_ref)

lemma collect_sess: "collect_latched_replay e c t x = (r, y) \<Longrightarrow> sess y = sess x"
  using collect_frame(1) [of e c t x] by simp

lemma reacquire_loop_holds: "holds s \<Longrightarrow> holds (snd (reacquire_loop e c held types ts failed s))"
proof (induction ts arbitrary: failed s)
  case (Cons t ts)
  then show ?case by (auto simp: Let_def Q_ref split: option.splits prod.splits dest!: collect_sess)
qed simp

lemma acquire_loop_holds:
  "holds s \<Longrightarrow> \<forall>t \<in> set (map fst xs). allowed t \<Longrightarrow>
     holds (snd (acquire_loop e c p requested xs schemas failures s))"
proof (induction xs arbitrary: schemas failures s)
  case (Cons x xs)
  obtain t ty schema where x: "x = (t, ty, schema)" by (cases x)
  have add: "add_subscription c t r m = (m', ok) \<Longrightarrow> Q m \<Longrightarrow> Q m'" for r m m' ok
    using Q_add [of m t c r] Cons.prems(2) by (simp add: x)
  from Cons show ?case
    by (auto simp: x Let_def frame_simps Q_ref split: option.splits prod.splits if_splits
        dest!: collect_sess dest: add)
qed simp

lemma update_rates_holds:
  "Q m \<Longrightarrow> \<forall>t. map_of current t \<noteq> None \<longrightarrow> allowed t \<Longrightarrow> Q (update_rates c current rs m)"
  by (induction rs arbitrary: m) (auto simp: Q_add split: option.splits)

section \<open>The requests\<close>

lemma validated_whitelisted:
  "t \<in> set (map fst (fst (validate_topics e w types ts))) \<Longrightarrow> matches (regex_match e) w t"
  by (induction ts)
    (auto simp: Let_def case_prod_beta validate_topic_def split: sum.splits if_splits option.splits)

definition admits_allowed :: "('b, 're) env \<Rightarrow> ('b, 're) server \<Rightarrow> bool" where
  "admits_allowed e s = (\<forall>t. matches (regex_match e) (whitelist s) t \<longrightarrow> allowed t)"

lemma handle_subscribe_holds:
  assumes "holds s" "admits_allowed e s"
  shows "holds (snd (handle_subscribe e c req s))"
proof -
  let ?s = "touch_session e c s"
  have t: "holds ?s" using assms(1) by (rule touch_holds)
  have w: "whitelist ?s = whitelist s" by (simp add: touch_session_def Let_def)
  have current: "\<forall>t. map_of (get_subscriptions c (sess ?s)) t \<noteq> None \<longrightarrow> allowed t"
    using Q_subscribed [OF t] by blast
  have new: "\<forall>t \<in> set (map fst (fst (validate_topics e (whitelist s) types ts))). allowed t" for types ts
    using validated_whitelisted assms(2) unfolding admits_allowed_def by blast
  have loop: "holds (snd (acquire_loop e c p requested (fst (validate_topics e (whitelist s) types ts)) schemas failures
      (lock_cleanup e ?s)))" for p requested types ts schemas failures
    by (rule acquire_loop_holds [OF lock_holds [OF t] new])
  show ?thesis
  proof (cases "Option.bind (jfind req ''topics'') jarray")
    case None
    then have "snd (handle_subscribe e c req s) = ?s"
      by (auto simp: handle_subscribe_def Let_def bind_eq_None_conv split: option.splits)
    with t show ?thesis by simp
  next
    case (Some items)
    then obtain topics_json where "jfind req ''topics'' = Some topics_json" "jarray topics_json = Some items"
      by (auto simp: bind_eq_Some_conv)
    with loop update_rates_holds [OF _ current] show ?thesis
      by (auto simp: handle_subscribe_def Let_def case_prod_beta w split: sum.splits prod.splits)
  qed
qed

lemma handle_resume_holds:
  assumes "holds s"
  shows "holds (snd (handle_resume e c req s))"
proof -
  let ?s1 = "lock_cleanup e (touch_session e c s)"
  have l: "holds ?s1" using assms by (intro lock_holds touch_holds)
  then have "holds (?s1\<lparr>sess := fst (set_paused c False (sess ?s1))\<rparr>)" by (simp add: Q_paused)
  note loop = reacquire_loop_holds [OF this]
  show ?thesis
    using l loop by (auto simp: handle_resume_def Let_def case_prod_beta split: sum.splits prod.splits)
qed

lemma dispatch_holds:
  assumes "holds s" "admits_allowed e s"
  shows "holds (snd (dispatch e c req s))"
proof -
  note t = touch_holds [OF assms(1), of e c]
  note l = lock_holds [OF t, of e]
  have pause: "holds (snd (handle_pause e c req s))"
    using l by (auto simp: handle_pause_def Let_def intro!: release_held_holds Q_paused)
  have unsubscribe: "holds (snd (handle_unsubscribe e c req s))"
    using t l by (auto simp: handle_unsubscribe_def Let_def case_prod_beta unsubscribe_loop_holds split: option.splits)
  show ?thesis
    using t handle_subscribe_holds [OF assms] handle_resume_holds [OF assms(1)] pause unsubscribe assms(1)
    by (simp add: dispatch_def handle_get_topics_def handle_heartbeat_def handle_subscribe_topic_updates_def
        handle_unsubscribe_topic_updates_def Let_def Q_updates Q_schemas split: option.splits)
qed

lemma handle_request_holds:
  "holds s \<Longrightarrow> admits_allowed e s \<Longrightarrow> holds (snd (handle_request e c d s))"
  using dispatch_holds
  by (auto simp: handle_request_def Let_def case_prod_beta split: option.splits sum.splits exn.splits)

lemma send_replays_holds: "holds s \<Longrightarrow> holds (send_replays e c fs s)"
  by (induction fs arbitrary: s) (simp_all add: sends_hold)

lemma process_single_holds:
  assumes "holds s" "admits_allowed e s"
  shows "holds (snd (process_single_request e d c s))"
proof -
  obtain r s1 where h: "handle_request e c d s = (r, s1)" by fastforce
  with handle_request_holds [OF assms, of c d] have 1: "holds s1" by simp
  show ?thesis
  proof (cases r)
    case None
    with assms(1) h 1 show ?thesis by (simp add: process_single_request_def)
  next
    case (Some response)
    have "holds (snd (reply_to e c (string_bytes response) s1))" using 1 by (rule sends_hold)
    with Some assms(1) h show ?thesis
      by (simp add: process_single_request_def Let_def case_prod_beta cleanup_holds send_replays_holds)
  qed
qed

lemma admits_config: "config_of s' = config_of s \<Longrightarrow> admits_allowed e s \<Longrightarrow> admits_allowed e s'"
  by (simp add: admits_allowed_def config_of_def)

lemma request_loop_holds:
  assumes "holds s" "\<forall>i. admits_allowed (envs i) s"
  shows "holds (snd (request_loop n envs any s))"
  using assms
proof (induction n arbitrary: envs any s)
  case (Suc n)
  obtain req m where r: "receive_request (mw s) = (req, m)" by fastforce
  show ?case
  proof (cases "case req of None \<Rightarrow> True | Some (c, d) \<Rightarrow> d = []")
    case True
    with Suc.prems r show ?thesis by (auto split: option.splits)
  next
    case False
    then obtain c d where req: "req = Some (c, d)" "d \<noteq> []" by (auto split: option.splits)
    obtain x s1 where p: "process_single_request (envs 0) d c (s\<lparr>mw := m\<rparr>) = (x, s1)" by fastforce
    have "config_of s1 = config_of (s\<lparr>mw := m\<rparr>)"
      using process_single_config [of "envs 0" d c "s\<lparr>mw := m\<rparr>"] p by simp
    then have same: "config_of s1 = config_of s" by (simp add: config_of_def)
    have "holds s1"
      using process_single_holds [of "s\<lparr>mw := m\<rparr>" "envs 0" d c] Suc.prems p by (simp add: admits_allowed_def)
    moreover have "\<forall>i. admits_allowed (envs (Suc i)) s1" using Suc.prems(2) admits_config [OF same] by blast
    ultimately show ?thesis
      using Suc.IH [of s1 "\<lambda>i. envs (Suc i)" True] r req p by (cases x) simp_all
  qed
qed simp

section \<open>The event loop\<close>

lemma timeouts_hold: "holds s \<Longrightarrow> holds (check_session_timeouts e s)"
  unfolding check_session_timeouts_def by (auto intro!: fold_holds cleanup_holds)

lemma notify_holds: "holds s \<Longrightarrow> holds (snd (notify_clients e cs plain ws cache s))"
  by (induction e cs plain ws cache s rule: notify_clients.induct) (auto simp: sends_hold split: option.splits)

lemma topic_changes_hold: "holds s \<Longrightarrow> holds (snd (check_topic_changes e s))"
  by (auto simp: check_topic_changes_def Let_def notify_holds split: option.splits)

lemma send_to_clients_holds: "holds s \<Longrightarrow> holds (snd (send_to_clients e ps f cs any s))"
  by (induction cs arbitrary: any s) (simp_all add: case_prod_beta Let_def sends_hold)

lemma send_frames_hold: "holds s \<Longrightarrow> holds (snd (send_frames e ps fs tot s))"
  by (induction fs arbitrary: tot s) (simp_all add: case_prod_beta Let_def send_to_clients_holds)

lemma publish_holds: "holds s \<Longrightarrow> holds (publish_aggregated_messages e s)"
proof -
  assume s: "holds s"
  have "holds (lock_cleanup e (s\<lparr>buf := b\<rparr>))" for b by (rule lock_holds) (simp add: s)
  with s show ?thesis
    by (simp add: add_stats_def publish_aggregated_messages_def Let_def case_prod_beta send_frames_hold split: option.splits)
qed

lemma env_step_holds:
  assumes "env_step ok s s'" "holds s" "\<And>e. ok e \<Longrightarrow> admits_allowed e s"
  shows "holds s'"
  using assms
proof (induction rule: env_step.induct)
  case (initialize s l)
  then show ?case
    using Q_new by (auto simp: initialize_def Let_def split: prod.splits sum.splits)
next
  case (requests envs s)
  then show ?case by (simp add: process_requests_def request_loop_holds)
qed (simp_all add: closed_holds publish_holds timeouts_hold topic_changes_hold on_ingest_def
      snapshot_and_reset_stats_def)

end

section \<open>The whitelist\<close>

text \<open>Every topic a client is subscribed to is in a given set.\<close>

definition subscriptions_within :: "string set \<Rightarrow> session_manager \<Rightarrow> bool" where
  "subscriptions_within T m = (\<forall>c. set (keys (get_subscriptions c m)) \<subseteq> T)"

interpretation within: session_property "subscriptions_within T" "\<lambda>t. t \<in> T" for T
  by unfold_locales
    (auto simp: subscriptions_within_def session_simps AList.delete_eq map_of_eq_None_keys,
     auto simp: get_subscriptions_def new_session_manager_def)

text \<open>The settings that a server keeps from its construction.\<close>

definition settings :: "('b, 're) server \<Rightarrow> int \<times> 're whitelist_filter \<times> nat" where
  "settings s = (port s, whitelist s, heavy_frame_threshold_bytes s)"

lemma settings_config: "config_of s' = config_of s \<Longrightarrow> settings s' = settings s"
  by (simp add: config_of_def settings_def)

lemma env_step_settings: "env_step ok s s' \<Longrightarrow> settings s' = settings s"
proof (induction rule: env_step.induct)
  case (initialize s l)
  then show ?case by (auto simp: initialize_def settings_def Let_def split: prod.splits sum.splits)
next
  case (closed e s c)
  show ?case by (rule settings_config) (rule client_closed_config)
next
  case (requests envs s)
  show ?case by (rule settings_config) (rule event_loop_config)
next
  case (publish e s)
  show ?case by (rule settings_config) (rule event_loop_config)
next
  case (timeouts e s)
  show ?case by (rule settings_config) (rule event_loop_config)
next
  case (topics e s)
  show ?case by (rule settings_config) (rule event_loop_config)
qed (simp_all add: on_ingest_def snapshot_and_reset_stats_def settings_def)

lemma env_step_whitelist: "env_step ok s s' \<Longrightarrow> whitelist s' = whitelist s"
  using env_step_settings [of ok s s'] by (simp add: settings_def)

lemma due_topics: "w \<in> set (due_messages subs sent messages) \<Longrightarrow> map_of subs (fst w) \<noteq> None"
  by (induction messages) (auto simp: wire_def split: option.splits dest!: sym [of "Some _"])

text \<open>
  C11. The whitelist confines every client. However requests, connections, disconnects, ingest,
  publishing, timeouts and restarts of the listener interleave, on any backend, a client is
  subscribed only to topics that the configured whitelist admits, and the messages a publish
  cycle owes it are on such topics. Only the meaning of the regular expressions has to stay
  the same.
\<close>

theorem whitelist_confines:
  assumes "(env_step (\<lambda>e. regex_match e = regex))\<^sup>*\<^sup>* (new_server b m cfg) s"
  shows "list_all (\<lambda>(t, rate). matches regex (cfg_whitelist cfg) t) (get_subscriptions c (sess s)) \<and>
    list_all (\<lambda>(t, ts, d). matches regex (cfg_whitelist cfg) t)
      (due_messages (get_subscriptions c (sess s)) sent messages)"
proof -
  let ?T = "{t. matches regex (cfg_whitelist cfg) t}"
  have "subscriptions_within ?T (sess s) \<and> whitelist s = cfg_whitelist cfg"
    using assms
  proof (induction rule: rtranclp_induct)
    case base
    show ?case using within.Q_new by (simp add: new_server_def)
  next
    case (step s s')
    then have "regex_match e = regex \<Longrightarrow> within.admits_allowed ?T e s" for e
      unfolding within.admits_allowed_def by simp
    then have "subscriptions_within ?T (sess s')"
      using within.env_step_holds [OF step.hyps(2), of ?T] step.IH by simp
    then show ?case using env_step_whitelist [OF step.hyps(2)] step.IH by simp
  qed
  then have "set (keys (get_subscriptions c (sess s))) \<subseteq> ?T" by (simp add: subscriptions_within_def)
  moreover have "fst w \<in> set (keys (get_subscriptions c (sess s)))"
    if "w \<in> set (due_messages (get_subscriptions c (sess s)) sent messages)" for w
    using due_topics [OF that] by (simp add: map_of_eq_None_keys)
  ultimately show ?thesis by (fastforce simp: list_all_iff)
qed

text \<open>With a whitelist for one topic, the sample client gets only that one of the two it asks for.\<close>

definition picky_config :: "unit server_config" where
  "picky_config = sample_config\<lparr>cfg_whitelist := \<lparr>patterns = [()]\<rparr>\<rparr>"

definition picky_env :: "(ros2_manager, unit) env" where
  "picky_env = sample_ros_env
     \<lparr>source_topics := [(''/a'', ''T''), (''/b'', ''T'')], regex_match := (\<lambda>t _. t = ''/a''),
      json_parse := (\<lambda>_. Some (JObject [(''command'', JString ''subscribe''),
                                    (''topics'', JArray [JString ''/b'', JString ''/a''])]))\<rparr>"

definition picky_connected :: "(ros2_manager, unit) server" where
  "picky_connected =
     (let s = snd (initialize plain_listener (new_server sample_ros (new_middleware 4 None 5) picky_config))
      in s\<lparr>mw := on_open True ''c'' (mw s)\<rparr>)"

definition picky_subscribed :: "(ros2_manager, unit) server" where
  "picky_subscribed = snd (process_requests (\<lambda>_. picky_env) (sample_asked [1] picky_connected))"

lemma picky_connected_state:
  "picky_connected = (sample_state sample_ros [] sample_buffer [])\<lparr>whitelist := \<lparr>patterns = [()]\<rparr>\<rparr>"
  by (simp add: picky_connected_def picky_config_def initialize_def new_server_def sample_config_def
      mw_initialize_def plain_listener_def new_middleware_def set_on_disconnect_def on_open_def
      sample_state_def sample_mw_def new_session_manager_def Let_def)

lemma picky_loop:
  "request_loop (Suc (Suc n)) (\<lambda>_. picky_env) False (sample_asked [1] picky_connected) =
    (Processed True, (sample_state sample_ros_subscribed [(''c'', sample_session False)]
       (set_latched ''/a'' True sample_buffer) [Text_Sent ''c'' (string_bytes ''r'') True])
       \<lparr>whitelist := \<lparr>patterns = [()]\<rparr>\<rparr>)"
  using sample_ros_subscribe
  by (simp add: picky_connected_state sample_eval picky_env_def handle_subscribe_def parse_topic_def
      assign_all_def validate_topic_def matches_def extract_schema_def
      add_subscription_def collect_latched_replay_def sample_session_def)

theorem whitelist_confines_witness:
  "get_subscriptions ''c'' (sess picky_subscribed) = [(''/a'', 0)] \<and>
   list_all (\<lambda>(t, rate). t = ''/a'') (get_subscriptions ''c'' (sess picky_subscribed))"
proof -
  let ?ok = "\<lambda>e :: (ros2_manager, unit) env. regex_match e = (\<lambda>t _. t = ''/a'')"
  let ?s0 = "new_server sample_ros (new_middleware 4 None 5) picky_config"
  note step = rtranclp.rtrancl_into_rtrancl
  have "(env_step ?ok)\<^sup>*\<^sup>* ?s0 (snd (initialize plain_listener ?s0))"
    by (intro r_into_rtranclp env_step.initialize)
  then have "(env_step ?ok)\<^sup>*\<^sup>* ?s0 picky_connected"
    unfolding picky_connected_def Let_def by (rule step) (rule env_step.opened)
  then have "(env_step ?ok)\<^sup>*\<^sup>* ?s0 (sample_asked [1] picky_connected)"
    unfolding sample_asked_def by (rule step) (rule env_step.message)
  then have "(env_step ?ok)\<^sup>*\<^sup>* ?s0 picky_subscribed"
    unfolding picky_subscribed_def by (rule step) (rule env_step.requests, simp add: picky_env_def)
  note within = whitelist_confines [OF this, of "''c''"]
  have "kMaxRequestsPerCall = Suc (Suc 254)" by (simp add: kMaxRequestsPerCall_def)
  moreover have "initialized (sample_asked [1] picky_connected)"
    by (simp add: sample_asked_def picky_connected_state)
  ultimately have subscribed: "picky_subscribed = (sample_state sample_ros_subscribed [(''c'', sample_session False)]
      (set_latched ''/a'' True sample_buffer) [Text_Sent ''c'' (string_bytes ''r'') True])
      \<lparr>whitelist := \<lparr>patterns = [()]\<rparr>\<rparr>"
    using picky_loop [of 254]
    by (simp only: picky_subscribed_def process_requests_def if_False not_True_eq_False snd_conv)
  have "get_subscriptions ''c'' (sess picky_subscribed) = [(''/a'', 0)]"
    unfolding subscribed by (simp add: get_subscriptions_def sample_session_def)
  with within show ?thesis by (simp add: picky_config_def matches_def)
qed

end
