(* ===== verification/Responses.thy ===== *)
theory Responses
  imports Handler_Properties
begin

text \<open>
  What a client can rely on in the responses: every request is answered, the answer carries the
  protocol version, a status and the id of the request, and the error codes say what was wrong.
\<close>

section \<open>The shape of a response\<close>

text \<open>
  A response answers a request when it has the protocol version, echoes the id if the request
  has one, has one of the documented statuses, and an error code exactly when the status is an
  error.
\<close>

definition answers :: "json \<Rightarrow> json \<Rightarrow> bool" where
  "answers request r \<longleftrightarrow>
     jfind r ''protocol_version'' = Some (JInt kProtocolVersion) \<and>
     jfind r ''id'' = map_option JString (jfield_string request ''id'') \<and>
     jfind r ''status'' \<in> (\<lambda>st. Some (JString st)) ` {''success'', ''ok'', ''partial_success'', ''error''} \<and>
     (jfind r ''error_code'' \<noteq> None \<longleftrightarrow> jfind r ''status'' = Some (JString ''error''))"

definition commands :: "string list" where
  "commands = [''get_topics'', ''subscribe'', ''unsubscribe'', ''heartbeat'', ''pause'', ''resume'',
     ''subscribe_topic_updates'', ''unsubscribe_topic_updates'']"

text \<open>The answer of the \<^verbatim>\<open>json::exception\<close> clause, and the answer sent when a value cannot be dumped.\<close>

definition invalid_json_response :: json where
  "invalid_json_response = error_response ''INVALID_JSON'' ''Failed to parse JSON request'' (JObject [])"

definition or_invalid :: "('b, 're) env \<Rightarrow> json \<Rightarrow> json" where
  "or_invalid e wanted = (if json_dump e wanted = None then invalid_json_response else wanted)"

lemma inject_answers:
  assumes "map_of kvs ''id'' = None"
    and "map_of kvs ''status'' \<in> (\<lambda>st. Some (JString st)) ` {''success'', ''ok'', ''partial_success'', ''error''}"
    and "map_of kvs ''error_code'' \<noteq> None \<longleftrightarrow> map_of kvs ''status'' = Some (JString ''error'')"
  shows "answers request (inject_response_fields (JObject kvs) request)"
  using assms
  by (auto simp: answers_def inject_response_fields_def Let_def update_conv' split: option.splits)

lemma error_answers: "answers request (error_response code msg request)"
  unfolding error_response_def by (rule inject_answers) simp_all

lemma paused_answers: "map_of extra ''id'' = None \<Longrightarrow> map_of extra ''error_code'' = None \<Longrightarrow>
    answers request (paused_response b extra request)"
  unfolding paused_response_def by (rule inject_answers) simp_all

lemma subscribe_answers: "answers request (inject_response_fields (subscribe_response ho schemas failures subs) request)"
  unfolding subscribe_response_def Let_def by (rule inject_answers) (auto simp: map_of_append map_add_def)

section \<open>The outcome of a handler\<close>

text \<open>
  What a handler may return: a dumped response that answers the request, the failure to dump
  one, or the failure of the compressor.
\<close>

definition answered :: "('b, 're) env \<Rightarrow> json \<Rightarrow> exn + string \<Rightarrow> bool" where
  "answered e request out \<longleftrightarrow>
     (\<exists>r. answers request r \<and> out = (case json_dump e r of None \<Rightarrow> Inl JsonExn | Some t \<Rightarrow> Inr t)) \<or>
     out = Inl StdExn \<and> (\<exists>d. zstd e d = None)"

lemma respond_answered: "answers request r \<Longrightarrow> answered e request (fst (respond e r s))"
  by (auto simp: answered_def respond_def split: option.splits)

lemma error_answered: "answered e request (fst (create_error_response e code msg request s))"
  unfolding create_error_response_def by (intro respond_answered error_answers)

lemma collect_exn: "collect_latched_replay e c t s = (Some ex, s') \<Longrightarrow> ex = StdExn \<and> (\<exists>d. zstd e d = None)"
  by (auto simp: collect_latched_replay_def finalize_def Let_def split: if_splits option.splits sum.splits)

lemma acquire_exn: "acquire_loop e c p requested xs schemas failures s = (Inl ex, s') \<Longrightarrow>
    ex = StdExn \<and> (\<exists>d. zstd e d = None)"
proof (induction xs arbitrary: p schemas failures s)
  case (Cons x xs)
  from Cons.prems show ?case
    by (cases x)
      (auto simp: Let_def dest!: Cons.IH collect_exn split: if_splits option.splits prod.splits)
qed simp

lemma reacquire_exn: "reacquire_loop e c held types ts failed s = (Inl ex, s') \<Longrightarrow>
    ex = StdExn \<and> (\<exists>d. zstd e d = None)"
proof (induction ts arbitrary: failed s)
  case (Cons t ts)
  from Cons.prems show ?case
    by (auto simp: Let_def dest!: Cons.IH collect_exn split: if_splits option.splits prod.splits)
qed simp

lemma handle_subscribe_answered: "answered e request (fst (handle_subscribe e c request s))"
proof -
  have loop: "answered e request (fst (case acquire_loop e c p requested xs schemas failures s of
      (Inl ex, s2) \<Rightarrow> (Inl ex, s2)
    | (Inr (schemas, failures'), s2) \<Rightarrow> respond e (inject_response_fields (f schemas failures' s2) request) (g s2)))"
    if "\<And>x y z. answers request (inject_response_fields (f x y z) request)"
    for p requested xs schemas failures s f g
    using acquire_exn [of e c p requested xs schemas failures s]
    by (auto simp: answered_def [where out = "Inl _"] that respond_answered split: prod.splits sum.splits)
  show ?thesis
    unfolding handle_subscribe_def Let_def case_prod_beta
    by (auto simp: error_answered intro!: loop [unfolded case_prod_beta] subscribe_answers split: option.splits)
qed

lemma handle_resume_answered: "answered e request (fst (handle_resume e c request s))"
  using reacquire_exn
  by (fastforce simp: handle_resume_def Let_def paused_answers respond_answered answered_def [where out = "Inl _"]
      split: prod.splits sum.splits)

lemmas simple_handlers =
  handle_get_topics_def handle_unsubscribe_def handle_heartbeat_def handle_pause_def
  handle_subscribe_topic_updates_def handle_unsubscribe_topic_updates_def

lemma simple_handlers_answered:
  "answered e request (fst (handle_get_topics e c request s))"
  "answered e request (fst (handle_unsubscribe e c request s))"
  "answered e request (fst (handle_heartbeat e c request s))"
  "answered e request (fst (handle_pause e c request s))"
  "answered e request (fst (handle_subscribe_topic_updates e c request s))"
  "answered e request (fst (handle_unsubscribe_topic_updates e c request s))"
  by (auto simp: simple_handlers Let_def case_prod_beta error_answered
      intro!: respond_answered inject_answers paused_answers split: option.splits)

section \<open>Properties\<close>

lemma dispatch_known:
  assumes "jfind request ''command'' = Some (JString command)" "command \<in> set commands"
  shows "answered e request (fst (dispatch e c request s))"
  using assms by (auto simp: dispatch_def commands_def simple_handlers_answered handle_subscribe_answered
      handle_resume_answered)

lemma handle_request_answered:
  assumes "json_parse e d = Some request" "answered e request (fst (dispatch e c request s))"
  shows "\<exists>r. fst (handle_request e c d s) = json_dump e r \<and>
    ((\<exists>wanted. answers request wanted \<and> r = or_invalid e wanted) \<or>
     r = error_response ''INTERNAL_ERROR'' ''Internal server error'' request \<and> (\<exists>d. zstd e d = None))"
proof (cases "fst (dispatch e c request s)")
  case (Inl ex)
  show ?thesis
  proof (cases ex)
    case JsonExn
    then obtain r where "answers request r" "json_dump e r = None"
      using assms(2) Inl by (auto simp: answered_def split: option.splits)
    moreover from Inl JsonExn assms(1) have "fst (handle_request e c d s) = json_dump e invalid_json_response"
      by (simp add: handle_request_def Let_def case_prod_beta invalid_json_response_def)
    ultimately show ?thesis by (intro exI [of _ invalid_json_response]) (auto simp: or_invalid_def)
  next
    case StdExn
    with Inl assms(2) have "\<exists>d. zstd e d = None" by (auto simp: answered_def split: option.splits)
    with Inl StdExn assms(1) show ?thesis
      by (auto simp: handle_request_def Let_def case_prod_beta)
  qed
next
  case (Inr t)
  then obtain r where "answers request r" "json_dump e r = Some t"
    using assms(2) by (auto simp: answered_def split: option.splits)
  moreover from Inr assms(1) have "fst (handle_request e c d s) = Some t"
    by (simp add: handle_request_def Let_def case_prod_beta)
  ultimately show ?thesis by (intro exI [of _ r]) (auto simp: or_invalid_def)
qed

text \<open>
  C12. Every request is answered, and the answer says what happened: bytes that are not JSON get
  \<^verbatim>\<open>INVALID_JSON\<close>, a request without a command \<^verbatim>\<open>INVALID_REQUEST\<close>, an unknown
  command \<^verbatim>\<open>UNKNOWN_COMMAND\<close>, and a known command a response with the protocol version,
  the id of the request and a status, which has an error code exactly when it is an error.
  \<^verbatim>\<open>INTERNAL_ERROR\<close> is answered only if the compressor fails, and \<^verbatim>\<open>INVALID_JSON\<close>
  without the id where a response cannot be dumped, or where the command is not a string.
  Nothing is answered only if the answer itself cannot be dumped.
\<close>

theorem requests_answered:
  "\<exists>r. fst (handle_request e c d s) = json_dump e r \<and>
    (case json_parse e d of
       None \<Rightarrow> r = invalid_json_response
     | Some request \<Rightarrow>
         (case jfind request ''command'' of
            None \<Rightarrow> r = or_invalid e (error_response ''INVALID_REQUEST''
                              (''Missing '' @ quoted ''command'' @ '' field'') request)
          | Some (JString command) \<Rightarrow>
              if command \<in> set commands
              then (\<exists>wanted. answers request wanted \<and> r = or_invalid e wanted) \<or>
                   r = error_response ''INTERNAL_ERROR'' ''Internal server error'' request \<and>
                   (\<exists>d. zstd e d = None)
              else r = or_invalid e (error_response ''UNKNOWN_COMMAND'' (''Unknown command: '' @ command) request)
          | Some _ \<Rightarrow> r = invalid_json_response))"
proof (cases "json_parse e d")
  case None
  then show ?thesis by (simp add: handle_request_def invalid_json_response_def)
next
  case (Some request)
  note handled = handle_request_def case_prod_beta Let_def Some invalid_json_response_def
  show ?thesis
  proof (cases "jfind request ''command''")
    case None
    then show ?thesis
      by (cases "json_dump e (error_response ''INVALID_REQUEST'' (''Missing '' @ quoted ''command'' @ '' field'') request)")
        (simp_all add: handled dispatch_def create_error_response_def respond_def or_invalid_def exI)
  next
    case command: (Some j)
    consider (known) command where "j = JString command" "command \<in> set commands"
      | (unknown) command where "j = JString command" "command \<notin> set commands"
      | (other) "jstring j = None"
      by (cases j) auto
    then show ?thesis
    proof cases
      case known
      with handle_request_answered [OF Some dispatch_known] command show ?thesis by (simp add: Some)
    next
      case unknown
      let ?wanted = "error_response ''UNKNOWN_COMMAND'' (''Unknown command: '' @ command) request"
      have "dispatch e c request s = respond e ?wanted s"
        using unknown command by (simp add: dispatch_def commands_def create_error_response_def)
      then show ?thesis
        using unknown command
        by (cases "json_dump e ?wanted") (simp_all add: handled respond_def or_invalid_def exI)
    next
      case other
      then have "dispatch e c request s = (Inl JsonExn, s)" using command by (simp add: dispatch_def)
      then show ?thesis using other command by (cases j) (simp_all add: handled exI)
    qed
  qed
qed

section \<open>The response to a subscribe request\<close>

definition schema_entry :: "('b, 're) env \<Rightarrow> string \<Rightarrow> json" where
  "schema_entry e schema =
     JObject [(''encoding'', JString (source_encoding e)), (''definition'', JString schema)]"

lemma keys_update_new: "k \<notin> set (keys m) \<Longrightarrow> keys (AList.update k v m) = keys m @ [k]"
  by (induction m) auto

lemma acquire_response:
  assumes "session_exists c (sess s)" and "distinct (map fst xs)"
    and "set (map fst xs) \<inter> set (keys schemas) = {}"
    and "acquire_loop e c p requested xs schemas failures s = (Inr (schemas', failures'), s')"
  shows "\<exists>ok bad. set ok \<union> set bad = set (map fst xs) \<and> set ok \<inter> set bad = {} \<and>
    keys schemas' = keys schemas @ ok \<and> distinct ok \<and> distinct bad \<and>
    (\<forall>t. map_of schemas' t =
       (if t \<in> set ok then map_option (schema_entry e \<circ> snd) (map_of xs t) else map_of schemas t)) \<and>
    failures' = failures @
      map (\<lambda>t. failure_entry t ''Subscription manager failed to create subscription'') bad \<and>
    set (keys (get_subscriptions c (sess s'))) = set (keys (get_subscriptions c (sess s))) \<union> set ok \<and>
    session_exists c (sess s')"
  using assms
proof (induction xs arbitrary: schemas failures s)
  case Nil
  then show ?case by (intro exI [of _ "[]"]) auto
next
  case (Cons x xs)
  obtain t ty schema where x: "x = (t, ty, schema)" by (cases x)
  have t: "t \<notin> set (map fst xs)" "t \<notin> set (keys schemas)" using Cons.prems(2,3) by (auto simp: x)
  from acquire_loop_Cons [OF Cons.prems(1) Cons.prems(4) [unfolded x]] show ?case
  proof (elim disjE exE conjE)
    fix b
    assume "acquire_loop e c p requested xs schemas
        (failures @ [failure_entry t ''Subscription manager failed to create subscription''])
        (s\<lparr>backend := b\<rparr>) = (Inr (schemas', failures'), s')"
    from Cons.IH [OF _ _ _ this] Cons.prems(1-3) obtain ok bad where
      "set ok \<union> set bad = set (map fst xs)" "set ok \<inter> set bad = {}" "keys schemas' = keys schemas @ ok" "distinct ok" "distinct bad"
      "\<forall>t. map_of schemas' t =
         (if t \<in> set ok then map_option (schema_entry e \<circ> snd) (map_of xs t) else map_of schemas t)"
      "failures' = (failures @ [failure_entry t ''Subscription manager failed to create subscription'']) @
        map (\<lambda>t. failure_entry t ''Subscription manager failed to create subscription'') bad"
      "set (keys (get_subscriptions c (sess s'))) = set (keys (get_subscriptions c (sess s))) \<union> set ok"
      "session_exists c (sess s')"
      by auto
    with t show ?thesis by (intro exI [of _ ok] exI [of _ "t # bad"]) (auto simp: x)
  next
    fix s3
    assume s3: "sess s3 = fst (set_ref_held c t (\<not> p) (fst (add_subscription c t (requested_rate requested t) (sess s))))"
      and rest: "acquire_loop e c p requested xs
        (AList.update t (JObject [(''encoding'', JString (source_encoding e)),
            (''definition'', JString schema)]) schemas) failures s3 = (Inr (schemas', failures'), s')"
    have 3: "session_exists c (sess s3)"
        "set (keys (get_subscriptions c (sess s3))) = insert t (set (keys (get_subscriptions c (sess s))))"
      using Cons.prems(1) by (auto simp: s3 session_simps dom_update)
    from Cons.IH [OF 3(1) _ _ rest] Cons.prems(2,3) obtain ok bad where
      "set ok \<union> set bad = set (map fst xs)" "set ok \<inter> set bad = {}"
      "keys schemas' = keys (AList.update t (schema_entry e schema) schemas) @ ok" "distinct ok" "distinct bad"
      "\<forall>u. map_of schemas' u =
         (if u \<in> set ok then map_option (schema_entry e \<circ> snd) (map_of xs u)
          else map_of (AList.update t (schema_entry e schema) schemas) u)"
      "failures' = failures @
        map (\<lambda>t. failure_entry t ''Subscription manager failed to create subscription'') bad"
      "set (keys (get_subscriptions c (sess s'))) = set (keys (get_subscriptions c (sess s3))) \<union> set ok"
      "session_exists c (sess s')"
      by (auto simp: x dom_update schema_entry_def)
    with t 3 show ?thesis
      by (intro exI [of _ "t # ok"] exI [of _ bad]) (auto simp: x keys_update_new update_conv')
  qed
qed

abbreviation failures_of :: "(string \<times> string) list \<Rightarrow> json list" where
  "failures_of denied \<equiv> map (\<lambda>(t, why). failure_entry t why) denied"

lemma validate_topics_refused:
  "\<exists>denied. snd (validate_topics e w types ts) = failures_of denied \<and>
     map fst denied = filter (\<lambda>t. isl (validate_topic e w types t)) ts \<and>
     list_all (\<lambda>(t, why). validate_topic e w types t = Inl (failure_entry t why)) denied"
proof (induction ts)
  case (Cons t ts)
  then obtain denied where IH: "snd (validate_topics e w types ts) = failures_of denied"
      "map fst denied = filter (\<lambda>t. isl (validate_topic e w types t)) ts"
      "list_all (\<lambda>(t, why). validate_topic e w types t = Inl (failure_entry t why)) denied"
    by blast
  show ?case
  proof (cases "validate_topic e w types t")
    case (Inl f)
    then obtain why where "f = failure_entry t why"
      by (auto simp: validate_topic_def split: if_splits option.splits sum.splits)
    with Inl IH show ?thesis
      by (cases "validate_topics e w types ts") (auto intro!: exI [of _ "(t, why) # denied"])
  next
    case (Inr x)
    with IH show ?thesis by (cases "validate_topics e w types ts") (auto intro!: exI [of _ denied])
  qed
qed simp

lemma update_rates_keys:
  assumes "session_exists c m" "distinct (map fst xs)"
    "\<forall>t. map_of subs t \<noteq> None \<longrightarrow> t \<in> set (keys (get_subscriptions c m))"
  shows "set (keys (get_subscriptions c (update_rates c subs xs m))) = set (keys (get_subscriptions c m))"
proof -
  have "map_of (get_subscriptions c (update_rates c subs xs m)) t = None \<longleftrightarrow> map_of (get_subscriptions c m) t = None" for t
    using update_rates_effect [OF assms(1,2), of subs t] spec [OF assms(3), of t]
    by (auto simp: map_of_eq_None_keys split: option.splits)
  then show ?thesis by (auto simp: map_of_eq_None_keys)
qed

text \<open>The response and the new subscriptions, from the state in which the handler has the mutex.\<close>

lemma subscribe_response_effect:
  assumes "handle_subscribe e c req s = (Inr text, s')"
    and "jfind req ''topics'' = Some (JArray items)" and "session_exists c (sess (locked e c s))"
    and new: "new = {t. map_of (parse_requested items []) t \<noteq> None \<and> map_of (get_subscriptions c (sess s)) t = None}"
    and valid: "valid = validate_topic e (whitelist s) (assign_all [] (source_topics e))"
  shows "\<exists>schemas denied.
    json_dump e (inject_response_fields (subscribe_response (order e) schemas (failures_of denied)
      (get_subscriptions c (sess s'))) req) = Some text \<and>
    unique_keys schemas \<and> unique_keys denied \<and>
    set (keys schemas) \<union> set (keys denied) = new \<and> set (keys schemas) \<inter> set (keys denied) = {} \<and>
    set (keys schemas) = set (keys (get_subscriptions c (sess s'))) - set (keys (get_subscriptions c (sess s))) \<and>
    list_all (\<lambda>(t, j). \<exists>ty schema. valid t = Inr (ty, schema) \<and> j = schema_entry e schema) schemas \<and>
    list_all (\<lambda>(t, why). case valid t of Inl f \<Rightarrow> f = failure_entry t why
      | Inr _ \<Rightarrow> why = ''Subscription manager failed to create subscription'') denied"
proof -
  define requested where "requested = parse_requested items []"
  define subs where "subs = get_subscriptions c (sess s)"
  define adds where "adds = filter (\<lambda>t. map_of subs t = None) (keys (entries (order e) requested))"
  define s1 where "s1 = locked e c s"
  have uniq: "unique_keys requested"
    using parse_requested_rates [of "[]" items] by (simp add: requested_def)
  have adds: "set adds = new" "distinct adds"
    using uniq by (auto simp: adds_def map_fst_entries map_of_eq_None_iff new requested_def subs_def)
  have wl: "whitelist (touch_session e c s) = whitelist s"
    using touch_frame(5) [of e c s] by (simp add: config_of_def)
  obtain ok bad where v: "validate_topics e (whitelist s) (assign_all [] (source_topics e)) adds = (ok, bad)"
    by fastforce
  have okiff: "(t, ty, schema) \<in> set ok \<longleftrightarrow> t \<in> set adds \<and> valid t = Inr (ty, schema)" for t ty schema
    using validate_topics_iff [of t ty schema e "whitelist s" "assign_all [] (source_topics e)" adds]
    by (simp add: v valid)
  have okd: "distinct (map fst ok)"
    using validate_topics_names [of e "whitelist s" "assign_all [] (source_topics e)" adds] adds(2) by (simp add: v)
  obtain denied where r: "bad = failures_of denied" "map fst denied = filter (\<lambda>t. isl (valid t)) adds"
      "list_all (\<lambda>(t, why). valid t = Inl (failure_entry t why)) denied"
    using validate_topics_refused [of e "whitelist s" "assign_all [] (source_topics e)" adds] by (auto simp: v valid)
  obtain out s2 where a: "acquire_loop e c (is_paused c (sess s1)) requested ok [] bad s1 = (out, s2)" by fastforce
  have run: "handle_subscribe e c req s =
      (case out of Inl ex \<Rightarrow> (Inl ex, s2) | Inr (schemas, failures) \<Rightarrow>
         let s3 = s2\<lparr>sess := update_rates c subs (entries (order e) requested) (sess s2)\<rparr>
         in respond e (inject_response_fields (subscribe_response (order e) schemas failures
              (get_subscriptions c (sess s3))) req) s3)"
    using assms(2) a v
    by (simp add: handle_subscribe_def Let_def touch_sess subs_def [symmetric] requested_def [symmetric]
        adds_def [symmetric] wl s1_def locked_def split: sum.splits prod.splits)
  with assms(1) obtain schemas failures where out: "out = Inr (schemas, failures)" by (cases out) auto
  define s3 where "s3 = s2\<lparr>sess := update_rates c subs (entries (order e) requested) (sess s2)\<rparr>"
  from run assms(1) have sent: "s' = s3"
      "json_dump e (inject_response_fields (subscribe_response (order e) schemas failures
        (get_subscriptions c (sess s3))) req) = Some text"
    by (auto simp: out s3_def respond_def Let_def split: option.splits)
  have subs1: "get_subscriptions c (sess s1) = subs" using locked_sess(1) [OF assms(3)] by (simp add: s1_def subs_def)
  from acquire_response [OF assms(3) [folded s1_def] okd _ a [unfolded out]] obtain taken failed where
    t: "set taken \<union> set failed = set (map fst ok)" "set taken \<inter> set failed = {}" "keys schemas = taken"
      "distinct taken" "distinct failed"
      "\<forall>t. map_of schemas t = (if t \<in> set taken then map_option (schema_entry e \<circ> snd) (map_of ok t) else map_of [] t)"
      "failures = bad @ map (\<lambda>t. failure_entry t ''Subscription manager failed to create subscription'') failed"
      "set (keys (get_subscriptions c (sess s2))) = set (keys subs) \<union> set taken"
      "session_exists c (sess s2)"
    unfolding subs1 append_Nil by force
  have oks: "set (map fst ok) = {t \<in> set adds. \<not> isl (valid t)}" (is "_ = ?oks")
  proof
    show "?oks \<subseteq> set (map fst ok)"
    proof
      fix t
      assume t: "t \<in> ?oks"
      then obtain ty schema where "valid t = Inr (ty, schema)" by (cases "valid t") auto
      with t okiff [of t ty schema] show "t \<in> set (map fst ok)" by force
    qed
  qed (auto simp: okiff)
  define why where "why = ''Subscription manager failed to create subscription''"
  have keys: "set (keys (get_subscriptions c (sess s3))) = set (keys subs) \<union> set taken"
    using update_rates_keys [OF t(9) distinct_entries [OF uniq], of subs "order e"] t(8)
    by (simp add: s3_def map_of_eq_None_keys)
  have denied: "set (map fst denied) = {t \<in> set adds. isl (valid t)}" by (simp only: r(2) set_filter)
  have "set (keys subs) \<inter> set adds = {}" by (auto simp: adds_def map_of_eq_None_iff)
  then have new_keys: "set taken = set (keys (get_subscriptions c (sess s3))) - set (keys subs)"
    using keys t(1) oks by blast
  have schemas: "\<exists>ty schema. valid u = Inr (ty, schema) \<and> j = schema_entry e schema" if "(u, j) \<in> set schemas" for u j
  proof -
    have "map_of schemas u = Some j" using that t(3,4) by simp
    with t(6) obtain ty schema where "map_of ok u = Some (ty, schema)" "j = schema_entry e schema"
      by (auto split: if_splits)
    with okiff [of u ty schema] show ?thesis by (auto dest: map_of_SomeD)
  qed
  show ?thesis
  proof (intro exI [of _ schemas] exI [of _ "denied @ map (\<lambda>t. (t, why)) failed"] conjI)
    show "json_dump e (inject_response_fields (subscribe_response (order e) schemas
        (failures_of (denied @ map (\<lambda>t. (t, why)) failed)) (get_subscriptions c (sess s'))) req) = Some text"
      using sent by (simp add: t(7) r(1) why_def comp_def)
    show "unique_keys schemas" using t(3,4) by simp
    have "distinct (map fst denied)" using adds(2) by (simp add: r(2))
    moreover have "set (map fst denied) \<inter> set failed = {}" using denied t(1) oks by blast
    ultimately show "unique_keys (denied @ map (\<lambda>t. (t, why)) failed)"
      using t(5) by (simp add: comp_def)
    show "set (keys schemas) \<union> set (keys (denied @ map (\<lambda>t. (t, why)) failed)) = new"
      using denied t(1,3) oks adds(1) by (auto simp: comp_def)
    show "set (keys schemas) \<inter> set (keys (denied @ map (\<lambda>t. (t, why)) failed)) = {}"
      using denied t(1,2,3) oks by (auto simp: comp_def)
    show "set (keys schemas) = set (keys (get_subscriptions c (sess s'))) - set (keys (get_subscriptions c (sess s)))"
      using new_keys by (simp add: t(3) sent(1) subs_def)
    show "list_all (\<lambda>(t, j). \<exists>ty schema. valid t = Inr (ty, schema) \<and> j = schema_entry e schema) schemas"
      using schemas by (auto simp: list_all_iff)
    have "list_all (\<lambda>(t, why'). case valid t of Inl f \<Rightarrow> f = failure_entry t why' | Inr _ \<Rightarrow> why' = why) denied"
      using r(3) by (auto simp: list_all_iff)
    moreover have "case valid t of Inl f \<Rightarrow> f = failure_entry t why | Inr _ \<Rightarrow> why = why" if "t \<in> set failed" for t
    proof -
      have "\<not> isl (valid t)" using that t(1) oks by blast
      then show ?thesis by (cases "valid t") simp_all
    qed
    ultimately show "list_all (\<lambda>(t, why). case valid t of Inl f \<Rightarrow> f = failure_entry t why
      | Inr _ \<Rightarrow> why = ''Subscription manager failed to create subscription'') (denied @ map (\<lambda>t. (t, why)) failed)"
      unfolding why_def [symmetric] by (auto simp: list_all_iff)
  qed
qed

text \<open>The fields of the response object.\<close>

lemma map_of_functional:
  assumes "\<And>k v. (k, v) \<in> set xs \<longleftrightarrow> g k = Some v"
  shows "map_of xs = g"
proof
  fix k
  show "map_of xs k = g k"
  proof (cases "map_of xs k")
    case None
    then have "(k, v) \<notin> set xs" for v by (metis map_of_eq_None_iff image_eqI fst_conv)
    then have "g k \<noteq> Some v" for v by (simp add: assms [symmetric])
    with None show ?thesis by (metis not_Some_eq)
  next
    case (Some v)
    with assms [of k v] show ?thesis by (auto dest: map_of_SomeD)
  qed
qed

lemma inject_response_fields_jfind:
  "jfind (inject_response_fields (JObject kvs) request) k =
     (if k = ''id'' \<and> jfield_string request ''id'' \<noteq> None then map_option JString (jfield_string request ''id'')
      else if k = ''protocol_version'' then Some (JInt kProtocolVersion) else map_of kvs k)"
  by (auto simp: inject_response_fields_def Let_def update_conv' split: option.splits)

lemma subscribe_response_fields:
  fixes schemas failures subs request ho
  defines "r \<equiv> inject_response_fields (subscribe_response ho schemas failures subs) request"
  shows "jfind r ''schemas'' = Some (JObject schemas)"
    and "jfind r ''failures'' = (if failures = [] then None else Some (JArray failures))"
    and "jfind r ''status'' = Some (JString (if failures = [] then ''success''
      else if schemas = [] then ''error'' else ''partial_success''))"
    and "jfind r ''error_code'' = (if failures \<noteq> [] \<and> schemas = []
      then Some (JString ''ALL_SUBSCRIPTIONS_FAILED'') else None)"
    and "\<exists>limits. jfind r ''rate_limits'' = (if limits = [] then None else Some (JObject limits)) \<and>
      (\<forall>t. map_of limits t = (case map_of subs t of Some hz \<Rightarrow> if 0 < hz then Some (JFloat hz) else None | None \<Rightarrow> None))"
proof -
  show "jfind r ''schemas'' = Some (JObject schemas)"
    "jfind r ''failures'' = (if failures = [] then None else Some (JArray failures))"
    "jfind r ''status'' = Some (JString (if failures = [] then ''success''
      else if schemas = [] then ''error'' else ''partial_success''))"
    "jfind r ''error_code'' = (if failures \<noteq> [] \<and> schemas = []
      then Some (JString ''ALL_SUBSCRIPTIONS_FAILED'') else None)"
    unfolding r_def subscribe_response_def Let_def inject_response_fields_jfind by simp_all
  let ?limits = "map (\<lambda>(t, hz). (t, JFloat hz)) (filter (\<lambda>(t, hz). 0 < hz) (entries ho subs))"
  have "jfind r ''rate_limits'' = (if ?limits = [] then None else Some (JObject ?limits))"
    unfolding r_def subscribe_response_def Let_def inject_response_fields_jfind by simp
  moreover have "map_of ?limits =
      (\<lambda>t. case map_of subs t of Some hz \<Rightarrow> if 0 < hz then Some (JFloat hz) else None | None \<Rightarrow> None)"
    by (rule map_of_functional) (force simp: in_entries_iff split: option.splits if_splits)
  ultimately show "\<exists>limits. jfind r ''rate_limits'' = (if limits = [] then None else Some (JObject limits)) \<and>
      (\<forall>t. map_of limits t = (case map_of subs t of Some hz \<Rightarrow> if 0 < hz then Some (JFloat hz) else None | None \<Rightarrow> None))"
    by (intro exI [of _ ?limits] conjI) simp_all
qed

text \<open>
  C13. The response to a subscribe request tells the truth. On any backend, for a well-formed
  request that is answered, the topics the client asks for and does not have are split in two:
  \<^verbatim>\<open>schemas\<close> has an entry, with the schema that the topic source gives, for each of the topics that
  the client is subscribed to afterwards and was not before, and \<^verbatim>\<open>failures\<close> one for each of the
  others, with its reason: the one the validation found, or that the subscription could not be
  created; it is absent when there are none. The status is an error with its code when every new topic failed, a
  partial success when some did, a success when none did; \<^verbatim>\<open>rate_limits\<close> has the positive
  rates of the client's subscriptions, and is absent when there are none.
\<close>

theorem subscribe_response_truthful:
  assumes "handle_subscribe e c req s = (Inr text, s')"
    and "jfind req ''topics'' = Some (JArray items)" and "c \<notin> set (gone_before_lock e)"
    and "new = {t. map_of (parse_requested items []) t \<noteq> None \<and> map_of (get_subscriptions c (sess s)) t = None}"
    and "valid = validate_topic e (whitelist s) (assign_all [] (source_topics e))"
  shows "\<exists>r schemas denied limits. json_dump e r = Some text \<and>
    jfind r ''schemas'' = Some (JObject schemas) \<and>
    jfind r ''failures'' =
      (if denied = [] then None
       else Some (JArray (map (\<lambda>(t, why). JObject [(''topic'', JString t), (''reason'', JString why)]) denied))) \<and>
    jfind r ''status'' = Some (JString (if denied = [] then ''success''
      else if schemas = [] then ''error'' else ''partial_success'')) \<and>
    jfind r ''error_code'' =
      (if denied \<noteq> [] \<and> schemas = [] then Some (JString ''ALL_SUBSCRIPTIONS_FAILED'') else None) \<and>
    jfind r ''rate_limits'' = (if limits = [] then None else Some (JObject limits)) \<and>
    unique_keys schemas \<and> unique_keys denied \<and>
    set (keys schemas) \<union> set (keys denied) = new \<and> set (keys schemas) \<inter> set (keys denied) = {} \<and>
    set (keys schemas) = set (keys (get_subscriptions c (sess s'))) - set (keys (get_subscriptions c (sess s))) \<and>
    list_all (\<lambda>(t, j). \<exists>ty schema. valid t = Inr (ty, schema) \<and>
      j = JObject [(''encoding'', JString (source_encoding e)), (''definition'', JString schema)]) schemas \<and>
    list_all (\<lambda>(t, why). case valid t of
        Inl f \<Rightarrow> f = JObject [(''topic'', JString t), (''reason'', JString why)]
      | Inr _ \<Rightarrow> why = ''Subscription manager failed to create subscription'') denied \<and>
    (\<forall>t. map_of limits t = (case map_of (get_subscriptions c (sess s')) t of
        Some hz \<Rightarrow> if 0 < hz then Some (JFloat hz) else None | None \<Rightarrow> None))"
proof -
  from subscribe_response_effect [OF assms(1,2) locked_exists [OF assms(3)] assms(4,5)] obtain schemas denied where
    sent: "json_dump e (inject_response_fields (subscribe_response (order e) schemas (failures_of denied)
      (get_subscriptions c (sess s'))) req) = Some text"
    and split: "unique_keys schemas" "unique_keys denied" "set (keys schemas) \<union> set (keys denied) = new"
      "set (keys schemas) \<inter> set (keys denied) = {}"
      "set (keys schemas) = set (keys (get_subscriptions c (sess s'))) - set (keys (get_subscriptions c (sess s)))"
      "list_all (\<lambda>(t, j). \<exists>ty schema. valid t = Inr (ty, schema) \<and> j = schema_entry e schema) schemas"
      "list_all (\<lambda>(t, why). case valid t of Inl f \<Rightarrow> f = failure_entry t why
        | Inr _ \<Rightarrow> why = ''Subscription manager failed to create subscription'') denied"
    by blast
  note fields = subscribe_response_fields [of "order e" schemas "failures_of denied" "get_subscriptions c (sess s')" req]
  from fields(5) obtain limits where
    "jfind (inject_response_fields (subscribe_response (order e) schemas (failures_of denied)
       (get_subscriptions c (sess s'))) req) ''rate_limits'' = (if limits = [] then None else Some (JObject limits))"
    "\<forall>t. map_of limits t = (case map_of (get_subscriptions c (sess s')) t of
        Some hz \<Rightarrow> if 0 < hz then Some (JFloat hz) else None | None \<Rightarrow> None)"
    by blast
  with sent fields(1-4) split show ?thesis
    unfolding failure_entry_def schema_entry_def map_is_Nil_conv
    by (intro exI conjI)
qed

text \<open>The sample client asks for the one topic there is and for one that does not exist.\<close>

definition sample_two :: json where
  "sample_two = JObject [(''topics'', JArray [JString ''/a'', JString ''/x''])]"

theorem subscribe_response_truthful_witness:
  "\<exists>s' r why. handle_subscribe sample_ros_env ''c'' sample_two (sample_connected sample_ros) = (Inr ''r'', s') \<and>
     set (keys (get_subscriptions ''c'' (sess s'))) \<subseteq> {''/a''} \<and>
     jfind r ''status'' \<in> {Some (JString ''error''), Some (JString ''partial_success'')} \<and>
     (\<exists>fs. jfind r ''failures'' = Some (JArray fs) \<and>
        JObject [(''topic'', JString ''/x''), (''reason'', JString why)] \<in> set fs)"
proof -
  let ?s = "sample_connected sample_ros"
  have here: "''c'' \<notin> set (gone_before_lock sample_ros_env)" by simp
  have topics: "jfind sample_two ''topics'' = Some (JArray [JString ''/a'', JString ''/x''])" by (simp add: sample_two_def)
  have none: "get_subscriptions ''c'' (sess ?s) = []" by (simp add: sample_connected_state get_subscriptions_def)
  have "fst (handle_subscribe sample_ros_env ''c'' sample_two ?s) = Inr ''r''"
    using handle_subscribe_answered [of sample_ros_env sample_two "''c''" ?s] by (simp add: answered_def)
  then obtain s' where run: "handle_subscribe sample_ros_env ''c'' sample_two ?s = (Inr ''r'', s')"
    by (metis prod.collapse)
  let ?valid = "validate_topic sample_ros_env (whitelist ?s) (assign_all [] (source_topics sample_ros_env))"
  let ?new = "{t. map_of (parse_requested [JString ''/a'', JString ''/x''] []) t \<noteq> None \<and>
      map_of (get_subscriptions ''c'' (sess ?s)) t = None}"
  from subscribe_response_truthful [OF run topics here refl refl] obtain r schemas denied where
    s: "jfind r ''failures'' = (if denied = [] then None
       else Some (JArray (map (\<lambda>(t, why). JObject [(''topic'', JString t), (''reason'', JString why)]) denied)))"
      "jfind r ''status'' = Some (JString (if denied = [] then ''success''
      else if schemas = [] then ''error'' else ''partial_success''))"
      "set (keys schemas) \<union> set (keys denied) = ?new"
      "set (keys schemas) = set (keys (get_subscriptions ''c'' (sess s'))) - set (keys (get_subscriptions ''c'' (sess ?s)))"
      "list_all (\<lambda>(t, j). \<exists>ty schema. ?valid t = Inr (ty, schema) \<and>
         j = JObject [(''encoding'', JString (source_encoding sample_ros_env)), (''definition'', JString schema)]) schemas"
    by blast
  have "?valid t = Inr (ty, schema) \<Longrightarrow> t = ''/a''" for t ty schema
    by (auto simp: validate_topic_def assign_all_def split: if_splits option.splits)
  with s(5) have keys: "set (keys schemas) \<subseteq> {''/a''}" by (fastforce simp: list_all_iff)
  have "''/x'' \<in> ?new" by (simp add: none parse_topic_def)
  then have "''/x'' \<in> set (keys schemas) \<union> set (keys denied)" unfolding s(3) .
  moreover have "''/x'' \<notin> set (keys schemas)" using keys by (auto simp del: set_map)
  ultimately have "''/x'' \<in> set (keys denied)" by blast
  then obtain why where "(''/x'', why) \<in> set denied" by auto
  then have denied: "denied \<noteq> []"
    "JObject [(''topic'', JString ''/x''), (''reason'', JString why)]
      \<in> set (map (\<lambda>(t, why). JObject [(''topic'', JString t), (''reason'', JString why)]) denied)" by force+
  show ?thesis
  proof (rule exI [of _ s'], rule exI [of _ r], rule exI [of _ why], intro conjI)
    show "handle_subscribe sample_ros_env ''c'' sample_two ?s = (Inr ''r'', s')" by (rule run)
    show "set (keys (get_subscriptions ''c'' (sess s'))) \<subseteq> {''/a''}" using keys s(4) by (simp add: none)
    show "jfind r ''status'' \<in> {Some (JString ''error''), Some (JString ''partial_success'')}" using s(2) denied(1) by simp
    show "\<exists>fs. jfind r ''failures'' = Some (JArray fs) \<and>
        JObject [(''topic'', JString ''/x''), (''reason'', JString why)] \<in> set fs"
      using s(1) denied by simp
  qed
qed

text \<open>
  When no new topic of a request can be taken, the response is
  \<^verbatim>\<open>ALL_SUBSCRIPTIONS_FAILED\<close> with no schema, even if the client also asked for topics
  that it is subscribed to.
\<close>

theorem all_failed_ignores_subscribed:
  assumes "handle_subscribe e c req s = (Inr text, s')"
    and "jfind req ''topics'' = Some (JArray items)" and "c \<notin> set (gone_before_lock e)"
    and "map_of (parse_requested items []) t \<noteq> None" "map_of (get_subscriptions c (sess s)) t = None"
    and "get_subscriptions c (sess s') = get_subscriptions c (sess s)"
  shows "\<exists>r. json_dump e r = Some text \<and> jfield_string r ''error_code'' = Some ''ALL_SUBSCRIPTIONS_FAILED'' \<and>
    jfind r ''schemas'' = Some (JObject [])"
proof -
  from subscribe_response_effect [OF assms(1,2) locked_exists [OF assms(3)] refl refl] obtain schemas denied where
    d: "json_dump e (inject_response_fields (subscribe_response (order e) schemas (failures_of denied)
      (get_subscriptions c (sess s'))) req) = Some text"
    and "set (keys schemas) \<union> set (keys denied) =
       {t. map_of (parse_requested items []) t \<noteq> None \<and> map_of (get_subscriptions c (sess s)) t = None}"
    and "set (keys schemas) = set (keys (get_subscriptions c (sess s'))) - set (keys (get_subscriptions c (sess s)))"
    by blast
  with assms(4-6) have "schemas = []" "denied \<noteq> []" by auto
  with d show ?thesis
    by (intro exI [of _ "inject_response_fields (subscribe_response (order e) schemas (failures_of denied)
      (get_subscriptions c (sess s'))) req"] conjI)
      (auto simp: subscribe_response_def inject_response_fields_def Let_def jfield_string_def jfind_simps split: option.splits)
qed

end
