(* ===== verification/Rate_State.thy ===== *)
theory Rate_State
  imports Delivery
begin

text \<open>
  Two ways in which the last-sent times of the rate gate are not what one client's rate asks
  for: the times of a group are those of its first client, and the entry of a client that
  leaves at the wrong moment comes back.
\<close>

section \<open>The times of a group\<close>

text \<open>
  What a group is sent does not depend on the last-sent times of its other clients, and when
  anything is sent these are overwritten with those of the first client.
\<close>

theorem follower_times_overwritten:
  assumes "y \<in> set ids" "y \<noteq> hd ids" "build_group z th messages m ids sent = (Some fs, sent')" "fs \<noteq> []"
  shows "map_of sent' y = map_of sent' (hd ids) \<and>
    fst (build_group z th messages m ids (AList.update y old sent)) = Some fs"
proof -
  have p: "map_of (propagate ids rep s) y = Some rep" for rep s
  proof -
    have "map_of (fold (\<lambda>c ts. if c \<noteq> hd ids then AList.update c rep ts else ts) xs s) y =
        (if y \<in> set xs then Some rep else map_of s y)" for xs
      using assms(2) by (induction xs arbitrary: s) auto
    with assms(1) show ?thesis by (simp add: propagate_def)
  qed
  have q: "map_of (propagate ids rep s) (hd ids) = map_of s (hd ids)" for rep s
  proof -
    have "map_of (fold (\<lambda>c ts. if c \<noteq> hd ids then AList.update c rep ts else ts) xs s) (hd ids) = map_of s (hd ids)" for xs
      by (induction xs arbitrary: s) auto
    then show ?thesis by (simp add: propagate_def)
  qed
  have h: "map_at (hd ids) (AList.update y old sent) = map_at (hd ids) sent"
    using assms(2) by (simp add: map_at_def)
  show ?thesis
    using assms(3,4) by (auto simp: build_group_def Let_def case_prod_beta h p q split: option.splits if_splits sum.splits)
qed

section \<open>A client that leaves\<close>

lemma send_to_gone: "\<forall>c \<in> set cs. c \<notin> set (clients (mw s)) \<Longrightarrow> send_to_clients e ps f cs any s = (any, s)"
  by (induction cs) (simp_all add: send_frame_def send_binary_def after_socket_call_def Let_def forwarded_def)

lemma send_frames_to_gone:
  "\<forall>f \<in> set fs. \<forall>c \<in> set (client_ids f). c \<notin> set (clients (mw s)) \<Longrightarrow> send_frames e ps fs tot s = (tot, s)"
  by (induction fs) (simp_all add: send_to_gone)

lemma build_group_front: "map_of (snd (build_group z th messages m [c] sent)) c \<noteq> None"
  by (auto simp: build_group_def Let_def case_prod_beta propagate_def split: option.splits sum.splits)

text \<open>
  A client whose session is removed after the sessions have been read and before the rate state
  is locked gets an entry of the last-sent times back, and the session that would remove it is
  gone.
\<close>

theorem removed_client_times_return:
  assumes "initialized s" "topic_buffers (buf s) \<noteq> []" "get_active_sessions (order e) (sess s) = [c]"
    "get_subscriptions c (sess s) \<noteq> []" "gone_before_lock e = [c]" "ready (mw s)" "disconnect_callback (mw s)"
    "distinct (clients (mw s))" "sessions_wf (sess s)"
  shows "\<not> session_exists c (sess (publish_aggregated_messages e s)) \<and>
    map_of (last_sent_times (publish_aggregated_messages e s)) c \<noteq> None"
proof -
  let ?s2 = "client_closed e c (s\<lparr>buf := snd (move_messages (buf s))\<rparr>)"
  have b: "move_messages (buf s) = (topic_buffers (buf s), snd (move_messages (buf s)))" by (simp add: move_messages_def)
  have s2: "\<not> session_exists c (sess ?s2)" "c \<notin> set (clients (mw ?s2))"
    using client_closed_sess [of e c "s\<lparr>buf := snd (move_messages (buf s))\<rparr>"] assms(6-9)
    by (auto simp: client_closed_def Let_def frame_simps mw_simps session_exists_after)
  obtain fs sent where g: "build_group (zstd e) (heavy_frame_threshold_bytes ?s2) (entries (order e) (topic_buffers (buf s)))
      (sess s) [c] (last_sent_times ?s2) = (fs, sent)" by fastforce
  have front: "map_of sent c \<noteq> None" using build_group_front [of "zstd e"] g by (metis snd_conv)
  have groups: "map snd (group_clients (sess s) [c] []) = [[c]]" using assms(4) by (simp add: Let_def)
  show ?thesis
  proof (cases fs)
    case None
    then have "publish_aggregated_messages e s = ?s2\<lparr>last_sent_times := sent\<rparr>"
      using assms(1-3,5) g groups by (subst publish_aggregated_messages_def, subst b) (simp add: lock_cleanup_def Let_def)
    with s2 front show ?thesis by simp
  next
    case (Some out)
    have "\<forall>f \<in> set out. client_ids f = [c]" using build_group_ids [OF g [unfolded Some]] by (simp add: carries_def)
    then have "send_frames e ps out tot (?s2\<lparr>last_sent_times := sent\<rparr>) = (tot, ?s2\<lparr>last_sent_times := sent\<rparr>)" for ps tot
      using s2(2) by (intro send_frames_to_gone) simp
    then have "publish_aggregated_messages e s = ?s2\<lparr>last_sent_times := sent\<rparr>"
      using assms(1-3,5) g groups Some
      by (subst publish_aggregated_messages_def, subst b) (simp add: lock_cleanup_def Let_def add_stats_def no_totals_def)
    with s2 front show ?thesis by simp
  qed
qed

end
