(* ===== verification/Event_Loop.thy ===== *)
theory Event_Loop
  imports Server_Properties Double_Arith
begin

text \<open>
  \<^verbatim>\<open>run_standalone_event_loop\<close> (\<^verbatim>\<open>src/app/src/standalone_event_loop.cpp\<close>), the main loop of the
  two DDS backends. One turn asks the clock once and decides from it which of the periodic
  calls are due. What the threads of the libraries do meanwhile (connections, messages) is a
  list of events of each turn. Times are in nanoseconds of the steady clock.
\<close>

section \<open>Configuration and schedule\<close>

record standalone_config =
  loop_port :: int
  loop_publish_rate :: rat
  loop_session_timeout :: rat
  stats_enabled :: bool
  topic_poll_interval :: rat

text \<open>\<^verbatim>\<open>duration_cast<nanoseconds>\<close> of a number of seconds held in a double.\<close>

definition duration_ns :: "rat \<Rightarrow> int" where
  "duration_ns d = Double_Arith.truncate (to_double (d * 1000000000))"

definition publish_interval :: "standalone_config \<Rightarrow> int" where
  "publish_interval cfg = duration_ns (to_double (1 / loop_publish_rate cfg))"

record loop_clock =
  last_publish :: int
  last_timeout_check :: int
  last_stats_print :: int
  last_topic_poll :: int

datatype action = Publish | Check_Timeouts | Check_Topics | Print_Stats

definition second :: int where
  "second = 1000000000"

text \<open>The tests of one turn, in the order of the code, and the clocks they set.\<close>

definition due :: "bool \<Rightarrow> action \<Rightarrow> action list" where
  "due b a = (if b then [a] else [])"

definition publish_due :: "standalone_config \<Rightarrow> int \<Rightarrow> loop_clock \<Rightarrow> bool" where
  "publish_due cfg now k = (now - last_publish k \<ge> publish_interval cfg)"

definition timeout_check_due :: "int \<Rightarrow> loop_clock \<Rightarrow> bool" where
  "timeout_check_due now k = (now - last_timeout_check k \<ge> second)"

definition topic_poll_due :: "standalone_config \<Rightarrow> int \<Rightarrow> loop_clock \<Rightarrow> bool" where
  "topic_poll_due cfg now k =
     (topic_poll_interval cfg > 0 \<and> now - last_topic_poll k \<ge> duration_ns (topic_poll_interval cfg))"

definition stats_due :: "standalone_config \<Rightarrow> int \<Rightarrow> loop_clock \<Rightarrow> bool" where
  "stats_due cfg now k = (stats_enabled cfg \<and> now - last_stats_print k \<ge> 5 * second)"

definition schedule :: "standalone_config \<Rightarrow> int \<Rightarrow> loop_clock \<Rightarrow> action list \<times> loop_clock" where
  "schedule cfg now k =
     (due (publish_due cfg now k) Publish @ due (timeout_check_due now k) Check_Timeouts @
      due (topic_poll_due cfg now k) Check_Topics @ due (stats_due cfg now k) Print_Stats,
      \<lparr>last_publish = (if publish_due cfg now k then last_publish k + publish_interval cfg else last_publish k),
       last_timeout_check = (if timeout_check_due now k then now else last_timeout_check k),
       last_stats_print = (if stats_due cfg now k then now else last_stats_print k),
       last_topic_poll = (if topic_poll_due cfg now k then now else last_topic_poll k)\<rparr>)"

section \<open>The statistics line\<close>

text \<open>The figures of the line, before they are formatted; \<open>elapsed\<close> is in seconds.\<close>

record stats_report =
  receive_rates :: "(string \<times> rat) list"
  publish_frequency :: rat
  sent_mb_per_second :: rat
  dropped_frames :: u64
  shed_frames :: u64

definition per_second :: "u64 \<Rightarrow> rat \<Rightarrow> rat" where
  "per_second n elapsed = to_double (to_double (of_nat (unat n)) / elapsed)"

definition stats_report_of :: "hash_order \<Rightarrow> rat \<Rightarrow> stats_snapshot \<Rightarrow> middleware \<Rightarrow> stats_report" where
  "stats_report_of ho elapsed snap m =
     \<lparr>receive_rates = map (\<lambda>(t, n). (t, per_second n elapsed)) (entries ho (snap_receive_counts snap)),
      publish_frequency = per_second (snap_publish_cycles snap) elapsed,
      sent_mb_per_second = to_double (per_second (snap_total_bytes snap) elapsed / (1024 * 1024)),
      dropped_frames = dropped_frame_count m, shed_frames = heavy_shed_count m\<rparr>"

section \<open>One turn\<close>

text \<open>What the other threads do to the shared objects.\<close>

datatype ('b, 're) event =
  Ingested u64 u64 string u64 bytes
| Connected bool string
| Disconnected "('b, 're) env" string
| Received string bool bytes

primrec apply_event :: "('b, 're) event \<Rightarrow> ('b, 're) server \<Rightarrow> ('b, 're) server" where
  "apply_event (Ingested now1 now2 t ts d) s = on_ingest now1 now2 t ts d s"
| "apply_event (Connected listed c) s = s\<lparr>mw := on_open listed c (mw s)\<rparr>"
| "apply_event (Disconnected e c) s = client_closed e c s"
| "apply_event (Received c binary d) s = s\<lparr>mw := on_message c binary d (mw s)\<rparr>"

record ('b, 're) turn =
  shutdown_requested :: bool
  turn_events :: "('b, 're) event list"
  request_envs :: "nat \<Rightarrow> ('b, 're) env"
  turn_now :: int
  action_env :: "action \<Rightarrow> ('b, 're) env"

text \<open>One periodic call; the flag tells whether an exception leaves it.\<close>

fun perform :: "('b, 're) env \<Rightarrow> action \<Rightarrow> ('b, 're) server \<Rightarrow> bool \<times> ('b, 're) server" where
  "perform e Publish s = (False, publish_aggregated_messages e s)"
| "perform e Check_Timeouts s = (False, check_session_timeouts e s)"
| "perform e Check_Topics s = check_topic_changes e s"
| "perform e Print_Stats s = (False, snd (snapshot_and_reset_stats s))"

fun perform_all ::
    "(action \<Rightarrow> ('b, 're) env) \<Rightarrow> action list \<Rightarrow> ('b, 're) server \<Rightarrow> bool \<times> ('b, 're) server" where
  "perform_all envs [] s = (False, s)"
| "perform_all envs (a # as) s =
     (case perform (envs a) a s of (True, s1) \<Rightarrow> (True, s1) | (False, s1) \<Rightarrow> perform_all envs as s1)"

definition turn_step ::
    "standalone_config \<Rightarrow> ('b, 're) turn \<Rightarrow> loop_clock \<Rightarrow> ('b, 're) server \<Rightarrow>
     bool \<times> loop_clock \<times> ('b, 're) server" where
  "turn_step cfg w k s =
     (let s1 = fold apply_event (turn_events w) s
      in case process_requests (request_envs w) s1 of
           (Escaped, s2) \<Rightarrow> (True, k, s2)
         | (Processed _, s2) \<Rightarrow>
             let (actions, k1) = schedule cfg (turn_now w) k;
                 (thrown, s3) = perform_all (action_env w) actions s2
             in (thrown, k1, s3))"

section \<open>The loop\<close>

text \<open>
  How the function ends: it could not start, an exception left it, or it was asked to stop and
  has shut down. \<open>Running\<close> is a loop that has more turns to take than the list has.
\<close>

datatype ('b, 're) loop_outcome =
  Not_Started "('b, 're) server"
| Crashed "('b, 're) server"
| Stopped "('b, 're) server"
| Running loop_clock "('b, 're) server"

primrec final_server :: "('b, 're) loop_outcome \<Rightarrow> ('b, 're) server" where
  "final_server (Not_Started s) = s"
| "final_server (Crashed s) = s"
| "final_server (Stopped s) = s"
| "final_server (Running k s) = s"

text \<open>
  The ordered shutdown. Clearing the message callback only ends the ingest, so there are no
  \<^const>\<open>Ingested\<close> events afterwards.
\<close>

definition ordered_shutdown :: "'b sm_ops \<Rightarrow> ('b, 're) server \<Rightarrow> ('b, 're) server" where
  "ordered_shutdown ops s = s\<lparr>backend := sm_unsubscribe_all ops (backend s), mw := shutdown (mw s)\<rparr>"

fun event_loop ::
    "'b sm_ops \<Rightarrow> standalone_config \<Rightarrow> ('b, 're) turn list \<Rightarrow> loop_clock \<Rightarrow> ('b, 're) server \<Rightarrow>
     ('b, 're) loop_outcome" where
  "event_loop ops cfg [] k s = Running k s"
| "event_loop ops cfg (w # ws) k s =
     (if shutdown_requested w then Stopped (ordered_shutdown ops s)
      else case turn_step cfg w k s of
             (True, _, s1) \<Rightarrow> Crashed s1
           | (False, k1, s1) \<Rightarrow> event_loop ops cfg ws k1 s1)"

definition run_standalone_event_loop ::
    "listener \<Rightarrow> ('b, 're) env \<Rightarrow> standalone_config \<Rightarrow> loop_clock \<Rightarrow> ('b, 're) turn list \<Rightarrow>
     ('b, 're) server \<Rightarrow> ('b, 're) loop_outcome" where
  "run_standalone_event_loop l e cfg start turns s =
     (case initialize l s of
        (False, s1) \<Rightarrow> Not_Started s1
      | (True, s1) \<Rightarrow>
          (case (if topic_poll_interval cfg > 0 then check_topic_changes e s1 else (False, s1)) of
             (True, s2) \<Rightarrow> Crashed s2
           | (False, s2) \<Rightarrow> event_loop (methods e) cfg turns start s2))"

section \<open>The loop stays within the server's state machine\<close>

primrec event_uses :: "('g \<Rightarrow> 'b sm_ops) \<Rightarrow> ('b, 're) event \<Rightarrow> bool" where
  "event_uses ops (Ingested now1 now2 t ts d) = True"
| "event_uses ops (Connected listed c) = True"
| "event_uses ops (Disconnected e c) = uses ops e"
| "event_uses ops (Received c binary d) = True"

text \<open>Every environment of a turn has the methods of the same backend.\<close>

definition turn_uses :: "('g \<Rightarrow> 'b sm_ops) \<Rightarrow> ('b, 're) turn \<Rightarrow> bool" where
  "turn_uses ops w =
     (list_all (event_uses ops) (turn_events w) \<and> (\<forall>i. uses ops (request_envs w i)) \<and>
      (\<forall>a. uses ops (action_env w a)))"

lemma reachable_step:
  "server_reachable ops b m cfg s \<Longrightarrow> server_step ops s s' \<Longrightarrow> server_reachable ops b m cfg s'"
  unfolding server_reachable_def by (rule rtranclp.rtrancl_into_rtrancl)

lemma events_reachable:
  "server_reachable ops b m cfg s \<Longrightarrow> list_all (event_uses ops) evs \<Longrightarrow>
     server_reachable ops b m cfg (fold apply_event evs s)"
proof (induction evs arbitrary: s)
  case (Cons ev evs)
  have "server_step ops s (apply_event ev s)"
    using Cons.prems(2) by (cases ev) (auto intro: env_step.intros)
  from Cons.IH [OF reachable_step [OF Cons.prems(1) this]] Cons.prems(2) show ?case by simp
qed simp

lemma perform_reachable:
  assumes "server_reachable ops b m cfg s" "uses ops e"
  shows "server_reachable ops b m cfg (snd (perform e a s))"
  using assms by (cases a) (auto intro: reachable_step env_step.intros)

lemma perform_all_reachable:
  "server_reachable ops b m cfg s \<Longrightarrow> \<forall>a. uses ops (envs a) \<Longrightarrow>
     server_reachable ops b m cfg (snd (perform_all envs acts s))"
proof (induction acts arbitrary: s)
  case (Cons a acts)
  obtain x s1 where p: "perform (envs a) a s = (x, s1)" by fastforce
  have "server_reachable ops b m cfg s1"
    using perform_reachable [OF Cons.prems(1), of "envs a" a] Cons.prems(2) p by simp
  from Cons.IH [OF this Cons.prems(2)] this p show ?case by (auto split: bool.splits)
qed simp

lemma turn_reachable:
  assumes "server_reachable ops b m cfg s" "turn_uses ops w"
  shows "server_reachable ops b m cfg (snd (snd (turn_step lc w k s)))"
proof -
  let ?s1 = "fold apply_event (turn_events w) s"
  have 1: "server_reachable ops b m cfg ?s1" using assms by (intro events_reachable) (simp_all add: turn_uses_def)
  obtain r s2 where p: "process_requests (request_envs w) ?s1 = (r, s2)" by fastforce
  have 2: "server_reachable ops b m cfg s2"
    using reachable_step [OF 1 env_step.requests, of "request_envs w"] assms(2) p by (simp add: turn_uses_def)
  have 3: "server_reachable ops b m cfg (snd (perform_all (action_env w) acts s2))" for acts
    using perform_all_reachable [OF 2, of "action_env w"] assms(2) by (simp add: turn_uses_def)
  show ?thesis
    using 2 3 p by (cases r) (simp_all add: turn_step_def case_prod_beta)
qed

definition outcome_reachable ::
    "('g \<Rightarrow> 'b sm_ops) \<Rightarrow> 'b sm_ops \<Rightarrow> 'b \<Rightarrow> middleware \<Rightarrow> 're server_config \<Rightarrow> ('b, 're) loop_outcome \<Rightarrow> bool" where
  "outcome_reachable ops os b m cfg r =
     (case r of
        Stopped s' \<Rightarrow> \<exists>s. server_reachable ops b m cfg s \<and> s' = ordered_shutdown os s
      | _ \<Rightarrow> server_reachable ops b m cfg (final_server r))"

lemma outcome_reachable_simps [simp]:
  "outcome_reachable ops os b m cfg (Not_Started s) = server_reachable ops b m cfg s"
  "outcome_reachable ops os b m cfg (Crashed s) = server_reachable ops b m cfg s"
  "outcome_reachable ops os b m cfg (Running k s) = server_reachable ops b m cfg s"
  "outcome_reachable ops os b m cfg (Stopped s') =
     (\<exists>s. server_reachable ops b m cfg s \<and> s' = ordered_shutdown os s)"
  by (simp_all add: outcome_reachable_def)

lemma event_loop_reachable:
  "server_reachable ops b m cfg s \<Longrightarrow> \<forall>w \<in> set ws. turn_uses ops w \<Longrightarrow>
     outcome_reachable ops os b m cfg (event_loop os lc ws k s)"
proof (induction ws arbitrary: k s)
  case Nil
  then show ?case by simp
next
  case (Cons w ws)
  obtain x k1 s1 where t: "turn_step lc w k s = (x, k1, s1)" by (cases "turn_step lc w k s") auto
  have r: "server_reachable ops b m cfg s1"
    using turn_reachable [OF Cons.prems(1), of w lc k] Cons.prems(2) t by simp
  from Cons.IH [OF r, of k1] Cons.prems r t show ?case by (cases x) auto
qed

lemma run_reachable:
  assumes "\<forall>w \<in> set turns. turn_uses ops w" "uses ops e"
  shows "outcome_reachable ops (methods e) b m cfg
    (run_standalone_event_loop l e lc start turns (new_server b m cfg))"
proof -
  have new: "server_reachable ops b m cfg (new_server b m cfg)" by (simp add: server_reachable_def)
  obtain ok s1 where i: "initialize l (new_server b m cfg) = (ok, s1)" by fastforce
  have 1: "server_reachable ops b m cfg s1" using reachable_step [OF new env_step.initialize, of l] i by simp
  obtain x s2 where c: "check_topic_changes e s1 = (x, s2)" by fastforce
  have 2: "server_reachable ops b m cfg s2"
    using reachable_step [OF 1 env_step.topics [where ok = "uses ops", OF assms(2)]] c by simp
  note event_loop_reachable [OF 1 assms(1), of "methods e" lc start]
    event_loop_reachable [OF 2 assms(1), of "methods e" lc start]
  with i c 1 2 show ?thesis
    by (cases ok; cases x; cases "topic_poll_interval lc > 0") (simp_all add: run_standalone_event_loop_def)
qed

section \<open>The cadence\<close>

text \<open>The schedule alone, over the clock readings of successive turns.\<close>

fun schedule_all :: "standalone_config \<Rightarrow> int list \<Rightarrow> loop_clock \<Rightarrow> action list list \<times> loop_clock" where
  "schedule_all cfg [] k = ([], k)"
| "schedule_all cfg (now # nows) k =
     (let (acts, k1) = schedule cfg now k; (rest, k2) = schedule_all cfg nows k1 in (acts # rest, k2))"

definition published :: "action list list \<Rightarrow> int" where
  "published acts = int (length (filter (\<lambda>as. Publish \<in> set as) acts))"

lemma published_Cons: "published (as # acts) = of_bool (Publish \<in> set as) + published acts"
  by (simp add: published_def)

lemma published_nonneg: "0 \<le> published acts"
  by (simp add: published_def)

lemma schedule_publish:
  "Publish \<in> set (fst (schedule cfg now k)) \<longleftrightarrow> publish_due cfg now k"
  "last_publish (snd (schedule cfg now k)) =
     last_publish k + of_bool (publish_due cfg now k) * publish_interval cfg"
  by (auto simp: schedule_def due_def)

text \<open>Turns that are at most one interval apart, the first one after the start.\<close>

fun dense :: "int \<Rightarrow> int \<Rightarrow> int list \<Rightarrow> bool" where
  "dense gap t [] = True"
| "dense gap t (now # nows) = (t \<le> now \<and> now \<le> t + gap \<and> dense gap now nows)"

lemma last_publish_advances:
  "schedule_all cfg nows k = (acts, k') \<Longrightarrow>
     last_publish k' = last_publish k + published acts * publish_interval cfg"
proof (induction nows arbitrary: k acts k')
  case Nil
  then show ?case by (simp add: published_def)
next
  case (Cons now nows)
  obtain rest k2 where r: "schedule_all cfg nows (snd (schedule cfg now k)) = (rest, k2)" by fastforce
  with Cons.prems have e: "acts = fst (schedule cfg now k) # rest" "k' = k2"
    by (auto simp: case_prod_beta)
  from Cons.IH [OF r] show ?case
    by (simp add: e published_Cons schedule_publish algebra_simps)
qed

lemma publish_cadence_window:
  assumes "0 < publish_interval cfg" "schedule_all cfg nows k = (acts, k')"
    and "dense (publish_interval cfg) t nows"
    and "last_publish k \<le> t" "t < last_publish k + publish_interval cfg"
  shows "last_publish k' \<le> last (t # nows) \<and> last (t # nows) < last_publish k' + publish_interval cfg"
  using assms(2-5)
proof (induction nows arbitrary: k acts t k')
  case Nil
  then show ?case by simp
next
  case (Cons now nows)
  let ?k = "snd (schedule cfg now k)"
  obtain rest k2 where r: "schedule_all cfg nows ?k = (rest, k2)" by fastforce
  with Cons.prems(1) have e: "k' = k2" by (auto simp: case_prod_beta)
  have d: "dense (publish_interval cfg) now nows" using Cons.prems(2) by simp
  have "last_publish ?k \<le> now" "now < last_publish ?k + publish_interval cfg"
    using Cons.prems(2-4) by (auto simp: schedule_publish publish_due_def)
  from Cons.IH [OF r d this] show ?case by (simp add: e)
qed

lemma window_div:
  fixes n i x :: int
  assumes "0 < i" "n * i \<le> x" "x < n * i + i"
  shows "x div i = n"
  using assms by (intro div_pos_pos_trivial [THEN trans] int_div_pos_eq [of x i n "x - n * i"]) auto

end
