(* ===== verification/Event_Loop_Claims.thy ===== *)
theory Event_Loop_Claims
  imports Event_Loop Server_Claims
begin

text \<open>
  The claims on the standalone loop: its publishing cadence, and what it leaves behind when it
  stops.
\<close>

section \<open>Cadence\<close>

text \<open>
  C23. The loop keeps its publishing rate without drift. If its turns are never more than one
  publish interval apart, then after any number of turns it has published exactly as often as
  whole intervals have elapsed since the start.
\<close>

theorem publish_cadence_exact:
  assumes "0 < publish_interval cfg"
    and "dense (publish_interval cfg) (last_publish k) nows"
    and "schedule_all cfg nows k = (acts, k')"
  shows "published acts = (last (last_publish k # nows) - last_publish k) div publish_interval cfg"
proof -
  let ?now = "last (last_publish k # nows)" and ?i = "publish_interval cfg"
  have w: "last_publish k' \<le> ?now" "?now < last_publish k' + ?i"
    using publish_cadence_window [OF assms(1,3,2)] assms(1) by simp_all
  have a: "last_publish k' = last_publish k + published acts * ?i"
    by (rule last_publish_advances [OF assms(3)])
  have "(?now - last_publish k) div ?i = published acts"
    by (rule window_div [OF assms(1)]) (use w a in linarith)+
  then show ?thesis by simp
qed

text \<open>The same loop at 1 Hz, in half-second turns: it publishes at every other one.\<close>

definition sample_loop_config :: standalone_config where
  "sample_loop_config =
     \<lparr>loop_port = 9090, loop_publish_rate = 1, loop_session_timeout = 10, stats_enabled = False,
      topic_poll_interval = 0\<rparr>"

definition sample_clock :: loop_clock where
  "sample_clock = \<lparr>last_publish = 0, last_timeout_check = 0, last_stats_print = 0, last_topic_poll = 0\<rparr>"

lemma sample_interval: "publish_interval sample_loop_config = 1000000000"
  using to_double_of_int [of 1] to_double_of_int [of 1000000000]
  by (simp add: publish_interval_def duration_ns_def sample_loop_config_def Double_Arith.truncate_def)

theorem publish_cadence_exact_witness:
  "published (fst (schedule_all sample_loop_config [500000000, 1000000000, 1500000000, 2000000000] sample_clock)) = 2"
proof -
  let ?nows = "[500000000, 1000000000, 1500000000, 2000000000]"
  have "dense (publish_interval sample_loop_config) (last_publish sample_clock) ?nows"
    by (simp add: sample_interval sample_clock_def)
  from publish_cadence_exact [OF _ this surjective_pairing] show ?thesis
    by (simp add: sample_interval) (simp add: sample_clock_def)
qed

section \<open>Shutdown\<close>

lemma shutdown_empty:
  assumes "mw_wf m"
  shows "clients (shutdown m) = []" "pending_frames (shutdown m) = []" "\<not> is_ready (shutdown m)"
  using assms by (auto simp: shutdown_def mw_wf_def is_ready_def)

lemma dds_shutdown:
  assumes "server_reachable fastdds_ops new_fastdds_manager (new_middleware n tls_option w) cfg s"
  shows "fast_subscriptions (sm_unsubscribe_all (fastdds_ops g) (backend s)) = []"
proof -
  have "fastdds_wf (backend s)" using fastdds_server.reachable_references(4) [OF assms new_backends(2,3)] .
  from fastdds.unsubscribe_all_law [OF this, of g] show ?thesis
    by (intro ref_map_empty) (simp_all add: fastdds_wf_def fastdds_refs_def fun_eq_iff)
qed

lemma rti_shutdown:
  assumes "server_reachable rti_ops new_rti_manager (new_middleware n tls_option w) cfg s"
  shows "rti_subscriptions (sm_unsubscribe_all (rti_ops g) (backend s)) = []"
proof -
  have "rti_wf (backend s)" using rti_server.reachable_references(4) [OF assms new_backends(4,5)] .
  from rti.unsubscribe_all_law [OF this, of g] show ?thesis
    by (intro ref_map_empty) (simp_all add: rti_wf_def rti_refs_def fun_eq_iff)
qed

text \<open>
  C24. The standalone loop stops clean. However its turns went, whatever the connections did
  meanwhile, once the loop of a DDS backend has been asked to stop and returns, no DDS
  subscription is left, no client is connected or has frames waiting, and the middleware no
  longer accepts anything.
\<close>

theorem standalone_shutdown_clean:
  assumes "\<forall>w \<in> set turns. turn_uses fastdds_ops w" and "methods e = fastdds_ops g"
    and "run_standalone_event_loop l e lc start turns
           (new_server new_fastdds_manager (new_middleware backlog_bound tls_option watermark) cfg) = Stopped s"
    and "\<forall>w \<in> set turns'. turn_uses rti_ops w" and "methods e' = rti_ops g'"
    and "run_standalone_event_loop l' e' lc' start' turns'
           (new_server new_rti_manager (new_middleware backlog_bound tls_option watermark) cfg') = Stopped s'"
  shows "fast_subscriptions (backend s) = [] \<and> clients (mw s) = [] \<and> pending_frames (mw s) = [] \<and>
    \<not> is_ready (mw s) \<and>
    rti_subscriptions (backend s') = [] \<and> clients (mw s') = [] \<and> pending_frames (mw s') = [] \<and>
    \<not> is_ready (mw s')"
proof -
  have u: "uses fastdds_ops e" "uses rti_ops e'" using assms(2,5) by (auto simp: uses_def)
  obtain s0 where 1: "server_reachable fastdds_ops new_fastdds_manager
      (new_middleware backlog_bound tls_option watermark) cfg s0" "s = ordered_shutdown (methods e) s0"
    using run_reachable [OF assms(1) u(1)] assms(3) by (metis outcome_reachable_simps(4))
  obtain s0' where 2: "server_reachable rti_ops new_rti_manager
      (new_middleware backlog_bound tls_option watermark) cfg' s0'" "s' = ordered_shutdown (methods e') s0'"
    using run_reachable [OF assms(4) u(2)] assms(6) by (metis outcome_reachable_simps(4))
  have wf: "mw_wf (mw s0)" "mw_wf (mw s0')"
    using fastdds_server.good_mw_wf [OF fastdds_server.reachable_from_new [OF 1(1) new_backends(2,3)]]
      rti_server.good_mw_wf [OF rti_server.reachable_from_new [OF 2(1) new_backends(4,5)]] .
  show ?thesis
    using dds_shutdown [OF 1(1), of g] rti_shutdown [OF 2(1), of g'] shutdown_empty [OF wf(1)]
      shutdown_empty [OF wf(2)] assms(2,5) by (simp add: 1(2) 2(2) ordered_shutdown_def)
qed

text \<open>A run: a client connects and subscribes in the first turn, the second one stops.\<close>

definition sample_turn :: "'b sm_ops \<Rightarrow> bool \<Rightarrow> ('b, unit) turn" where
  "sample_turn ops stop =
     \<lparr>shutdown_requested = stop, turn_events = [Connected True ''c'', Received ''c'' False [1]],
      request_envs = (\<lambda>_. sample_env ops), turn_now = 0, action_env = (\<lambda>_. sample_env ops)\<rparr>"

lemma sample_turn_uses: "turn_uses ops (sample_turn (ops g) b)"
  by (auto simp: turn_uses_def sample_turn_def uses_def)

lemma sample_schedule: "fst (schedule sample_loop_config 0 sample_clock) = []"
  by (simp add: schedule_def due_def publish_due_def timeout_check_due_def topic_poll_due_def stats_due_def
      sample_interval second_def) (simp add: sample_clock_def sample_loop_config_def)

lemma sample_stops:
  assumes "sm_subscribe ops ''/a'' ''T'' b = (True, b')"
  shows "\<exists>s. run_standalone_event_loop plain_listener (sample_env ops) sample_loop_config sample_clock
      [sample_turn ops False, sample_turn ops True] (sample_new b) =
      Stopped (ordered_shutdown ops s) \<and> backend s = b'"
proof -
  let ?s1 = "snd (initialize plain_listener (sample_new b))"
  have i: "initialize plain_listener (sample_new b) = (True, ?s1)"
    by (simp add: sample_new_def new_server_def sample_config_def initialize_def mw_initialize_def
        plain_listener_def new_middleware_def set_on_disconnect_def Let_def)
  have e: "fold apply_event (turn_events (sample_turn ops False)) ?s1 = sample_asked [1] (sample_connected b)"
    by (simp add: sample_turn_def sample_asked_def sample_connected_def Let_def)
  have "process_requests (request_envs (sample_turn ops False)) (sample_asked [1] (sample_connected b)) =
      (Processed True, sample_subscribed ops b)"
  proof -
    have "kMaxRequestsPerCall = Suc (Suc 254)" by (simp add: kMaxRequestsPerCall_def)
    moreover have "initialized (sample_asked [1] (sample_connected b))"
      by (simp add: sample_asked_def sample_connected_state)
    ultimately show ?thesis
      using sample_subscribe_loop [OF assms, of 254] sample_subscribed_state [OF assms]
      by (simp add: process_requests_def sample_turn_def del: request_loop.simps)
  qed
  then have t: "\<exists>k. turn_step sample_loop_config (sample_turn ops False) sample_clock ?s1 =
      (False, k, sample_subscribed ops b)"
    using sample_schedule
    by (simp add: turn_step_def e case_prod_beta) (simp add: sample_turn_def)
  have stop: "shutdown_requested (sample_turn ops True)" "\<not> shutdown_requested (sample_turn ops False)"
    by (simp_all add: sample_turn_def)
  have poll: "\<not> topic_poll_interval sample_loop_config > 0" by (simp add: sample_loop_config_def)
  show ?thesis
  proof -
    define s1 where "s1 = ?s1"
    have "initialize plain_listener (sample_new b) = (True, s1)" using i by (simp add: s1_def)
    moreover obtain k where "turn_step sample_loop_config (sample_turn ops False) sample_clock s1 =
        (False, k, sample_subscribed ops b)" using t by (auto simp: s1_def)
    ultimately show ?thesis
      using stop poll
      by (intro exI [of _ "sample_subscribed ops b"])
        (simp add: run_standalone_event_loop_def sample_subscribed_state [OF assms])
  qed
qed

definition sample_dds :: dds_source where
  "sample_dds =
     \<lparr>topics = [(''/a'', \<lparr>type_name = ''T'', schema_idl = ''struct T {};'', topic_domain_id = 0\<rparr>)],
      participants = [0]\<rparr>"

definition sample_fastdds_view :: fastdds_view where
  "sample_fastdds_view = \<lparr>discovered = sample_dds, creation = \<lambda>_. Created\<rparr>"

definition sample_rti_view :: rti_view where
  "sample_rti_view = \<lparr>rti_discovered = sample_dds, rti_can_create = \<lambda>_. True\<rparr>"

lemma sample_dds_subscribe:
  "\<exists>b. sm_subscribe (fastdds_ops sample_fastdds_view) ''/a'' ''T'' new_fastdds_manager = (True, b) \<and>
     fast_subscriptions b \<noteq> []"
  "\<exists>b. sm_subscribe (rti_ops sample_rti_view) ''/a'' ''T'' new_rti_manager = (True, b) \<and>
     rti_subscriptions b \<noteq> []"
  by (simp_all add: fastdds_ops_def fastdds_subscribe_def fastdds_find_def fastdds_create_def
      new_fastdds_manager_def fastdds_make_def fastdds_insert_def fastdds_entity_defs sample_fastdds_view_def sample_dds_def
      fastdds_get_dynamic_type_def fastdds_get_domain_id_def fastdds_get_participant_def
      rti_ops_def rti_subscribe_def rti_find_def rti_create_def new_rti_manager_def sample_rti_view_def
      rti_get_type_def rti_get_domain_id_def rti_get_participant_def Let_def)

theorem standalone_shutdown_clean_witness:
  "\<exists>s s'. run_standalone_event_loop plain_listener (sample_env (fastdds_ops sample_fastdds_view))
      sample_loop_config sample_clock
      [sample_turn (fastdds_ops sample_fastdds_view) False, sample_turn (fastdds_ops sample_fastdds_view) True]
      (sample_new new_fastdds_manager) = Stopped s \<and> fast_subscriptions (backend s) = [] \<and>
    run_standalone_event_loop plain_listener (sample_env (rti_ops sample_rti_view))
      sample_loop_config sample_clock
      [sample_turn (rti_ops sample_rti_view) False, sample_turn (rti_ops sample_rti_view) True]
      (sample_new new_rti_manager) = Stopped s' \<and> clients (mw s') = []"
proof -
  obtain b b' where sub: "sm_subscribe (fastdds_ops sample_fastdds_view) ''/a'' ''T'' new_fastdds_manager = (True, b)"
      "sm_subscribe (rti_ops sample_rti_view) ''/a'' ''T'' new_rti_manager = (True, b')"
    using sample_dds_subscribe by blast
  have u: "\<forall>w \<in> set [sample_turn (fastdds_ops sample_fastdds_view) False, sample_turn (fastdds_ops sample_fastdds_view) True].
        turn_uses fastdds_ops w"
      "\<forall>w \<in> set [sample_turn (rti_ops sample_rti_view) False, sample_turn (rti_ops sample_rti_view) True].
        turn_uses rti_ops w"
    by (simp_all add: sample_turn_uses)
  note m = sample_env_simps(1) [of "fastdds_ops sample_fastdds_view"] sample_env_simps(1) [of "rti_ops sample_rti_view"]
  from sample_stops [OF sub(1)] sample_stops [OF sub(2)] obtain s s' where
    r: "run_standalone_event_loop plain_listener (sample_env (fastdds_ops sample_fastdds_view))
      sample_loop_config sample_clock
      [sample_turn (fastdds_ops sample_fastdds_view) False, sample_turn (fastdds_ops sample_fastdds_view) True]
      (sample_new new_fastdds_manager) = Stopped s"
    "run_standalone_event_loop plain_listener (sample_env (rti_ops sample_rti_view))
      sample_loop_config sample_clock
      [sample_turn (rti_ops sample_rti_view) False, sample_turn (rti_ops sample_rti_view) True]
      (sample_new new_rti_manager) = Stopped s'" by blast
  from standalone_shutdown_clean [OF u(1) m(1) r(1) [unfolded sample_new_def] u(2) m(2) r(2) [unfolded sample_new_def]] r
  show ?thesis by blast
qed

end
