(* ===== verification/Startup.thy ===== *)
theory Startup
  imports Event_Loop_Claims
begin

text \<open>
  The entry points: \<^verbatim>\<open>src/ros2/src/main.cpp\<close> and the two \<^verbatim>\<open>main.cpp\<close> of the DDS backends. The
  parameters or options are values of the model, already read by rclcpp or parsed by CLI11;
  what follows is their validation, the construction of the objects, and for ROS 2 the timers
  that drive the server. Log lines are left out.
\<close>

section \<open>ROS 2: parameters\<close>

record ros2_parameters =
  p_port :: int
  p_publish_rate :: rat
  p_session_timeout :: rat
  p_strip_large_messages :: bool
  p_topic_whitelist :: "string list"
  p_min_qos_depth :: int
  p_ingest_poll_interval_ms :: rat
  p_max_qos_depth :: int
  p_topic_poll_interval :: rat
  p_client_backlog_size :: int
  p_heavy_frame_threshold_bytes :: int
  p_tls :: bool
  p_certfile :: string
  p_keyfile :: string

definition default_parameters :: ros2_parameters where
  "default_parameters =
     \<lparr>p_port = 9090, p_publish_rate = 50, p_session_timeout = 10, p_strip_large_messages = False,
      p_topic_whitelist = [''.*''], p_min_qos_depth = 10, p_ingest_poll_interval_ms = 5,
      p_max_qos_depth = 100, p_topic_poll_interval = 1, p_client_backlog_size = 100,
      p_heavy_frame_threshold_bytes = 262144, p_tls = False, p_certfile = [], p_keyfile = []\<rparr>"

text \<open>\<^verbatim>\<open>int port = ... as_int()\<close>: the 64-bit parameter is narrowed to 32 bits.\<close>

definition narrowed_port :: "ros2_parameters \<Rightarrow> int" where
  "narrowed_port p = sint (of_int (p_port p) :: 32 word)"

datatype startup_error =
  Tls_Needs_Files | Bad_Topic_Poll_Interval | Bad_Ingest_Poll_Interval | Bad_Backlog_Size
| Bad_Heavy_Threshold | Bad_Whitelist string | Bad_Qos_Depth

definition ros2_validate ::
    "'re regex_compiler \<Rightarrow> ros2_parameters \<Rightarrow> startup_error + 're whitelist_filter" where
  "ros2_validate regex p =
     (if p_tls p \<and> (p_certfile p = [] \<or> p_keyfile p = []) then Inl Tls_Needs_Files
      else if p_topic_poll_interval p < 0 then Inl Bad_Topic_Poll_Interval
      else if p_ingest_poll_interval_ms p < 0 then Inl Bad_Ingest_Poll_Interval
      else if p_client_backlog_size p \<le> 0 then Inl Bad_Backlog_Size
      else if p_heavy_frame_threshold_bytes p < 0 then Inl Bad_Heavy_Threshold
      else case create regex (p_topic_whitelist p) of
             Inl err \<Rightarrow> Inl (Bad_Whitelist err)
           | Inr w \<Rightarrow>
               if p_min_qos_depth p < 0 \<or> p_max_qos_depth p < 0 \<or> p_min_qos_depth p > p_max_qos_depth p
               then Inl Bad_Qos_Depth else Inr w)"

text \<open>The objects that the entry point constructs from valid parameters.\<close>

definition ros2_objects :: "ros2_parameters \<Rightarrow> 're whitelist_filter \<Rightarrow> (ros2_manager, 're) server" where
  "ros2_objects p w =
     new_server
       (new_ros2_manager (p_strip_large_messages p) (of_int (p_min_qos_depth p)) (of_int (p_max_qos_depth p)))
       (new_middleware (nat (p_client_backlog_size p))
          (if p_tls p then Some \<lparr>certfile = p_certfile p, keyfile = p_keyfile p\<rparr> else None)
          kSocketBufferHighWatermark)
       \<lparr>cfg_port = narrowed_port p, cfg_session_timeout = p_session_timeout p,
        cfg_publish_rate = p_publish_rate p, cfg_whitelist = w,
        cfg_heavy_threshold = nat (p_heavy_frame_threshold_bytes p)\<rparr>"

section \<open>ROS 2: timers\<close>

text \<open>
  The timers share one group, so their callbacks exclude each other; which one fires when is
  up to the executor. Subscription callbacks and connections run beside them.
\<close>

datatype ros2_timer = Request_Timer | Periodic action

record ('b, 're) firing =
  fired :: ros2_timer
  firing_events :: "('b, 're) event list"
  firing_requests :: "nat \<Rightarrow> ('b, 're) env"
  firing_env :: "('b, 're) env"

definition fire :: "('b, 're) firing \<Rightarrow> ('b, 're) server \<Rightarrow> bool \<times> ('b, 're) server" where
  "fire f s =
     (let s1 = fold apply_event (firing_events f) s
      in case fired f of
           Request_Timer \<Rightarrow>
             (case process_requests (firing_requests f) s1 of (r, s2) \<Rightarrow> (r = Escaped, s2))
         | Periodic a \<Rightarrow> perform (firing_env f) a s1)"

text \<open>An exception of a callback ends the timer thread and shuts rclcpp down.\<close>

fun fire_all :: "('b, 're) firing list \<Rightarrow> ('b, 're) server \<Rightarrow> ('b, 're) server" where
  "fire_all [] s = s"
| "fire_all (f # fs) s = (case fire f s of (True, s1) \<Rightarrow> s1 | (False, s1) \<Rightarrow> fire_all fs s1)"

text \<open>The destructor of the server.\<close>

definition destroy_server :: "('b, 're) server \<Rightarrow> ('b, 're) server" where
  "destroy_server s = s\<lparr>mw := shutdown (mw s)\<rparr>"

text \<open>
  The whole program: its exit code and what became of the server, if it got that far. The
  constructors are assumed not to throw.
\<close>

definition ros2_main ::
    "'re regex_compiler \<Rightarrow> ros2_parameters \<Rightarrow> listener \<Rightarrow> (ros2_manager, 're) env \<Rightarrow>
     (ros2_manager, 're) firing list \<Rightarrow> nat \<times> (ros2_manager, 're) server option" where
  "ros2_main regex p l e firings =
     (case ros2_validate regex p of
        Inl _ \<Rightarrow> (1, None)
      | Inr w \<Rightarrow>
          (case initialize l (ros2_objects p w) of
             (False, s) \<Rightarrow> (1, Some (destroy_server s))
           | (True, s) \<Rightarrow>
               (case (if p_topic_poll_interval p > 0 then check_topic_changes e s else (False, s)) of
                  (True, s1) \<Rightarrow> (1, Some (destroy_server s1))
                | (False, s1) \<Rightarrow>
                    let s2 = fire_all firings s1
                    in (0, Some (destroy_server (s2\<lparr>backend := sm_unsubscribe_all (methods e) (backend s2)\<rparr>))))))"

section \<open>DDS: options\<close>

record dds_options =
  o_domains :: "int list"
  o_port :: int
  o_publish_rate :: rat
  o_session_timeout :: rat
  o_stats :: bool
  o_topic_whitelist :: "string list"
  o_topic_poll_interval :: rat
  o_client_backlog_size :: int
  o_heavy_frame_threshold_bytes :: int
  o_certfile :: string
  o_keyfile :: string

text \<open>
  What the option declarations promise of parsed options: the ranges, and at least one domain.
\<close>

definition parsed_by_cli11 :: "dds_options \<Rightarrow> bool" where
  "parsed_by_cli11 x =
     (o_domains x \<noteq> [] \<and> 1 \<le> o_port x \<and> o_port x \<le> 65535 \<and>
      1 \<le> o_client_backlog_size x \<and> o_client_backlog_size x \<le> 1000000 \<and>
      0 \<le> o_heavy_frame_threshold_bytes x \<and> o_heavy_frame_threshold_bytes x \<le> 1000000000)"

definition dds_validate :: "'re regex_compiler \<Rightarrow> dds_options \<Rightarrow> startup_error + 're whitelist_filter" where
  "dds_validate regex x =
     (case create regex (o_topic_whitelist x) of
        Inl err \<Rightarrow> Inl (Bad_Whitelist err)
      | Inr w \<Rightarrow> if o_topic_poll_interval x < 0 then Inl Bad_Topic_Poll_Interval else Inr w)"

definition dds_objects :: "'b \<Rightarrow> dds_options \<Rightarrow> 're whitelist_filter \<Rightarrow> ('b, 're) server" where
  "dds_objects b x w =
     new_server b
       (new_middleware (nat (o_client_backlog_size x))
          (if o_certfile x \<noteq> [] then Some \<lparr>certfile = o_certfile x, keyfile = o_keyfile x\<rparr> else None)
          kSocketBufferHighWatermark)
       \<lparr>cfg_port = o_port x, cfg_session_timeout = o_session_timeout x,
        cfg_publish_rate = o_publish_rate x, cfg_whitelist = w,
        cfg_heavy_threshold = nat (o_heavy_frame_threshold_bytes x)\<rparr>"

definition dds_loop_config :: "dds_options \<Rightarrow> standalone_config" where
  "dds_loop_config x =
     \<lparr>loop_port = o_port x, loop_publish_rate = o_publish_rate x, loop_session_timeout = o_session_timeout x,
      stats_enabled = o_stats x, topic_poll_interval = o_topic_poll_interval x\<rparr>"

text \<open>
  The program of a DDS backend, \<open>None\<close> if a constructor of its topic source or manager throws.
  The loop returns nothing, so a server that could not start ends the program with exit code 0
  too; only an exception makes it 1. The result \<open>None\<close> is a run that the turns given do not end.
\<close>

definition dds_main ::
    "'re regex_compiler \<Rightarrow> 'b option \<Rightarrow> dds_options \<Rightarrow> listener \<Rightarrow> ('b, 're) env \<Rightarrow> loop_clock \<Rightarrow>
     ('b, 're) turn list \<Rightarrow> (nat \<times> ('b, 're) server option) option" where
  "dds_main regex made x l e start turns =
     (case (dds_validate regex x, made) of
        (Inl _, _) \<Rightarrow> Some (1, None)
      | (Inr w, None) \<Rightarrow> Some (1, None)
      | (Inr w, Some b) \<Rightarrow>
          (case run_standalone_event_loop l e (dds_loop_config x) start turns (dds_objects b x w) of
             Running _ _ \<Rightarrow> None
           | Crashed s \<Rightarrow> Some (1, Some (destroy_server s))
           | Not_Started s \<Rightarrow> Some (0, Some (destroy_server s))
           | Stopped s \<Rightarrow> Some (0, Some (destroy_server s))))"

definition fastdds_main ::
    "'re regex_compiler \<Rightarrow> bool \<Rightarrow> dds_options \<Rightarrow> listener \<Rightarrow> (fastdds_manager, 're) env \<Rightarrow> loop_clock \<Rightarrow>
     (fastdds_manager, 're) turn list \<Rightarrow> (nat \<times> (fastdds_manager, 're) server option) option" where
  "fastdds_main regex constructed = dds_main regex (if constructed then Some new_fastdds_manager else None)"

definition rti_main ::
    "'re regex_compiler \<Rightarrow> bool \<Rightarrow> dds_options \<Rightarrow> listener \<Rightarrow> (rti_manager, 're) env \<Rightarrow> loop_clock \<Rightarrow>
     (rti_manager, 're) turn list \<Rightarrow> (nat \<times> (rti_manager, 're) server option) option" where
  "rti_main regex constructed = dds_main regex (if constructed then Some new_rti_manager else None)"

section \<open>Properties\<close>

text \<open>What the checks of the ROS 2 entry point amount to.\<close>

definition valid_parameters :: "'re regex_compiler \<Rightarrow> ros2_parameters \<Rightarrow> bool" where
  "valid_parameters regex p =
     ((p_tls p \<longrightarrow> p_certfile p \<noteq> [] \<and> p_keyfile p \<noteq> []) \<and>
      0 \<le> p_topic_poll_interval p \<and> 0 \<le> p_ingest_poll_interval_ms p \<and> 0 < p_client_backlog_size p \<and>
      0 \<le> p_heavy_frame_threshold_bytes p \<and> list_all (\<lambda>q. \<exists>re. regex q = Inr re) (p_topic_whitelist p) \<and>
      0 \<le> p_min_qos_depth p \<and> p_min_qos_depth p \<le> p_max_qos_depth p)"

lemma create_ok_iff: "(\<exists>w. create regex ps = Inr w) \<longleftrightarrow> list_all (\<lambda>q. \<exists>re. regex q = Inr re) ps"
  using first_error_None [of regex ps]
  by (auto simp: create_def create_loop_cases list_all_iff split: option.splits)

lemma ros2_validate_iff: "(\<exists>w. ros2_validate regex p = Inr w) \<longleftrightarrow> valid_parameters regex p"
  unfolding ros2_validate_def valid_parameters_def create_ok_iff [symmetric]
  by (auto split: sum.splits)

definition firing_uses :: "('g \<Rightarrow> 'b sm_ops) \<Rightarrow> ('b, 're) firing \<Rightarrow> bool" where
  "firing_uses ops f =
     (list_all (event_uses ops) (firing_events f) \<and> (\<forall>i. uses ops (firing_requests f i)) \<and>
      uses ops (firing_env f))"

lemma fire_reachable:
  assumes "server_reachable ops b m cfg s" "firing_uses ops f"
  shows "server_reachable ops b m cfg (snd (fire f s))"
proof -
  let ?s1 = "fold apply_event (firing_events f) s"
  have 1: "server_reachable ops b m cfg ?s1"
    using assms by (intro events_reachable) (simp_all add: firing_uses_def)
  show ?thesis
  proof (cases "fired f")
    case Request_Timer
    then show ?thesis
      using reachable_step [OF 1 env_step.requests, of "firing_requests f"] assms(2)
      by (simp add: fire_def case_prod_beta firing_uses_def Let_def)
  next
    case (Periodic a)
    then show ?thesis
      using perform_reachable [OF 1, of "firing_env f" a] assms(2) by (simp add: fire_def firing_uses_def Let_def)
  qed
qed

lemma fire_all_reachable:
  "server_reachable ops b m cfg s \<Longrightarrow> \<forall>f \<in> set fs. firing_uses ops f \<Longrightarrow>
     server_reachable ops b m cfg (fire_all fs s)"
proof (induction fs arbitrary: s)
  case (Cons f fs)
  obtain x s1 where f: "fire f s = (x, s1)" by fastforce
  have "server_reachable ops b m cfg s1"
    using fire_reachable [OF Cons.prems(1), of f] Cons.prems(2) f by simp
  with Cons f show ?case by (cases x) simp_all
qed simp

lemma initialize_valid:
  assumes "initialize l s = (True, s')" "\<not> initialized s"
  shows "0 < publish_rate s \<and> 1 \<le> port s \<and> port s \<le> 65535"
  using assms by (auto simp: initialize_def split: if_splits)

lemma ros2_closed:
  assumes "server_reachable ros2_ops (new_ros2_manager strip lo hi) (new_middleware n tls_option w) cfg s"
  shows "clients (mw (destroy_server s)) = []" "\<not> is_ready (mw (destroy_server s))"
    "subscriptions (sm_unsubscribe_all (ros2_ops g) (backend s)) = []"
proof -
  note good = ros2_server.reachable_from_new [OF assms new_ros2_manager_simps(1) new_backends(1)]
  show "clients (mw (destroy_server s)) = []" "\<not> is_ready (mw (destroy_server s))"
    using shutdown_empty [OF ros2_server.good_mw_wf [OF good]] by (simp_all add: destroy_server_def)
  from ros2.unsubscribe_all_law [OF ros2_reachable(4) [OF assms], of g]
  show "subscriptions (sm_unsubscribe_all (ros2_ops g) (backend s)) = []"
    by (intro ref_map_empty) (simp_all add: ros2_wf_def ros2_refs_ref_of fun_eq_iff)
qed

text \<open>
  C29. How the ROS 2 program ends. It builds a server exactly when its parameters are valid;
  otherwise it returns 1 and none was built. A server that was built is closed in the end: no
  client is connected and the middleware is not ready. If the exit code is 0, the publish rate
  was positive, the port as narrowed was a TCP port, and no ROS subscription is left.
\<close>

theorem ros2_main_outcome:
  assumes "methods e = ros2_ops g" and "\<forall>f \<in> set firings. firing_uses ros2_ops f"
    and "ros2_main regex p l e firings = (code, outcome)"
  shows "(outcome = None) = (\<not> valid_parameters regex p) \<and>
    (case outcome of
       None \<Rightarrow> code = 1
     | Some s \<Rightarrow> clients (mw s) = [] \<and> \<not> is_ready (mw s) \<and>
         (code = 0 \<longrightarrow> 0 < p_publish_rate p \<and> 1 \<le> narrowed_port p \<and> narrowed_port p \<le> 65535 \<and>
            subscriptions (backend s) = []))"
proof (cases "ros2_validate regex p")
  case (Inl err)
  then have "\<not> valid_parameters regex p" using ros2_validate_iff [of regex p] by simp
  with Inl assms(3) show ?thesis by (auto simp: ros2_main_def)
next
  case (Inr w)
  then have valid: "valid_parameters regex p" using ros2_validate_iff [of regex p] by simp
  have u: "uses ros2_ops e" using assms(1) by (auto simp: uses_def)
  let ?reach = "server_reachable ros2_ops
      (new_ros2_manager (p_strip_large_messages p) (of_int (p_min_qos_depth p)) (of_int (p_max_qos_depth p)))
      (new_middleware (nat (p_client_backlog_size p))
         (if p_tls p then Some \<lparr>certfile = p_certfile p, keyfile = p_keyfile p\<rparr> else None)
         kSocketBufferHighWatermark)
      \<lparr>cfg_port = narrowed_port p, cfg_session_timeout = p_session_timeout p,
       cfg_publish_rate = p_publish_rate p, cfg_whitelist = w,
       cfg_heavy_threshold = nat (p_heavy_frame_threshold_bytes p)\<rparr>"
  have new: "?reach (ros2_objects p w)" by (simp add: server_reachable_def ros2_objects_def)
  obtain ok s where i: "initialize l (ros2_objects p w) = (ok, s)" by fastforce
  have 1: "?reach s" using reachable_step [OF new env_step.initialize, of l] i by simp
  obtain x s1 where c: "(if p_topic_poll_interval p > 0 then check_topic_changes e s else (False, s)) = (x, s1)"
    by fastforce
  have 2: "?reach s1" using reachable_step [OF 1 env_step.topics [where ok = "uses ros2_ops", OF u]] 1 c by (auto split: if_splits)
  have 3: "?reach (fire_all firings s1)" by (rule fire_all_reachable [OF 2 assms(2)])
  note closed = ros2_closed [OF 1] ros2_closed [OF 2] ros2_closed [OF 3]
  show ?thesis
  proof (cases ok)
    case False
    with Inr i assms(3) valid closed(1,2) show ?thesis by (auto simp: ros2_main_def)
  next
    case True
    have "0 < p_publish_rate p \<and> 1 \<le> narrowed_port p \<and> narrowed_port p \<le> 65535"
      using initialize_valid [of l "ros2_objects p w" s] i True by (simp add: ros2_objects_def new_server_def)
    moreover have "(code, outcome) = (if x then (1, Some (destroy_server s1))
        else (0, Some (destroy_server (fire_all firings s1
               \<lparr>backend := sm_unsubscribe_all (methods e) (backend (fire_all firings s1))\<rparr>))))"
      using Inr i True assms(3) c by (simp add: ros2_main_def Let_def split: bool.splits)
    ultimately show ?thesis
      using valid closed assms(1) by (cases x) (simp_all add: destroy_server_def)
  qed
qed

text \<open>The default parameters, a client that subscribes, and a publish before the end.\<close>

definition sample_firings :: "(ros2_manager, unit) firing list" where
  "sample_firings =
     [\<lparr>fired = Request_Timer, firing_events = [Connected True ''c'', Received ''c'' False [1]],
       firing_requests = (\<lambda>_. sample_ros_env), firing_env = sample_ros_env\<rparr>,
      \<lparr>fired = Periodic Publish, firing_events = [], firing_requests = (\<lambda>_. sample_ros_env),
       firing_env = sample_ros_env\<rparr>]"

theorem ros2_main_outcome_witness:
  "\<exists>s. ros2_main (\<lambda>_. Inr ()) default_parameters plain_listener sample_ros_env sample_firings = (0, Some s) \<and>
     subscriptions (backend s) = [] \<and> clients (mw s) = []"
proof -
  have f: "\<forall>f \<in> set sample_firings. firing_uses ros2_ops f"
    by (auto simp: sample_firings_def firing_uses_def sample_ros_env_uses)
  have v: "valid_parameters (\<lambda>_. Inr ()) default_parameters"
    by (simp add: valid_parameters_def default_parameters_def)
  note x = ros2_main_outcome [OF sample_env_simps(1) [of "ros2_ops sample_graph"] f surjective_pairing,
      of "\<lambda>_. Inr ()" default_parameters plain_listener]
  have n: "narrowed_port default_parameters = 9090"
    by (simp add: narrowed_port_def default_parameters_def)
  obtain w where w: "ros2_validate (\<lambda>_. Inr ()) default_parameters = Inr w" using v ros2_validate_iff by blast
  have i: "fst (initialize plain_listener (ros2_objects default_parameters w))"
    by (simp add: ros2_objects_def new_server_def initialize_def n mw_initialize_def plain_listener_def
        new_middleware_def set_on_disconnect_def Let_def)
      (simp add: default_parameters_def)
  have t: "\<not> topics_snapshot_taken (snd (initialize plain_listener (ros2_objects default_parameters w)))"
    by (simp add: ros2_objects_def new_server_def initialize_def Let_def split: prod.splits sum.splits)
  have c: "\<not> fst (check_topic_changes sample_ros_env (snd (initialize plain_listener (ros2_objects default_parameters w))))"
    using t by (simp add: check_topic_changes_def Let_def)
  have "fst (ros2_main (\<lambda>_. Inr ()) default_parameters plain_listener sample_ros_env sample_firings) = 0"
    using i c
    by (cases "initialize plain_listener (ros2_objects default_parameters w)"; cases "check_topic_changes sample_ros_env
          (snd (initialize plain_listener (ros2_objects default_parameters w)))")
       (auto simp: ros2_main_def w Let_def)
  with x v show ?thesis
    by (cases "ros2_main (\<lambda>_. Inr ()) default_parameters plain_listener sample_ros_env sample_firings")
       (auto split: option.splits)
qed

section \<open>Two consequences\<close>

text \<open>A DDS program whose server could not start exits with 0, as after a clean run.\<close>

theorem dds_exit_zero_without_server:
  assumes "dds_validate regex x = Inr w" and "initialize l (dds_objects b x w) = (False, s)"
  shows "dds_main regex (Some b) x l e start turns = Some (0, Some (destroy_server s))"
  using assms by (simp add: dds_main_def run_standalone_event_loop_def)

text \<open>The ROS 2 program takes a port parameter beyond 32 bits for the port that is left of it.\<close>

theorem port_parameter_wraps:
  "narrowed_port (p\<lparr>p_port := 4294976386\<rparr>) = 9090 \<and> narrowed_port (p\<lparr>p_port := 9090\<rparr>) = 9090"
  by (simp add: narrowed_port_def)

end
