(* ===== verification/Command_Line.thy ===== *)
theory Command_Line
  imports Startup Confinement
begin

text \<open>
  The command lines of the two DDS programs. CLI11 is not part of the repository: the parser is
  a parameter, a function from the option declarations and the arguments to an exit code or the
  values given. What the programs rely on is a predicate about the parser: what it accepts
  satisfies the declarations. The declarations themselves are data here, as in the two
  \<^verbatim>\<open>main\<close> functions.
\<close>

section \<open>Declarations\<close>

datatype cli_value =
  Cli_Int int | Cli_Double rat | Cli_Text string | Cli_Flag bool | Cli_Ints "int list" | Cli_Texts "string list"

text \<open>
  A declared option: its long name, the variable's value before parsing, and what is chained to
  the declaration: \<^verbatim>\<open>required\<close>, the \<^verbatim>\<open>CLI::Range\<close> check, and \<^verbatim>\<open>needs\<close>.
\<close>

record cli_option =
  option_name :: string
  initial_value :: cli_value
  option_required :: bool
  option_range :: "(int \<times> int) option"
  option_needs :: "string list"

definition plain_option :: "string \<Rightarrow> cli_value \<Rightarrow> cli_option" where
  "plain_option n v =
     \<lparr>option_name = n, initial_value = v, option_required = False, option_range = None, option_needs = []\<rparr>"

definition ranged_option :: "string \<Rightarrow> int \<Rightarrow> int \<times> int \<Rightarrow> cli_option" where
  "ranged_option n i r = (plain_option n (Cli_Int i))\<lparr>option_range := Some r\<rparr>"

definition fastdds_declarations :: "cli_option list" where
  "fastdds_declarations =
     [(plain_option ''--domains'' (Cli_Ints []))\<lparr>option_required := True\<rparr>,
      ranged_option ''--port'' 9090 (1, 65535),
      plain_option ''--publish-rate'' (Cli_Double 50),
      plain_option ''--session-timeout'' (Cli_Double 10),
      plain_option ''--log-level'' (Cli_Text ''info''),
      plain_option ''--stats'' (Cli_Flag False),
      plain_option ''--topic-poll-interval'' (Cli_Double 1),
      ranged_option ''--client-backlog-size'' 100 (1, 1000000),
      ranged_option ''--heavy-frame-threshold-bytes'' 262144 (0, 1000000000),
      plain_option ''--topic-whitelist'' (Cli_Texts [''.*'']),
      (plain_option ''--certfile'' (Cli_Text []))\<lparr>option_needs := [''--keyfile'']\<rparr>,
      (plain_option ''--keyfile'' (Cli_Text []))\<lparr>option_needs := [''--certfile'']\<rparr>]"

definition rti_declarations :: "cli_option list" where
  "rti_declarations =
     [(plain_option ''--domains'' (Cli_Ints []))\<lparr>option_required := True\<rparr>,
      ranged_option ''--port'' 9090 (1, 65535),
      plain_option ''--publish-rate'' (Cli_Double 50),
      plain_option ''--session-timeout'' (Cli_Double 10),
      plain_option ''--qos-profile'' (Cli_Text []),
      plain_option ''--log-level'' (Cli_Text ''info''),
      plain_option ''--stats'' (Cli_Flag False),
      plain_option ''--topic-poll-interval'' (Cli_Double 1),
      ranged_option ''--client-backlog-size'' 100 (1, 1000000),
      ranged_option ''--heavy-frame-threshold-bytes'' 262144 (0, 1000000000),
      plain_option ''--topic-whitelist'' (Cli_Texts [''.*'']),
      (plain_option ''--certfile'' (Cli_Text []))\<lparr>option_needs := [''--keyfile'']\<rparr>,
      (plain_option ''--keyfile'' (Cli_Text []))\<lparr>option_needs := [''--certfile'']\<rparr>]"

section \<open>The parser\<close>

type_synonym cli_parser = "cli_option list \<Rightarrow> string list \<Rightarrow> nat + (string \<times> cli_value) list"

fun same_kind :: "cli_value \<Rightarrow> cli_value \<Rightarrow> bool" where
  "same_kind (Cli_Int i) (Cli_Int j) = True"
| "same_kind (Cli_Double x) (Cli_Double y) = True"
| "same_kind (Cli_Text s) (Cli_Text t) = True"
| "same_kind (Cli_Flag a) (Cli_Flag b) = True"
| "same_kind (Cli_Ints xs) (Cli_Ints ys) = (xs \<noteq> [])"
| "same_kind (Cli_Texts xs) (Cli_Texts ys) = (xs \<noteq> [])"
| "same_kind v w = False"

fun in_range :: "(int \<times> int) option \<Rightarrow> cli_value \<Rightarrow> bool" where
  "in_range (Some (lo, hi)) (Cli_Int i) = (lo \<le> i \<and> i \<le> hi)"
| "in_range r v = True"

text \<open>The values given on a command line respect one declaration.\<close>

definition obeyed :: "(string \<times> cli_value) list \<Rightarrow> cli_option \<Rightarrow> bool" where
  "obeyed given d =
     (case map_of given (option_name d) of
        None \<Rightarrow> \<not> option_required d
      | Some v \<Rightarrow>
          same_kind v (initial_value d) \<and> in_range (option_range d) v \<and>
          list_all (\<lambda>n. map_of given n \<noteq> None) (option_needs d))"

text \<open>CLI11 documents that what it accepts respects every declaration.\<close>

definition cli11 :: "cli_parser \<Rightarrow> bool" where
  "cli11 cli = (\<forall>decls args given. cli decls args = Inr given \<longrightarrow> list_all (obeyed given) decls)"

section \<open>The programs\<close>

text \<open>The variable of an option after parsing: what was given, or its value before.\<close>

definition value_of :: "cli_option list \<Rightarrow> (string \<times> cli_value) list \<Rightarrow> string \<Rightarrow> cli_value" where
  "value_of decls given n =
     (case map_of given n of
        Some v \<Rightarrow> v
      | None \<Rightarrow>
          (case map_of (map (\<lambda>d. (option_name d, initial_value d)) decls) n of
             Some v \<Rightarrow> v | None \<Rightarrow> Cli_Flag False))"

fun as_int :: "cli_value \<Rightarrow> int" where
  "as_int (Cli_Int i) = i" | "as_int v = 0"

fun as_double :: "cli_value \<Rightarrow> rat" where
  "as_double (Cli_Double x) = x" | "as_double v = 0"

fun as_text :: "cli_value \<Rightarrow> string" where
  "as_text (Cli_Text s) = s" | "as_text v = []"

fun as_flag :: "cli_value \<Rightarrow> bool" where
  "as_flag (Cli_Flag b) = b" | "as_flag v = False"

fun as_ints :: "cli_value \<Rightarrow> int list" where
  "as_ints (Cli_Ints xs) = xs" | "as_ints v = []"

fun as_texts :: "cli_value \<Rightarrow> string list" where
  "as_texts (Cli_Texts xs) = xs" | "as_texts v = []"

definition parsed_options :: "cli_option list \<Rightarrow> (string \<times> cli_value) list \<Rightarrow> dds_options" where
  "parsed_options decls given =
     (let v = value_of decls given
      in \<lparr>o_domains = as_ints (v ''--domains''), o_port = as_int (v ''--port''),
          o_publish_rate = as_double (v ''--publish-rate''),
          o_session_timeout = as_double (v ''--session-timeout''), o_stats = as_flag (v ''--stats''),
          o_topic_whitelist = as_texts (v ''--topic-whitelist''),
          o_topic_poll_interval = as_double (v ''--topic-poll-interval''),
          o_client_backlog_size = as_int (v ''--client-backlog-size''),
          o_heavy_frame_threshold_bytes = as_int (v ''--heavy-frame-threshold-bytes''),
          o_certfile = as_text (v ''--certfile''), o_keyfile = as_text (v ''--keyfile'')\<rparr>)"

text \<open>
  \<^verbatim>\<open>main\<close>: \<^verbatim>\<open>CLI11_PARSE\<close> returns the parser's exit code, for an error or for a
  request for help. Whether the constructors succeed depends on what they are given.
\<close>

definition fastdds_program ::
    "'re regex_compiler \<Rightarrow> (int list \<Rightarrow> bool) \<Rightarrow> cli_parser \<Rightarrow> string list \<Rightarrow> listener \<Rightarrow>
     (fastdds_manager, 're) env \<Rightarrow> loop_clock \<Rightarrow> (fastdds_manager, 're) turn list \<Rightarrow>
     (nat \<times> (fastdds_manager, 're) server option) option" where
  "fastdds_program regex constructed cli args l e start turns =
     (case cli fastdds_declarations args of
        Inl code \<Rightarrow> Some (code, None)
      | Inr given \<Rightarrow>
          let x = parsed_options fastdds_declarations given
          in fastdds_main regex (constructed (o_domains x)) x l e start turns)"

definition rti_program ::
    "'re regex_compiler \<Rightarrow> (int list \<Rightarrow> string \<Rightarrow> bool) \<Rightarrow> cli_parser \<Rightarrow> string list \<Rightarrow> listener \<Rightarrow>
     (rti_manager, 're) env \<Rightarrow> loop_clock \<Rightarrow> (rti_manager, 're) turn list \<Rightarrow>
     (nat \<times> (rti_manager, 're) server option) option" where
  "rti_program regex constructed cli args l e start turns =
     (case cli rti_declarations args of
        Inl code \<Rightarrow> Some (code, None)
      | Inr given \<Rightarrow>
          let x = parsed_options rti_declarations given;
              qos_profile = as_text (value_of rti_declarations given ''--qos-profile'')
          in rti_main regex (constructed (o_domains x) qos_profile) x l e start turns)"

section \<open>Lemmas\<close>

lemmas declaration_simps = plain_option_def ranged_option_def

abbreviation declared :: "cli_option list \<Rightarrow> string \<Rightarrow> cli_value option" where
  "declared decls \<equiv> map_of (map (\<lambda>d. (option_name d, initial_value d)) decls)"

lemma obeyed_int:
  assumes "obeyed given (ranged_option n i (lo, hi))" "declared decls n = Some (Cli_Int i)" "lo \<le> i" "i \<le> hi"
  shows "lo \<le> as_int (value_of decls given n) \<and> as_int (value_of decls given n) \<le> hi"
proof (cases "map_of given n")
  case None
  with assms(2-4) show ?thesis by (simp add: value_of_def)
next
  case (Some v)
  with assms(1) show ?thesis by (cases v) (simp_all add: value_of_def obeyed_def declaration_simps)
qed

lemma obeyed_domains:
  assumes "obeyed given ((plain_option n (Cli_Ints []))\<lparr>option_required := True\<rparr>)"
  shows "as_ints (value_of decls given n) \<noteq> []"
proof -
  from assms obtain v where "map_of given n = Some v" "same_kind v (Cli_Ints [])"
    by (auto simp: obeyed_def declaration_simps split: option.splits)
  then show ?thesis by (cases v) (simp_all add: value_of_def)
qed

lemma obeyed_needs:
  assumes "obeyed given ((plain_option n (Cli_Text []))\<lparr>option_needs := [k]\<rparr>)" "declared decls n = Some (Cli_Text [])"
    "as_text (value_of decls given n) \<noteq> []"
  shows "map_of given k \<noteq> None"
  using assms by (cases "map_of given n") (simp_all add: value_of_def obeyed_def declaration_simps)

lemma parsed_ok:
  assumes "list_all (obeyed given) decls" and decls: "decls = fastdds_declarations \<or> decls = rti_declarations"
  defines "x \<equiv> parsed_options decls given"
  shows "parsed_by_cli11 x" and "o_certfile x \<noteq> [] \<Longrightarrow> map_of given ''--keyfile'' \<noteq> None"
proof -
  have d: "obeyed given ((plain_option ''--domains'' (Cli_Ints []))\<lparr>option_required := True\<rparr>)"
      "obeyed given (ranged_option ''--port'' 9090 (1, 65535))"
      "obeyed given (ranged_option ''--client-backlog-size'' 100 (1, 1000000))"
      "obeyed given (ranged_option ''--heavy-frame-threshold-bytes'' 262144 (0, 1000000000))"
      "obeyed given ((plain_option ''--certfile'' (Cli_Text []))\<lparr>option_needs := [''--keyfile'']\<rparr>)"
    using assms(1,2) by (elim disjE; simp add: fastdds_declarations_def rti_declarations_def)+
  have n: "declared decls ''--port'' = Some (Cli_Int 9090)" "declared decls ''--client-backlog-size'' = Some (Cli_Int 100)"
      "declared decls ''--heavy-frame-threshold-bytes'' = Some (Cli_Int 262144)"
      "declared decls ''--certfile'' = Some (Cli_Text [])"
    using decls by (elim disjE; simp add: fastdds_declarations_def rti_declarations_def declaration_simps)+
  show "parsed_by_cli11 x"
    using obeyed_domains [OF d(1), of decls] obeyed_int [OF d(2) n(1)] obeyed_int [OF d(3) n(2)] obeyed_int [OF d(4) n(3)]
    by (simp add: x_def parsed_by_cli11_def parsed_options_def Let_def)
  show "map_of given ''--keyfile'' \<noteq> None" if "o_certfile x \<noteq> []"
    using obeyed_needs [OF d(5) n(4)] that by (simp add: x_def parsed_options_def Let_def)
qed

text \<open>What is left of a server that a DDS program built.\<close>

lemma reachable_whitelist_config:
  assumes "server_reachable ops b m cfg s"
  shows "port s = cfg_port cfg \<and> heavy_frame_threshold_bytes s = cfg_heavy_threshold cfg \<and> whitelist s = cfg_whitelist cfg"
  using assms unfolding server_reachable_def
proof (induction rule: rtranclp_induct)
  case base
  show ?case by (simp add: new_server_def)
next
  case (step s s')
  then show ?case using env_step_settings [OF step.hyps(2)] by (simp add: settings_def)
qed

lemma shutdown_again: "mw_wf m \<Longrightarrow> clients (shutdown (shutdown m)) = [] \<and> \<not> is_ready (shutdown (shutdown m))"
  using shutdown_empty [of m] by (simp add: shutdown_def [of "shutdown m"] is_ready_def)

context server_backend
begin

lemma dds_main_built:
  assumes "dds_main regex made x l e start turns = Some (code, Some s)"
    and "\<forall>w \<in> set turns. turn_uses ops w" "uses ops e" "\<And>b. made = Some b \<Longrightarrow> inv b \<and> refs b = (\<lambda>_. 0)"
  shows "made \<noteq> None \<and> (\<exists>w. dds_validate regex x = Inr w \<and> whitelist s = w) \<and> code \<le> 1 \<and>
    clients (mw s) = [] \<and> \<not> is_ready (mw s) \<and> port s = o_port x \<and>
    heavy_frame_threshold_bytes s = nat (o_heavy_frame_threshold_bytes x)"
proof -
  obtain b w where bw: "made = Some b" "dds_validate regex x = Inr w"
    using assms(1) by (auto simp: dds_main_def split: option.splits sum.splits)
  let ?m = "new_middleware (nat (o_client_backlog_size x))
          (if o_certfile x \<noteq> [] then Some \<lparr>certfile = o_certfile x, keyfile = o_keyfile x\<rparr> else None)
          kSocketBufferHighWatermark"
  let ?cfg = "\<lparr>cfg_port = o_port x, cfg_session_timeout = o_session_timeout x,
        cfg_publish_rate = o_publish_rate x, cfg_whitelist = w,
        cfg_heavy_threshold = nat (o_heavy_frame_threshold_bytes x)\<rparr>"
  let ?r = "run_standalone_event_loop l e (dds_loop_config x) start turns (dds_objects b x w)"
  note r = run_reachable [OF assms(2,3), of b ?m ?cfg l "dds_loop_config x" start, folded dds_objects_def]
  have ended: "clients (mw (destroy_server t)) = [] \<and> \<not> is_ready (mw (destroy_server t)) \<and>
      clients (mw (destroy_server (ordered_shutdown os t))) = [] \<and>
      \<not> is_ready (mw (destroy_server (ordered_shutdown os t)))"
    if "server_reachable ops b ?m ?cfg t" for t os
    using shutdown_empty [OF good_mw_wf [OF reachable_from_new [OF that]]]
      shutdown_again [OF good_mw_wf [OF reachable_from_new [OF that]]] assms(4) [OF bw(1)]
    by (simp add: destroy_server_def ordered_shutdown_def)
  have "\<exists>t os. server_reachable ops b ?m ?cfg t \<and> (s = destroy_server t \<or> s = destroy_server (ordered_shutdown os t)) \<and> code \<le> 1"
    using assms(1) r bw by (cases ?r) (auto simp: dds_main_def)
  then obtain t os where t: "server_reachable ops b ?m ?cfg t"
      "s = destroy_server t \<or> s = destroy_server (ordered_shutdown os t)" "code \<le> 1" by blast
  from reachable_whitelist_config [OF t(1)] ended [OF t(1), of os] t(2,3) bw show ?thesis
    by (auto simp: destroy_server_def ordered_shutdown_def)
qed

end

section \<open>Properties\<close>

text \<open>
  How a DDS program may end, given what its parser said and whether its constructors succeed.
\<close>

definition explained ::
    "'re regex_compiler \<Rightarrow> cli_option list \<Rightarrow> nat + (string \<times> cli_value) list \<Rightarrow>
     ((string \<times> cli_value) list \<Rightarrow> bool) \<Rightarrow> nat \<Rightarrow> ('b, 're) server option \<Rightarrow> bool" where
  "explained regex decls parsed constructed code outcome =
     (case parsed of
        Inl c \<Rightarrow> code = c \<and> outcome = None
      | Inr given \<Rightarrow>
          let x = parsed_options decls given;
              valid = (list_all (\<lambda>q. \<exists>re. regex q = Inr re) (o_topic_whitelist x) \<and>
                       0 \<le> o_topic_poll_interval x \<and> constructed given)
          in parsed_by_cli11 x \<and> (o_certfile x \<noteq> [] \<longrightarrow> map_of given ''--keyfile'' \<noteq> None) \<and>
             (case outcome of
                None \<Rightarrow> code = 1 \<and> \<not> valid
              | Some s \<Rightarrow> valid \<and> code \<le> 1 \<and> clients (mw s) = [] \<and> \<not> is_ready (mw s) \<and>
                  port s = o_port x \<and> 1 \<le> port s \<and> port s \<le> 65535 \<and>
                  heavy_frame_threshold_bytes s \<le> 1000000000))"

lemma dds_validate_iff:
  "(\<exists>w. dds_validate regex x = Inr w) \<longleftrightarrow>
     list_all (\<lambda>q. \<exists>re. regex q = Inr re) (o_topic_whitelist x) \<and> 0 \<le> o_topic_poll_interval x"
  unfolding dds_validate_def create_ok_iff [symmetric] by (auto split: sum.splits)

context server_backend
begin

lemma program_explained:
  assumes "cli11 cli" "decls = fastdds_declarations \<or> decls = rti_declarations"
    and "\<forall>w \<in> set turns. turn_uses ops w" "uses ops e" "inv b" "refs b = (\<lambda>_. 0)"
    and "(case cli decls args of
            Inl c \<Rightarrow> Some (c, None)
          | Inr given \<Rightarrow> dds_main regex (if constructed given then Some b else None) (parsed_options decls given)
              l e start turns) = Some (code, outcome)"
  shows "explained regex decls (cli decls args) constructed code outcome"
proof (cases "cli decls args")
  case (Inl c)
  with assms(7) show ?thesis by (simp add: explained_def)
next
  case (Inr given)
  let ?x = "parsed_options decls given"
  have main: "dds_main regex (if constructed given then Some b else None) ?x l e start turns = Some (code, outcome)"
    using assms(7) Inr by simp
  have "list_all (obeyed given) decls" using assms(1) Inr unfolding cli11_def by blast
  note p = parsed_ok [OF this assms(2)]
  show ?thesis
  proof (cases outcome)
    case None
    then have "code = 1 \<and> \<not> ((\<exists>w. dds_validate regex ?x = Inr w) \<and> constructed given)"
      using main by (auto simp: dds_main_def split: option.splits sum.splits if_splits loop_outcome.splits)
    with p Inr None show ?thesis by (auto simp: explained_def Let_def dds_validate_iff)
  next
    case (Some s)
    have made: "(if constructed given then Some b else None) = Some b' \<Longrightarrow> inv b' \<and> refs b' = (\<lambda>_. 0)" for b'
      using assms(5,6) by (auto split: if_splits)
    from dds_main_built [OF main [unfolded Some] assms(3,4) made]
    have "constructed given" "\<exists>w. dds_validate regex ?x = Inr w" "code \<le> 1" "clients (mw s) = []" "\<not> is_ready (mw s)"
        "port s = o_port ?x" "heavy_frame_threshold_bytes s = nat (o_heavy_frame_threshold_bytes ?x)"
      by (auto split: if_splits)
    with p Inr Some show ?thesis
      by (auto simp: explained_def Let_def dds_validate_iff parsed_by_cli11_def)
  qed
qed

end

text \<open>
  C30. How the DDS programs end. With a parser that only accepts what the option declarations
  allow, whatever the command line: if the parser rejects it, its exit code is the program's.
  Otherwise the options are in range, with at least one domain, and a certificate comes with a
  key file. The program returns 1 without a server exactly when a whitelist pattern does not
  compile, the poll interval is negative, or a constructor fails. A server that was built had a
  TCP port and a threshold of at most a thousand million bytes, and is closed in the end.
\<close>

theorem dds_programs_outcome:
  assumes "cli11 cli"
    and "\<forall>w \<in> set turns. turn_uses fastdds_ops w" and "methods e = fastdds_ops g"
    and "fastdds_program regex constructed cli args l e start turns = Some (code, outcome)"
    and "\<forall>w \<in> set turns'. turn_uses rti_ops w" and "methods e' = rti_ops g'"
    and "rti_program regex constructed' cli args' l' e' start' turns' = Some (code', outcome')"
  shows "explained regex fastdds_declarations (cli fastdds_declarations args)
      (\<lambda>given. constructed (o_domains (parsed_options fastdds_declarations given))) code outcome \<and>
    explained regex rti_declarations (cli rti_declarations args')
      (\<lambda>given. constructed' (o_domains (parsed_options rti_declarations given))
         (as_text (value_of rti_declarations given ''--qos-profile''))) code' outcome'"
proof
  have u: "uses fastdds_ops e" "uses rti_ops e'" using assms(3,6) by (auto simp: uses_def)
  show "explained regex fastdds_declarations (cli fastdds_declarations args)
      (\<lambda>given. constructed (o_domains (parsed_options fastdds_declarations given))) code outcome"
    by (rule fastdds_server.program_explained [where l = l and start = start, OF assms(1) disjI1 [OF refl] assms(2) u(1) new_backends(2,3)])
      (use assms(4) in \<open>auto simp: fastdds_program_def fastdds_main_def Let_def split: sum.splits\<close>)
  show "explained regex rti_declarations (cli rti_declarations args')
      (\<lambda>given. constructed' (o_domains (parsed_options rti_declarations given))
         (as_text (value_of rti_declarations given ''--qos-profile''))) code' outcome'"
    by (rule rti_server.program_explained [where l = l' and start = start', OF assms(1) disjI2 [OF refl] assms(5) u(2) new_backends(4,5)])
      (use assms(7) in \<open>auto simp: rti_program_def rti_main_def Let_def split: sum.splits\<close>)
qed

text \<open>A parser that knows one command line, and a port that is in use.\<close>

definition sample_given :: "(string \<times> cli_value) list" where
  "sample_given = [(''--domains'', Cli_Ints [0]), (''--port'', Cli_Int 8080)]"

definition sample_cli :: cli_parser where
  "sample_cli decls args =
     (if args = [''--domains'', ''0'', ''--port'', ''8080''] \<and> list_all (obeyed sample_given) decls
      then Inr sample_given else Inl 106)"

definition busy_listener :: listener where
  "busy_listener = plain_listener\<lparr>listen_error := (\<lambda>_. Some ''Address already in use'')\<rparr>"

lemma sample_cli_ok: "cli11 sample_cli"
  by (auto simp: cli11_def sample_cli_def split: if_splits)

lemma sample_cli_parses:
  "sample_cli fastdds_declarations [''--domains'', ''0'', ''--port'', ''8080''] = Inr sample_given"
  "sample_cli rti_declarations [''--domains'', ''0'', ''--port'', ''8080''] = Inr sample_given"
  by (simp_all add: sample_cli_def sample_given_def fastdds_declarations_def rti_declarations_def obeyed_def declaration_simps)

lemma sample_options:
  assumes "decls = fastdds_declarations \<or> decls = rti_declarations"
  shows "parsed_options decls sample_given =
    \<lparr>o_domains = [0], o_port = 8080, o_publish_rate = 50, o_session_timeout = 10, o_stats = False,
     o_topic_whitelist = [''.*''], o_topic_poll_interval = 1, o_client_backlog_size = 100,
     o_heavy_frame_threshold_bytes = 262144, o_certfile = [], o_keyfile = []\<rparr>"
  using assms
  by (elim disjE; simp add: parsed_options_def value_of_def sample_given_def fastdds_declarations_def
      rti_declarations_def declaration_simps Let_def)

lemma busy_start:
  assumes "x = parsed_options decls sample_given" "decls = fastdds_declarations \<or> decls = rti_declarations"
  shows "\<exists>s. dds_main (\<lambda>_. Inr ()) (Some b) x busy_listener e start turns = Some (0, Some s)"
proof -
  obtain w where "dds_validate (\<lambda>_. Inr ()) x = Inr w"
    using dds_validate_iff [of "\<lambda>_. Inr ()" x] by (auto simp: assms(1) sample_options [OF assms(2)])
  moreover have "\<not> fst (initialize busy_listener (dds_objects b x w))"
    by (simp add: initialize_def dds_objects_def new_server_def assms(1) sample_options [OF assms(2)] mw_initialize_def
        new_middleware_def set_on_disconnect_def busy_listener_def plain_listener_def Let_def)
  then obtain s where "initialize busy_listener (dds_objects b x w) = (False, s)" by (metis (full_types) prod.collapse)
  ultimately show ?thesis by (simp add: dds_main_def run_standalone_event_loop_def)
qed

theorem dds_programs_outcome_witness:
  "\<exists>s s'. fastdds_program (\<lambda>_. Inr ()) (\<lambda>_. True) sample_cli [''--domains'', ''0'', ''--port'', ''8080'']
      busy_listener (sample_env (fastdds_ops sample_fastdds_view)) sample_clock [] = Some (0, Some s) \<and>
    rti_program (\<lambda>_. Inr ()) (\<lambda>_ _. True) sample_cli [''--domains'', ''0'', ''--port'', ''8080'']
      busy_listener (sample_env (rti_ops sample_rti_view)) sample_clock [] = Some (0, Some s') \<and>
    port s = 8080 \<and> clients (mw s') = []"
proof -
  let ?args = "[''--domains'', ''0'', ''--port'', ''8080'']"
  let ?e = "sample_env (fastdds_ops sample_fastdds_view) :: (fastdds_manager, unit) env"
    and ?e' = "sample_env (rti_ops sample_rti_view) :: (rti_manager, unit) env"
  obtain s where s: "fastdds_program (\<lambda>_. Inr ()) (\<lambda>_. True) sample_cli ?args busy_listener ?e sample_clock [] = Some (0, Some s)"
    using busy_start [OF refl disjI1 [OF refl], of new_fastdds_manager ?e sample_clock "[]"]
    by (auto simp: fastdds_program_def fastdds_main_def sample_cli_parses Let_def)
  obtain s' where s': "rti_program (\<lambda>_. Inr ()) (\<lambda>_ _. True) sample_cli ?args busy_listener ?e' sample_clock [] = Some (0, Some s')"
    using busy_start [OF refl disjI2 [OF refl], of new_rti_manager ?e' sample_clock "[]"]
    by (auto simp: rti_program_def rti_main_def sample_cli_parses Let_def)
  have none: "\<forall>w \<in> set []. turn_uses fastdds_ops w" "\<forall>w \<in> set []. turn_uses rti_ops w" by simp_all
  from dds_programs_outcome [OF sample_cli_ok none(1) sample_env_simps(1) s none(2) sample_env_simps(1) s'] s s'
  show ?thesis
    by (auto simp: explained_def sample_cli_parses sample_options Let_def)
qed

end
