(* ===== verification/Dds_Lifecycle.thy ===== *)
theory Dds_Lifecycle
  imports Dds_Discovery
begin

text \<open>
  The DDS entities that the two topic sources own: what their constructors create, and what
  their destructors leave. Listeners and participants are numbered as they are created. A
  listener belongs to the source, which frees it; a participant belongs to the DDS library,
  which calls the participant's listener until the participant is deleted or the listener is
  taken away.
\<close>

section \<open>Fast DDS\<close>

text \<open>
  \<open>held_listeners\<close> is \<^verbatim>\<open>listeners_\<close> and \<open>filed_participants\<close> is
  \<^verbatim>\<open>participants_\<close>; \<open>live_participants\<close> is the factory's side: every participant not
  deleted, with the listener it calls.
\<close>

record fastdds_entities =
  next_handle :: nat
  held_listeners :: "nat list"
  live_participants :: "(nat \<times> nat option) list"
  filed_participants :: "(int \<times> nat) list"

definition no_entities :: fastdds_entities where
  "no_entities = \<lparr>next_handle = 0, held_listeners = [], live_participants = [], filed_participants = []\<rparr>"

text \<open>
  One turn of the constructor's loop. A participant that cannot be created is skipped;
  \<^verbatim>\<open>emplace\<close> keeps the entry of a domain that is there.
\<close>

definition fastdds_open_domain :: "(int \<Rightarrow> bool) \<Rightarrow> int \<Rightarrow> fastdds_entities \<Rightarrow> fastdds_entities" where
  "fastdds_open_domain create_participant d x =
     (let l = next_handle x;
          x1 = x\<lparr>next_handle := l + 2, held_listeners := held_listeners x @ [l]\<rparr>
      in if \<not> create_participant d then x1
         else x1\<lparr>live_participants := live_participants x @ [(l + 1, Some l)],
                 filed_participants :=
                   (if map_of (filed_participants x) d = None then filed_participants x @ [(d, l + 1)]
                    else filed_participants x)\<rparr>)"

definition fastdds_open :: "(int \<Rightarrow> bool) \<Rightarrow> int list \<Rightarrow> fastdds_entities" where
  "fastdds_open create_participant domain_ids = fold (fastdds_open_domain create_participant) domain_ids no_entities"

text \<open>
  One turn of the destructor's loop; \<open>throws\<close> tells which of the three calls throws for a
  participant, if any. The exception is caught within the turn.
\<close>

datatype teardown_call = Set_Listener | Delete_Contained_Entities | Delete_Participant

definition fastdds_close_participant ::
    "(nat \<Rightarrow> teardown_call option) \<Rightarrow> nat \<Rightarrow> fastdds_entities \<Rightarrow> fastdds_entities" where
  "fastdds_close_participant throws p x =
     (if throws p = Some Set_Listener then x
      else
        let x1 = x\<lparr>live_participants := map (\<lambda>(q, l). (q, if q = p then None else l)) (live_participants x)\<rparr>
        in if throws p \<noteq> None then x1
           else x1\<lparr>live_participants := filter (\<lambda>(q, l). q \<noteq> p) (live_participants x1)\<rparr>)"

text \<open>
  The destructor: the participants in the order of the hash table, which may be any (\<open>rank\<close>),
  then the listeners.
\<close>

definition fastdds_close ::
    "(nat \<Rightarrow> teardown_call option) \<Rightarrow> (int \<Rightarrow> nat) \<Rightarrow> fastdds_entities \<Rightarrow> fastdds_entities" where
  "fastdds_close throws rank x =
     (fold (fastdds_close_participant throws \<circ> snd) (sort_key (rank \<circ> fst) (filed_participants x)) x)\<lparr>held_listeners := []\<rparr>"

section \<open>RTI Connext\<close>

text \<open>
  The readers of the built-in topic call the listener; the source holds the readers, the
  listeners and the participants. \<open>reader_listener\<close> is the library's side.
\<close>

record rti_entities =
  next_listener :: nat
  rti_listeners :: "nat list"
  builtin_readers :: "nat list"
  reader_listener :: "(nat \<times> nat) list"
  rti_participants :: "(int \<times> bool) list"

definition no_rti_entities :: rti_entities where
  "no_rti_entities = \<lparr>next_listener = 0, rti_listeners = [], builtin_readers = [], reader_listener = [],
     rti_participants = []\<rparr>"

text \<open>
  One turn of the constructor's loop: a domain whose built-in reader is not found is left
  without a listener, but its participant is filed. The reader gets the number of its listener.
\<close>

definition rti_open_domain :: "(int \<Rightarrow> bool) \<Rightarrow> int \<Rightarrow> rti_entities \<Rightarrow> rti_entities" where
  "rti_open_domain reader_found d x =
     (let l = next_listener x;
          x1 = x\<lparr>next_listener := l + 1,
                 rti_participants := (if map_of (rti_participants x) d = None
                   then rti_participants x @ [(d, True)] else rti_participants x),
                 rti_listeners := rti_listeners x @ [l]\<rparr>
      in if \<not> reader_found d then x1
         else x1\<lparr>reader_listener := (l, l) # reader_listener x, builtin_readers := builtin_readers x @ [l]\<rparr>)"

definition rti_open :: "(int \<Rightarrow> bool) \<Rightarrow> int list \<Rightarrow> rti_entities" where
  "rti_open reader_found domain_ids = fold (rti_open_domain reader_found) domain_ids no_rti_entities"

text \<open>
  The destructor: the readers' listeners, then the listeners themselves, then the participants.
  A call that throws leaves its reader or participant as it is.
\<close>

definition rti_close :: "(nat \<Rightarrow> bool) \<Rightarrow> (int \<Rightarrow> bool) \<Rightarrow> rti_entities \<Rightarrow> rti_entities" where
  "rti_close reader_throws close_throws x =
     (let x1 = fold (\<lambda>r y. if reader_throws r then y
                           else y\<lparr>reader_listener := filter (\<lambda>(q, l). q \<noteq> r) (reader_listener y)\<rparr>)
                 (builtin_readers x) x;
          x2 = x1\<lparr>builtin_readers := [], rti_listeners := []\<rparr>
      in x2\<lparr>rti_participants := map (\<lambda>(d, is_open). (d, is_open \<and> close_throws d)) (rti_participants x2)\<rparr>)"

section \<open>Lemmas\<close>

text \<open>The participants that the map of the source knows are those of the topic cache.\<close>

lemma filed_keys:
  "fst ` set (filed_participants (fold (fastdds_open_domain create) ds x)) =
     fst ` set (filed_participants x) \<union> set (filter create ds)"
  by (induction ds arbitrary: x) (auto simp: fastdds_open_domain_def Let_def map_of_eq_None_iff)

lemma filed_as_cached:
  "set (keys (filed_participants (fastdds_open create ds))) = set (participants (fastdds_source create ds))"
proof -
  have "set (fold (\<lambda>d ps. if create d then List.insert d ps else ps) ds ps) = set ps \<union> set (filter create ds)" for ps
    by (induction ds arbitrary: ps) auto
  then show ?thesis by (simp add: fastdds_open_def fastdds_source_def filed_keys no_entities_def)
qed

text \<open>What the constructor's loop keeps.\<close>

definition entities_ok :: "fastdds_entities \<Rightarrow> bool" where
  "entities_ok x \<longleftrightarrow>
     distinct (keys (live_participants x)) \<and> unique_keys (filed_participants x) \<and>
     distinct (map snd (filed_participants x)) \<and>
     set (map snd (filed_participants x)) \<subseteq> set (keys (live_participants x)) \<and>
     (\<forall>p \<in> set (keys (live_participants x)). p < next_handle x) \<and>
     list_all (\<lambda>(p, l). l \<noteq> None) (live_participants x)"

lemma open_domain_ok:
  assumes "entities_ok x"
  shows "entities_ok (fastdds_open_domain create d x)"
proof (cases "create d")
  case True
  have fresh: "next_handle x + 1 \<notin> set (keys (live_participants x))" using assms by (auto simp: entities_ok_def)
  with assms have "next_handle x + 1 \<notin> set (map snd (filed_participants x))" by (auto simp: entities_ok_def)
  with fresh assms True show ?thesis
    by (cases "map_of (filed_participants x) d")
      (auto simp: entities_ok_def fastdds_open_domain_def Let_def map_of_eq_None_iff less_SucI)
next
  case False
  with assms show ?thesis by (auto simp: entities_ok_def fastdds_open_domain_def Let_def less_SucI)
qed

lemma open_ok: "entities_ok (fastdds_open create ds)"
proof -
  have "entities_ok x \<Longrightarrow> entities_ok (fold (fastdds_open_domain create) ds x)" for x
    by (induction ds arbitrary: x) (simp_all add: open_domain_ok)
  then show ?thesis by (simp add: fastdds_open_def entities_ok_def no_entities_def)
qed

lemma live_count:
  "length (live_participants (fold (fastdds_open_domain create) ds x)) =
     length (live_participants x) + length (filter create ds)"
  by (induction ds arbitrary: x) (simp_all add: fastdds_open_domain_def Let_def)

text \<open>The indices of a list of domains, extended by one.\<close>

lemma upt_snoc_filter:
  assumes "\<And>i. i < length ds \<Longrightarrow> P (ds @ [d]) i = P ds i"
  shows "filter (P (ds @ [d])) [0..<length (ds @ [d])] =
    filter (P ds) [0..<length ds] @ (if P (ds @ [d]) (length ds) then [length ds] else [])"
proof -
  have "filter (P (ds @ [d])) [0..<length ds] = filter (P ds) [0..<length ds]"
    using assms by (intro filter_cong) simp_all
  then show ?thesis by simp
qed

text \<open>The entities of the \<open>i\<close>-th domain have the numbers \<open>2 i\<close> and \<open>2 i + 1\<close>.\<close>

definition opened :: "(int \<Rightarrow> bool) \<Rightarrow> int list \<Rightarrow> nat list" where
  "opened create ds = filter (\<lambda>i. create (ds ! i)) [0..<length ds]"

definition opened_first :: "(int \<Rightarrow> bool) \<Rightarrow> int list \<Rightarrow> nat list" where
  "opened_first create ds = filter (\<lambda>i. create (ds ! i) \<and> ds ! i \<notin> set (take i ds)) [0..<length ds]"

lemma opened_snoc:
  "opened create (ds @ [d]) = opened create ds @ (if create d then [length ds] else [])"
  unfolding opened_def by (subst upt_snoc_filter) (simp_all add: nth_append)

lemma opened_first_snoc:
  "opened_first create (ds @ [d]) =
     opened_first create ds @ (if create d \<and> d \<notin> set ds then [length ds] else [])"
  unfolding opened_first_def
  by (subst upt_snoc_filter [where P = "\<lambda>ds i. create (ds ! i) \<and> ds ! i \<notin> set (take i ds)"])
    (simp_all add: nth_append)

lemma open_contents:
  "next_handle (fastdds_open create ds) = 2 * length ds \<and>
   live_participants (fastdds_open create ds) = map (\<lambda>i. (2 * i + 1, Some (2 * i))) (opened create ds) \<and>
   map snd (filed_participants (fastdds_open create ds)) = map (\<lambda>i. 2 * i + 1) (opened_first create ds)"
proof (induction ds rule: rev_induct)
  case Nil
  then show ?case by (simp add: fastdds_open_def no_entities_def opened_def opened_first_def)
next
  case (snoc d ds)
  have step: "fastdds_open create (ds @ [d]) = fastdds_open_domain create d (fastdds_open create ds)"
    by (simp add: fastdds_open_def)
  have "map_of (filed_participants (fastdds_open create ds)) d = None \<longleftrightarrow> \<not> (create d \<and> d \<in> set ds)"
    by (auto simp: map_of_eq_None_iff fastdds_open_def filed_keys no_entities_def)
  with snoc show ?case
    by (auto simp: step fastdds_open_domain_def Let_def opened_snoc opened_first_snoc)
qed

lemma close_participant:
  "live_participants (fastdds_close_participant (\<lambda>_. None) p x) = filter (\<lambda>x. fst x \<noteq> p) (live_participants x)"
proof -
  have "filter (\<lambda>(q, l). q \<noteq> p) (map (\<lambda>(q, l). (q, if q = p then None else l)) ls) = filter (\<lambda>x. fst x \<noteq> p) ls" for ls
    by (induction ls) auto
  then show ?thesis by (simp add: fastdds_close_participant_def)
qed

lemma close_participants:
  "live_participants (fold (fastdds_close_participant (\<lambda>_. None)) ps x) =
     filter (\<lambda>x. fst x \<notin> set ps) (live_participants x)"
  by (induction ps arbitrary: x) (simp_all add: close_participant)

text \<open>The same for the RTI source.\<close>

definition rti_entities_ok :: "rti_entities \<Rightarrow> bool" where
  "rti_entities_ok x \<longleftrightarrow> fst ` set (reader_listener x) \<subseteq> set (builtin_readers x) \<and> list_all snd (rti_participants x)"

lemma rti_open_ok: "rti_entities_ok (rti_open reader_found ds)"
proof -
  have "rti_entities_ok x \<Longrightarrow> rti_entities_ok (rti_open_domain reader_found d x)" for d x
    by (auto simp: rti_entities_ok_def rti_open_domain_def Let_def)
  then have "rti_entities_ok x \<Longrightarrow> rti_entities_ok (fold (rti_open_domain reader_found) ds x)" for x
    by (induction ds arbitrary: x) simp_all
  then show ?thesis by (simp add: rti_open_def rti_entities_ok_def no_rti_entities_def)
qed

lemma rti_filed_keys: "fst ` set (rti_participants (rti_open reader_found ds)) = set ds"
proof -
  have "fst ` set (rti_participants (fold (rti_open_domain reader_found) ds x)) = fst ` set (rti_participants x) \<union> set ds" for x
    by (induction ds arbitrary: x) (auto simp: rti_open_domain_def Let_def map_of_eq_None_iff)
  then show ?thesis by (simp add: rti_open_def no_rti_entities_def)
qed

lemma clear_readers:
  "reader_listener (fold (\<lambda>r y. if throws r then y
      else y\<lparr>reader_listener := filter (\<lambda>(q, l). q \<noteq> r) (reader_listener y)\<rparr>) rs x) =
     filter (\<lambda>(q, l). q \<notin> set rs \<or> throws q) (reader_listener x)"
  "rti_participants (fold (\<lambda>r y. if throws r then y
      else y\<lparr>reader_listener := filter (\<lambda>(q, l). q \<noteq> r) (reader_listener y)\<rparr>) rs x) = rti_participants x"
  by (induction rs arbitrary: x) (auto intro!: filter_cong)

section \<open>Properties\<close>

text \<open>
  C31. What the Fast DDS source leaves. If no call throws, its destructor deletes one participant
  per domain, the one created first. What stays alive is every participant that was created for a
  domain that had been given before, and each still calls its listener, which has been freed: the
  \<open>i\<close>-th domain has the listener \<open>2 i\<close> and the participant \<open>2 i + 1\<close>. So nothing is left exactly
  when no domain with a participant is given twice.
\<close>

theorem fastdds_teardown_leaves:
  "let left = live_participants (fastdds_close (\<lambda>_. None) rank (fastdds_open create domain_ids))
   in left = map (\<lambda>i. (2 * i + 1, Some (2 * i)))
        (filter (\<lambda>i. create (domain_ids ! i) \<and> domain_ids ! i \<in> set (take i domain_ids)) [0..<length domain_ids]) \<and>
      length left + card (set (filter create domain_ids)) = length (filter create domain_ids) \<and>
      list_all (\<lambda>(p, l). l \<noteq> None) left \<and>
      held_listeners (fastdds_close (\<lambda>_. None) rank (fastdds_open create domain_ids)) = [] \<and>
      (left = [] \<longleftrightarrow> distinct (filter create domain_ids))"
proof -
  let ?x = "fastdds_open create domain_ids"
  let ?filed = "map snd (sort_key (rank \<circ> fst) (filed_participants ?x))"
  have ok: "entities_ok ?x" by (rule open_ok)
  have fold_snd: "fold (f \<circ> snd) xs y = fold f (map snd xs) y" for f :: "nat \<Rightarrow> fastdds_entities \<Rightarrow> fastdds_entities"
      and xs :: "(int \<times> nat) list" and y
    by (simp add: fold_map)
  have filed: "set ?filed = set (map snd (filed_participants ?x))"
    by simp
  define left where "left = live_participants (fastdds_close (\<lambda>_. None) rank ?x)"
  have left: "left = filter (\<lambda>x. fst x \<notin> set (map snd (filed_participants ?x))) (live_participants ?x)"
    unfolding left_def fastdds_close_def fold_snd by (simp add: close_participants del: set_map) (simp only: filed)
  have some: "list_all (\<lambda>(p, l). l \<noteq> None) left"
    using ok by (auto simp: left entities_ok_def list_all_iff)
  have n: "length (live_participants ?x) = length (filter create domain_ids)"
    by (simp add: fastdds_open_def live_count no_entities_def)
  have "length (filter (\<lambda>x. fst x \<in> set (map snd (filed_participants ?x))) (live_participants ?x)) =
      card (set (map snd (filed_participants ?x)))"
  proof -
    let ?in = "filter (\<lambda>x. fst x \<in> set (map snd (filed_participants ?x))) (live_participants ?x)"
    have "distinct (keys ?in)" using ok by (simp add: entities_ok_def distinct_map_filter)
    then have "length ?in = card (set (keys ?in))" using distinct_card [of "keys ?in"] by simp
    moreover have "set (keys ?in) = set (map snd (filed_participants ?x))"
      using ok by (force simp: entities_ok_def)
    ultimately show ?thesis by simp
  qed
  also have "\<dots> = length (filed_participants ?x)"
    using ok distinct_card [of "map snd (filed_participants ?x)"] by (simp add: entities_ok_def)
  also have "\<dots> = card (set (keys (filed_participants ?x)))"
    using ok distinct_card [of "keys (filed_participants ?x)"] by (simp add: entities_ok_def)
  also have "\<dots> = card (set (filter create domain_ids))"
    by (simp add: fastdds_open_def filed_keys no_entities_def)
  finally have "length left + card (set (filter create domain_ids)) = length (filter create domain_ids)"
    using sum_length_filter_compl [of "\<lambda>x. fst x \<in> set (map snd (filed_participants ?x))" "live_participants ?x"]
    by (simp add: left n)
  moreover from this have "left = [] \<longleftrightarrow> distinct (filter create domain_ids)"
    by (metis add_0 card_distinct distinct_card length_0_conv add_diff_cancel_right' diff_self_eq_0)
  moreover have "left = map (\<lambda>i. (2 * i + 1, Some (2 * i)))
      (filter (\<lambda>i. create (domain_ids ! i) \<and> domain_ids ! i \<in> set (take i domain_ids)) [0..<length domain_ids])"
    unfolding left conjunct1 [OF conjunct2 [OF open_contents]] conjunct2 [OF conjunct2 [OF open_contents]]
    by (simp add: opened_def opened_first_def filter_map comp_def)
      (rule arg_cong [where f = "map (\<lambda>i. (Suc (2 * i), Some (2 * i)))"], rule filter_cong, auto)
  ultimately show ?thesis using some by (simp add: Let_def left_def [symmetric]) (simp add: fastdds_close_def)
qed

text \<open>With \<^verbatim>\<open>--domains 0 5 0\<close> the second participant of domain 0 is left.\<close>

theorem fastdds_teardown_leaves_witness:
  "live_participants (fastdds_close (\<lambda>_. None) nat (fastdds_open (\<lambda>_. True) [0, 5, 0])) = [(5, Some 4)]"
  using fastdds_teardown_leaves [of nat "\<lambda>_. True" "[0, 5, 0]"]
  by (simp add: Let_def upt_rec numeral_eq_Suc)

text \<open>
  What the RTI source leaves. If no call throws, then after the destructor no built-in
  reader calls a listener that has been freed, and every participant that was filed is closed;
  a call that throws for one reader or participant does not keep the others from this.
\<close>

theorem rti_teardown_complete:
  "let x = rti_close reader_throws close_throws (rti_open reader_found domain_ids)
   in rti_listeners x = [] \<and> builtin_readers x = [] \<and>
      list_all (\<lambda>(r, l). reader_throws r) (reader_listener x) \<and>
      list_all (\<lambda>(d, is_open). is_open = close_throws d) (rti_participants x) \<and>
      set (keys (rti_participants x)) = set domain_ids"
  using rti_open_ok [of reader_found domain_ids] rti_filed_keys [of reader_found domain_ids]
  by (auto simp: rti_close_def Let_def list_all_iff case_prod_beta clear_readers rti_entities_ok_def image_image)

end
