(* ===== verification/Dds_Entities.thy ===== *)
theory Dds_Entities
  imports Dds_Subscriptions
begin

text \<open>
  The entities of the Fast DDS subscription manager under any interleaving of its callers: which
  are alive at any time and who must delete them. The steps are the critical sections and the
  unlocked parts between them, exceptions during the creation included.
\<close>

section \<open>Interleavings\<close>

text \<open>
  The manager, the entities that a subscribe has created and not yet inserted, those that an
  unsubscribe has taken out and not yet closed, and what the exceptions have left behind, with
  their number. The last four belong to the threads, not to the class.
\<close>

record fastdds_world =
  manager :: fastdds_manager
  in_flight :: "(string \<times> subscription_info) list"
  closing :: "subscription_info list"
  lost_topics :: "nat list"
  lost_subscribers :: "nat list"
  exceptions :: nat

definition fastdds_start :: fastdds_world where
  "fastdds_start = \<lparr>manager = new_fastdds_manager, in_flight = [], closing = [], lost_topics = [],
     lost_subscribers = [], exceptions = 0\<rparr>"

text \<open>What an exception leaves: the entities alive after the attempt that were not before.\<close>

definition left_topics :: "fastdds_manager \<Rightarrow> fastdds_manager \<Rightarrow> nat list" where
  "left_topics m m' = filter (\<lambda>h. h \<notin> set (live_topics m)) (live_topics m')"

definition left_subscribers :: "fastdds_manager \<Rightarrow> fastdds_manager \<Rightarrow> nat list" where
  "left_subscribers m m' = filter (\<lambda>s. s \<notin> set (live_subscribers m)) (live_subscribers m')"

text \<open>
  The critical sections and the unlocked parts; the last three rules are whole calls that no
  other thread interrupts.
\<close>

inductive fastdds_step :: "fastdds_world \<Rightarrow> fastdds_world \<Rightarrow> bool" where
  find: "fastdds_find t (manager w) = Some m \<Longrightarrow> fastdds_step w (w\<lparr>manager := m\<rparr>)"
| make: "fastdds_make v t (manager w) = (Some i, m) \<Longrightarrow>
    fastdds_step w (w\<lparr>manager := m, in_flight := (t, i) # in_flight w\<rparr>)"
| fail: "fastdds_make v t (manager w) = (None, m) \<Longrightarrow> \<forall>k. creation v t \<noteq> Thrown k \<Longrightarrow>
    fastdds_step w (w\<lparr>manager := m\<rparr>)"
| throw: "fastdds_make v t (manager w) = (None, m) \<Longrightarrow> creation v t = Thrown k \<Longrightarrow>
    fastdds_step w (w\<lparr>manager := m, exceptions := exceptions w + 1,
      lost_topics := left_topics (manager w) m @ lost_topics w,
      lost_subscribers := left_subscribers (manager w) m @ lost_subscribers w\<rparr>)"
| insert: "(t, i) \<in> set (in_flight w) \<Longrightarrow>
    fastdds_step w (w\<lparr>manager := fastdds_insert t i (manager w), in_flight := remove1 (t, i) (in_flight w)\<rparr>)"
| release: "fastdds_release t (manager w) = (ok, to_close, m) \<Longrightarrow>
    fastdds_step w (w\<lparr>manager := m, closing := (case to_close of None \<Rightarrow> [] | Some i \<Rightarrow> [i]) @ closing w\<rparr>)"
| take_all: "fastdds_take_all ho (manager w) = (to_close, m) \<Longrightarrow>
    fastdds_step w (w\<lparr>manager := m, closing := to_close @ closing w\<rparr>)"
| close: "i \<in> set (closing w) \<Longrightarrow>
    fastdds_step w (w\<lparr>manager := close_subscription i (manager w), closing := remove1 i (closing w)\<rparr>)"
| subscribe: "\<forall>k. creation v t \<noteq> Thrown k \<Longrightarrow>
    fastdds_step w (w\<lparr>manager := snd (fastdds_subscribe v t ty (manager w))\<rparr>)"
| unsubscribe: "fastdds_step w (w\<lparr>manager := snd (fastdds_unsubscribe t (manager w))\<rparr>)"
| unsubscribe_all: "fastdds_step w (w\<lparr>manager := fastdds_unsubscribe_all ho (manager w)\<rparr>)"

text \<open>Who holds which entities.\<close>

definition subscribed_infos :: "fastdds_manager \<Rightarrow> subscription_info list" where
  "subscribed_infos m = map (entry \<circ> snd) (fast_subscriptions m)"

definition held_infos :: "fastdds_world \<Rightarrow> subscription_info list" where
  "held_infos w = subscribed_infos (manager w) @ map snd (in_flight w) @ closing w"

definition reader_of :: "subscription_info \<Rightarrow> nat \<times> nat \<times> nat" where
  "reader_of i = (info_reader i, info_subscriber i, info_topic i)"

section \<open>The balance\<close>

text \<open>
  The entities alive are those of the given holders and the lost ones, each once; nothing has
  been deleted wrongly.
\<close>

definition balanced :: "fastdds_manager \<Rightarrow> subscription_info multiset \<Rightarrow> nat multiset \<Rightarrow> nat multiset \<Rightarrow> bool" where
  "balanced m is lt ls \<longleftrightarrow>
     mset (live_readers m) = image_mset reader_of is \<and>
     mset (live_subscribers m) = image_mset info_subscriber is + ls \<and>
     mset (live_topics m) = image_mset info_topic is + lt \<and>
     distinct (live_topics m) \<and> distinct (live_subscribers m) \<and> distinct (map fst (live_readers m)) \<and>
     (\<forall>h \<in> set (live_topics m) \<union> set (live_subscribers m) \<union> fst ` set (live_readers m). h < next_entity m) \<and>
     bad_deletes m = 0"

lemma balanced_subscriptions [simp]:
  "balanced (m\<lparr>fast_subscriptions := x\<rparr>) is lt ls = balanced m is lt ls"
  by (simp add: balanced_def)

lemma balanced_members:
  assumes "balanced m is lt ls"
  shows "set (live_readers m) = reader_of ` set_mset is"
    and "set (live_topics m) = info_topic ` set_mset is \<union> set_mset lt"
    and "set (live_subscribers m) = info_subscriber ` set_mset is \<union> set_mset ls"
proof -
  from assms have "set_mset (mset (live_readers m)) = set_mset (image_mset reader_of is)"
      "set_mset (mset (live_topics m)) = set_mset (image_mset info_topic is + lt)"
      "set_mset (mset (live_subscribers m)) = set_mset (image_mset info_subscriber is + ls)"
    by (simp_all only: balanced_def)
  then show "set (live_readers m) = reader_of ` set_mset is"
      "set (live_topics m) = info_topic ` set_mset is \<union> set_mset lt"
      "set (live_subscribers m) = info_subscriber ` set_mset is \<union> set_mset ls"
    by simp_all
qed

lemma mset_distinct_add:
  assumes "mset xs = add_mset x M" "distinct xs"
  shows "x \<in> set xs" "x \<notin># M" "mset (remove1 x xs) = M"
proof -
  show "x \<in> set xs" using assms(1) by (metis set_mset_mset union_single_eq_member)
  have "count (mset xs) x \<le> 1" using assms(2) by (simp add: distinct_count_atmost_1)
  then show "x \<notin># M" using assms(1) by (simp add: not_in_iff)
  show "mset (remove1 x xs) = M" using assms(1) by simp
qed

text \<open>Closing what a holder holds.\<close>

lemma balanced_close:
  assumes "balanced m (add_mset i is) lt ls"
  shows "balanced (close_subscription i m) is lt ls"
proof -
  let ?r = "info_reader i" and ?s = "info_subscriber i" and ?h = "info_topic i"
  let ?readers = "filter (\<lambda>(r', s', h). r' \<noteq> ?r) (live_readers m)"
  note b = assms [unfolded balanced_def]
  have t: "mset (live_topics m) = add_mset ?h (image_mset info_topic is + lt)" "distinct (live_topics m)"
    and s: "mset (live_subscribers m) = add_mset ?s (image_mset info_subscriber is + ls)" "distinct (live_subscribers m)"
    and r: "mset (live_readers m) = add_mset (?r, ?s, ?h) (image_mset reader_of is)"
    and d: "distinct (map fst (live_readers m))"
    using b by (simp_all add: reader_of_def)
  note t' = mset_distinct_add [OF t] and s' = mset_distinct_add [OF s]
  have in_readers: "(?r, ?s, ?h) \<in> set (live_readers m)" using r by (metis set_mset_mset union_single_eq_member)
  have "mset (map fst (live_readers m)) = add_mset ?r (image_mset fst (image_mset reader_of is))"
    using r by (simp only: mset_map) simp
  from mset_distinct_add(2) [OF this d] have fresh: "?r \<notin> info_reader ` set_mset is"
    by (simp add: image_mset.compositionality comp_def reader_of_def)
  have "mset ?readers = filter_mset (\<lambda>(r', s', h). r' \<noteq> ?r) (mset (live_readers m))" by simp
  also have "\<dots> = filter_mset (\<lambda>(r', s', h). r' \<noteq> ?r) (image_mset reader_of is)" unfolding r by simp
  also have "\<dots> = filter_mset (\<lambda>_. True) (image_mset reader_of is)"
    using fresh by (intro filter_mset_cong) (auto simp: reader_of_def image_iff)
  also have "\<dots> = image_mset reader_of is" by simp
  finally have readers: "mset ?readers = image_mset reader_of is" .
  then have set_readers: "set ?readers = reader_of ` set_mset is" by (metis set_image_mset set_mset_mset)
  have 1: "delete_datareader ?s ?r m = m\<lparr>live_readers := ?readers\<rparr>"
    using in_readers by (auto simp: delete_datareader_def)
  have "\<forall>(r', s', h) \<in> set ?readers. s' \<noteq> ?s" "\<forall>(r', s', h) \<in> set ?readers. h \<noteq> ?h"
    using s'(2) t'(2) unfolding set_readers by (auto simp: reader_of_def image_iff)
  then have 2: "delete_subscriber ?s (m\<lparr>live_readers := ?readers\<rparr>) =
      m\<lparr>live_readers := ?readers, live_subscribers := remove1 ?s (live_subscribers m)\<rparr>"
    and 3: "delete_topic ?h (m\<lparr>live_readers := ?readers, live_subscribers := remove1 ?s (live_subscribers m)\<rparr>) =
      m\<lparr>live_readers := ?readers, live_subscribers := remove1 ?s (live_subscribers m),
        live_topics := remove1 ?h (live_topics m)\<rparr>"
    using s'(1) t'(1) by (simp_all add: delete_subscriber_def delete_topic_def)
  have "distinct (map fst ?readers)" using d by (rule distinct_map_filter)
  moreover have "set (remove1 ?h (live_topics m)) \<subseteq> set (live_topics m)"
      "set (remove1 ?s (live_subscribers m)) \<subseteq> set (live_subscribers m)" "set ?readers \<subseteq> set (live_readers m)"
    by (auto simp: set_remove1_subset)
  ultimately show ?thesis
    unfolding close_subscription_def 1 2 3 balanced_def
    using b readers s'(3) t'(3) by (auto simp: distinct_remove1)
qed

lemma balanced_close_all:
  "balanced m (mset js + is) lt ls \<Longrightarrow> balanced (fold close_subscription js m) is lt ls"
  by (induction js arbitrary: m) (simp_all add: balanced_close)


text \<open>Creating a topic, a subscriber on top of it and a reader on top of both.\<close>

lemma balanced_fresh:
  assumes "balanced m is lt ls"
  shows "next_entity m \<notin> set (live_topics m)" "next_entity m \<notin> set (live_subscribers m)"
    "next_entity m \<notin> fst ` set (live_readers m)"
proof -
  have "\<forall>h \<in> set (live_topics m) \<union> set (live_subscribers m) \<union> fst ` set (live_readers m). h < next_entity m"
    using assms by (simp add: balanced_def)
  then show "next_entity m \<notin> set (live_topics m)" "next_entity m \<notin> set (live_subscribers m)"
      "next_entity m \<notin> fst ` set (live_readers m)" by (meson UnI1 UnI2 less_irrefl)+
qed

lemma balanced_make_topic:
  assumes "balanced m is lt ls" and "make_topic m = (h, m')"
  shows "balanced m' is (add_mset h lt) ls"
  using assms balanced_fresh [OF assms(1)] by (auto simp: balanced_def make_topic_def ball_Un less_Suc_eq) force

lemma balanced_make_subscriber:
  assumes "balanced m is lt ls" and "make_subscriber m = (s, m')"
  shows "balanced m' is lt (add_mset s ls)"
  using assms balanced_fresh [OF assms(1)] by (auto simp: balanced_def make_subscriber_def ball_Un less_Suc_eq) force

lemma balanced_make_reader:
  assumes "balanced m is (add_mset (info_topic i) lt) (add_mset (info_subscriber i) ls)"
    and "make_reader (info_subscriber i) (info_topic i) m = (info_reader i, m')"
  shows "balanced m' (add_mset i is) lt ls"
  using assms balanced_fresh [OF assms(1)]
  by (auto simp: balanced_def make_reader_def reader_of_def ball_Un less_Suc_eq) force

text \<open>What no holder has can be deleted again.\<close>

lemma balanced_delete_topic:
  assumes "balanced m is (add_mset h lt) ls"
  shows "balanced (delete_topic h m) is lt ls"
proof -
  have "mset (live_topics m) = add_mset h (image_mset info_topic is + lt)" "distinct (live_topics m)"
    using assms by (simp_all add: balanced_def)
  note t = mset_distinct_add [OF this]
  have "\<forall>(r, s, h') \<in> set (live_readers m). h' \<noteq> h"
    using t(2) balanced_members(1) [OF assms] by (auto simp: reader_of_def image_iff)
  with t(1) have "delete_topic h m = m\<lparr>live_topics := remove1 h (live_topics m)\<rparr>" by (simp add: delete_topic_def)
  with assms t(3) show ?thesis by (auto simp: balanced_def distinct_remove1 dest: notin_set_remove1)
qed

lemma balanced_delete_subscriber:
  assumes "balanced m is lt (add_mset s ls)"
  shows "balanced (delete_subscriber s m) is lt ls"
proof -
  have "mset (live_subscribers m) = add_mset s (image_mset info_subscriber is + ls)" "distinct (live_subscribers m)"
    using assms by (simp_all add: balanced_def)
  note t = mset_distinct_add [OF this]
  have "\<forall>(r, s', h) \<in> set (live_readers m). s' \<noteq> s"
    using t(2) balanced_members(1) [OF assms] by (auto simp: reader_of_def image_iff)
  with t(1) have "delete_subscriber s m = m\<lparr>live_subscribers := remove1 s (live_subscribers m)\<rparr>"
    by (simp add: delete_subscriber_def)
  with assms t(3) show ?thesis by (auto simp: balanced_def distinct_remove1 dest: notin_set_remove1)
qed

text \<open>The creation of a topic's entities: all kept, or none, or what the exception leaves.\<close>

lemma left_same [simp]: "left_topics m m = []" "left_subscribers m m = []"
  by (simp_all add: left_topics_def left_subscribers_def filter_empty_conv)

lemma left_made:
  assumes "balanced m is lt ls"
  shows "make_topic m = (h, m1) \<Longrightarrow> left_topics m m1 = [h] \<and> left_subscribers m m1 = []"
    and "make_topic m = (h, m1) \<Longrightarrow> make_subscriber m1 = (s, m2) \<Longrightarrow> left_topics m m2 = [h] \<and> left_subscribers m m2 = [s]"
proof -
  have "\<forall>s \<in> set (live_subscribers m). s < next_entity m" using assms by (simp add: balanced_def)
  then have "Suc (next_entity m) \<notin> set (live_subscribers m)" by auto
  then show "make_topic m = (h, m1) \<Longrightarrow> left_topics m m1 = [h] \<and> left_subscribers m m1 = []"
      "make_topic m = (h, m1) \<Longrightarrow> make_subscriber m1 = (s, m2) \<Longrightarrow> left_topics m m2 = [h] \<and> left_subscribers m m2 = [s]"
    using balanced_fresh [OF assms]
    by (auto simp: left_topics_def left_subscribers_def fastdds_entity_defs filter_empty_conv)
qed

lemma balanced_make:
  assumes bal: "balanced m is lt ls" and make: "fastdds_make v t m = (r, m')"
  shows "case r of
      Some i \<Rightarrow> balanced m' (add_mset i is) lt ls
    | None \<Rightarrow>
        if \<exists>k. creation v t = Thrown k
        then balanced m' is (mset (left_topics m m') + lt) (mset (left_subscribers m m') + ls) \<and>
          length (left_topics m m') \<le> 1 \<and> length (left_subscribers m m') \<le> 1
        else balanced m' is lt ls"
proof -
  obtain h m1 where h: "make_topic m = (h, m1)" by fastforce
  obtain s m2 where s: "make_subscriber m1 = (s, m2)" by fastforce
  obtain r3 m3 where r3: "make_reader s h m2 = (r3, m3)" by (metis surj_pair)
  note b1 = balanced_make_topic [OF bal h]
  note b2 = balanced_make_subscriber [OF b1 s]
  have b3: "info_topic i = h \<Longrightarrow> info_subscriber i = s \<Longrightarrow> info_reader i = r3 \<Longrightarrow> balanced m3 (add_mset i is) lt ls" for i
    using b2 r3 by (intro balanced_make_reader) auto
  note l = left_made(1) [OF bal h] left_made(2) [OF bal h s]
  show ?thesis
    using make bal b1 b2 b3 l balanced_delete_topic [OF b1] balanced_delete_topic [OF balanced_delete_subscriber [OF b2]]
    by (cases "creation v t") (auto simp: fastdds_make_def h s r3 split: option.splits if_splits)
qed

section \<open>Every step keeps the balance\<close>

lemma infos_update:
  "map_of m t = Some e \<Longrightarrow> entry e' = entry e \<Longrightarrow> map (entry \<circ> snd) (AList.update t e' m) = map (entry \<circ> snd) m"
  by (induction m) (auto split: if_splits)

lemma infos_new: "map_of m t = None \<Longrightarrow> map (entry \<circ> snd) (AList.update t e m) = map (entry \<circ> snd) m @ [entry e]"
  by (induction m) (auto split: if_splits)

lemma infos_delete:
  "distinct (map fst m) \<Longrightarrow> map_of m t = Some e \<Longrightarrow>
     mset (map (entry \<circ> snd) m) = add_mset (entry e) (mset (map (entry \<circ> snd) (AList.delete t m)))"
proof (induction m)
  case (Cons x m)
  then show ?case by (cases "t = fst x") (auto simp del: mset_map)
qed simp

lemma mset_entries:
  assumes "distinct (map fst m)"
  shows "mset (entries ho m) = mset m"
proof -
  have "distinct m" "distinct (entries ho m)"
    using assms distinct_entries [OF assms, of ho] by (simp_all add: distinct_map)
  moreover have "set (entries ho m) = set m" using assms by (auto simp: in_entries_iff)
  ultimately show ?thesis by (simp add: set_eq_iff_mset_eq_distinct)
qed

lemma subscribed_infos_simps [simp]:
  "subscribed_infos (close_subscription i m) = subscribed_infos m"
  "subscribed_infos (fold close_subscription js m) = subscribed_infos m"
  "subscribed_infos (snd (fastdds_make v t m)) = subscribed_infos m"
  "subscribed_infos (m\<lparr>fast_subscriptions := []\<rparr>) = []"
  by (simp_all add: subscribed_infos_def)

lemma subscribed_infos_update:
  "map_of (fast_subscriptions m) t = Some e \<Longrightarrow> entry e' = entry e \<Longrightarrow>
     subscribed_infos (m\<lparr>fast_subscriptions := AList.update t e' (fast_subscriptions m)\<rparr>) = subscribed_infos m"
  "map_of (fast_subscriptions m) t = None \<Longrightarrow>
     subscribed_infos (m\<lparr>fast_subscriptions := AList.update t e' (fast_subscriptions m)\<rparr>) = subscribed_infos m @ [entry e']"
  by (simp_all add: subscribed_infos_def infos_update infos_new)

lemma subscribed_infos_delete:
  "fastdds_wf m \<Longrightarrow> map_of (fast_subscriptions m) t = Some e \<Longrightarrow>
     mset (subscribed_infos m) =
     add_mset (entry e) (mset (subscribed_infos (m\<lparr>fast_subscriptions := AList.delete t (fast_subscriptions m)\<rparr>)))"
  by (simp add: subscribed_infos_def fastdds_wf_def ref_map_wf_def infos_delete del: mset_map)

definition entities_inv :: "fastdds_manager \<Rightarrow> subscription_info multiset \<Rightarrow> nat multiset \<Rightarrow> nat multiset \<Rightarrow> bool" where
  "entities_inv m is lt ls \<longleftrightarrow> fastdds_wf m \<and> balanced m (mset (subscribed_infos m) + is) lt ls"

lemma inv_find: "entities_inv m is lt ls \<Longrightarrow> fastdds_find t m = Some m' \<Longrightarrow> entities_inv m' is lt ls"
  by (auto simp: entities_inv_def fastdds_wf_def fastdds_find_def ref_increment_def
      subscribed_infos_update ref_update_wf split: option.splits)

lemma inv_make:
  assumes "entities_inv m is lt ls" and "fastdds_make v t m = (r, m')"
  shows "case r of
      Some i \<Rightarrow> entities_inv m' (add_mset i is) lt ls
    | None \<Rightarrow>
        if \<exists>k. creation v t = Thrown k
        then entities_inv m' is (mset (left_topics m m') + lt) (mset (left_subscribers m m') + ls) \<and>
          length (left_topics m m') \<le> 1 \<and> length (left_subscribers m m') \<le> 1
        else entities_inv m' is lt ls"
proof -
  have "fast_subscriptions m' = fast_subscriptions m" "subscribed_infos m' = subscribed_infos m"
    using assms(2) fastdds_make_map [of v t m] subscribed_infos_simps(3) [of v t m] by simp_all
  then show ?thesis
    using assms(1) balanced_make [OF _ assms(2)]
    by (auto simp: entities_inv_def fastdds_wf_def split: option.splits if_splits)
qed

lemma inv_close: "entities_inv m (add_mset i is) lt ls \<Longrightarrow> entities_inv (close_subscription i m) is lt ls"
  by (simp add: entities_inv_def fastdds_wf_def balanced_close)

lemma inv_close_all: "entities_inv m (mset js + is) lt ls \<Longrightarrow> entities_inv (fold close_subscription js m) is lt ls"
  by (induction js arbitrary: m) (simp_all add: inv_close)

lemma inv_insert: "entities_inv m (add_mset i is) lt ls \<Longrightarrow> entities_inv (fastdds_insert t i m) is lt ls"
proof (cases "map_of (fast_subscriptions m) t")
  case None
  assume "entities_inv m (add_mset i is) lt ls"
  with None show ?thesis
    by (simp add: entities_inv_def fastdds_wf_def fastdds_insert_def subscribed_infos_update ref_update_wf)
next
  case (Some e)
  assume "entities_inv m (add_mset i is) lt ls"
  with Some inv_find [OF this, of t] inv_close show ?thesis by (simp add: fastdds_insert_def fastdds_find_def)
qed

lemma inv_release:
  assumes "entities_inv m is lt ls" and "fastdds_release t m = (ok, to_close, m')"
  shows "entities_inv m' (mset (case to_close of None \<Rightarrow> [] | Some i \<Rightarrow> [i]) + is) lt ls"
proof (cases "map_of (fast_subscriptions m) t")
  case None
  with assms show ?thesis by (simp add: fastdds_release_def)
next
  case (Some e)
  note eff = assms(2) [unfolded fastdds_release_def Some, simplified]
  show ?thesis
  proof (cases "reference_count e = 1")
    case True
    with eff have "to_close = Some (entry e)"
        "m' = m\<lparr>fast_subscriptions := AList.delete t (fast_subscriptions m)\<rparr>" by (auto simp: Let_def)
    with assms(1) subscribed_infos_delete [OF _ Some] show ?thesis
      by (auto simp: entities_inv_def fastdds_wf_def ref_map_wf_def in_delete_iff)
  next
    case False
    with eff assms(1) Some show ?thesis
      by (auto simp: entities_inv_def fastdds_wf_def subscribed_infos_update ref_update_wf Let_def split: if_splits)
  qed
qed

lemma inv_take_all:
  assumes "entities_inv m is lt ls" and "fastdds_take_all ho m = (to_close, m')"
  shows "entities_inv m' (mset to_close + is) lt ls"
proof -
  have "distinct (map fst (fast_subscriptions m))"
    using assms(1) by (simp add: entities_inv_def fastdds_wf_def ref_map_wf_def)
  from mset_entries [OF this, of ho] have "mset to_close = mset (subscribed_infos m)"
    using assms(2) by (auto simp: fastdds_take_all_def subscribed_infos_def mset_map)
  with assms show ?thesis by (auto simp: entities_inv_def fastdds_wf_def fastdds_take_all_def)
qed

text \<open>Whole calls are made of these parts.\<close>

lemma inv_subscribe:
  assumes inv: "entities_inv m is lt ls" and no_throw: "\<forall>k. creation v t \<noteq> Thrown k"
  shows "entities_inv (snd (fastdds_subscribe v t ty m)) is lt ls"
proof (cases "fastdds_find t m")
  case None
  obtain r m' where made: "fastdds_make v t m = (r, m')" by fastforce
  from inv_make [OF inv this] no_throw None show ?thesis
    by (auto simp: fastdds_subscribe_def fastdds_create_def made inv_insert split: option.splits)
next
  case (Some m')
  with inv_find [OF inv Some] show ?thesis by (simp add: fastdds_subscribe_def)
qed

lemma inv_unsubscribe:
  assumes "entities_inv m is lt ls"
  shows "entities_inv (snd (fastdds_unsubscribe t m)) is lt ls"
proof -
  obtain ok to_close m' where released: "fastdds_release t m = (ok, to_close, m')" by (metis surj_pair)
  from inv_release [OF assms this] show ?thesis
    by (auto simp: fastdds_unsubscribe_def released inv_close split: option.splits)
qed

lemma inv_unsubscribe_all:
  assumes "entities_inv m is lt ls"
  shows "entities_inv (fastdds_unsubscribe_all ho m) is lt ls"
  using inv_close_all [OF inv_take_all [OF assms surjective_pairing, of ho]]
  by (simp add: fastdds_unsubscribe_all_def case_prod_beta)

definition world_inv :: "fastdds_world \<Rightarrow> bool" where
  "world_inv w \<longleftrightarrow>
     entities_inv (manager w) (mset (map snd (in_flight w)) + mset (closing w)) (mset (lost_topics w))
       (mset (lost_subscribers w)) \<and>
     length (lost_topics w) \<le> exceptions w \<and> length (lost_subscribers w) \<le> exceptions w"

lemma mset_remove1_snd: "(t, i) \<in> set xs \<Longrightarrow> mset (map snd xs) = add_mset i (mset (map snd (remove1 (t, i) xs)))"
  by (induction xs) (auto simp del: mset_map)

lemma world_inv_step: "fastdds_step w w' \<Longrightarrow> world_inv w \<Longrightarrow> world_inv w'"
proof (induction rule: fastdds_step.induct)
  case (find t w m)
  then show ?case by (auto simp: world_inv_def inv_find)
next
  case (make v t w i m)
  with inv_make [OF _ make(1)] show ?case by (simp add: world_inv_def)
next
  case (fail v t w m)
  with inv_make [OF _ fail(1)] show ?case by (simp add: world_inv_def)
next
  case (throw v t w m k)
  then have "\<exists>k. creation v t = Thrown k" by blast
  with throw inv_make [OF _ throw(1)] show ?case by (force simp: world_inv_def)
next
  case (insert t i w)
  then show ?case
    using inv_insert mset_remove1_snd [OF insert(1)] by (simp add: world_inv_def del: mset_map)
next
  case (release t w ok to_close m)
  with inv_release [OF _ release(1)] show ?case by (auto simp: world_inv_def ac_simps split: option.splits)
next
  case take: (take_all ho w to_close m)
  have "entities_inv m (mset to_close + (mset (map snd (in_flight w)) + mset (closing w))) (mset (lost_topics w))
      (mset (lost_subscribers w))"
    using take(2) by (intro inv_take_all [OF _ take(1)]) (simp add: world_inv_def)
  with take(2) show ?case by (simp add: world_inv_def ac_simps)
next
  case (close i w)
  then obtain M where "mset (closing w) = add_mset i M" by (metis multi_member_split set_mset_mset)
  with close inv_close show ?case by (simp add: world_inv_def)
next
  case (subscribe v t w ty)
  then show ?case by (simp add: world_inv_def inv_subscribe)
next
  case (unsubscribe w t)
  then show ?case by (simp add: world_inv_def inv_unsubscribe)
next
  case (unsubscribe_all w ho)
  then show ?case by (simp add: world_inv_def inv_unsubscribe_all)
qed

lemma world_inv_reachable: "fastdds_step\<^sup>*\<^sup>* fastdds_start w \<Longrightarrow> world_inv w"
proof (induction rule: rtranclp_induct)
  case base
  show ?case
    by (simp add: world_inv_def fastdds_start_def entities_inv_def fastdds_wf_def balanced_def
        new_fastdds_manager_def subscribed_infos_def)
next
  case (step w w')
  then show ?case by (simp add: world_inv_step)
qed

section \<open>Properties\<close>

text \<open>
  C39. However the calls of \<^verbatim>\<open>subscribe\<close>, \<^verbatim>\<open>unsubscribe\<close> and \<^verbatim>\<open>unsubscribe_all\<close> interleave, and
  whatever the creation of entities meets, no entity is deleted twice, while in use or by the
  wrong parent, if the library's deletions do not throw. Those alive are, each once, the entities of
  the subscriptions in the map, of a subscribe that has yet to insert them or of an unsubscribe
  that has yet to close them; and, for each exception that ended a creation, at most one topic
  and one subscriber that nobody holds.
\<close>

theorem fastdds_no_entity_leak:
  assumes "fastdds_step\<^sup>*\<^sup>* fastdds_start w"
  shows "bad_deletes (manager w) = 0 \<and>
    mset (live_readers (manager w)) =
      mset (map (\<lambda>i. (info_reader i, info_subscriber i, info_topic i)) (held_infos w)) \<and>
    mset (live_subscribers (manager w)) = mset (map info_subscriber (held_infos w)) + mset (lost_subscribers w) \<and>
    mset (live_topics (manager w)) = mset (map info_topic (held_infos w)) + mset (lost_topics w) \<and>
    distinct (map fst (live_readers (manager w))) \<and> distinct (live_subscribers (manager w)) \<and>
    distinct (live_topics (manager w)) \<and>
    length (lost_topics w) \<le> exceptions w \<and> length (lost_subscribers w) \<le> exceptions w"
  using world_inv_reachable [OF assms]
  by (simp add: world_inv_def entities_inv_def balanced_def held_infos_def reader_of_def [abs_def]
      multiset.map_comp ac_simps)

text \<open>Two creations of one topic, a third that an exception ends, and the end of the subscription.\<close>

definition throwing_view :: fastdds_view where
  "throwing_view = one_topic_view\<lparr>creation := \<lambda>_. Thrown 2\<rparr>"

definition sample_world :: fastdds_world where
  "sample_world =
     \<lparr>manager = \<lparr>fast_subscriptions = [], next_entity = 8, live_topics = [6], live_subscribers = [7],
                 live_readers = [], bad_deletes = 0\<rparr>,
      in_flight = [], closing = [], lost_topics = [6], lost_subscribers = [7], exceptions = 1\<rparr>"

lemmas fastdds_evaluation = fastdds_make_def fastdds_insert_def fastdds_release_def fastdds_entity_defs
  close_subscription_def delete_topic_def delete_subscriber_def delete_datareader_def left_topics_def
  left_subscribers_def ref_increment_def one_topic_view_def throwing_view_def fastdds_get_dynamic_type_def
  fastdds_get_domain_id_def fastdds_get_participant_def

lemma sample_world_reachable: "fastdds_step\<^sup>*\<^sup>* fastdds_start sample_world"
proof -
  let ?i = "\<lparr>info_participant = 0, info_topic = 0, info_subscriber = 1, info_reader = 2\<rparr>"
  let ?j = "\<lparr>info_participant = 0, info_topic = 3, info_subscriber = 4, info_reader = 5\<rparr>"
  let ?M = "\<lambda>fs n lt ls lr. \<lparr>fast_subscriptions = fs, next_entity = n, live_topics = lt, live_subscribers = ls,
      live_readers = lr, bad_deletes = 0\<rparr> :: fastdds_manager"
  let ?W = "\<lambda>m fl cl lt ls e. \<lparr>manager = m, in_flight = fl, closing = cl, lost_topics = lt, lost_subscribers = ls,
      exceptions = e\<rparr> :: fastdds_world"
  let ?W1 = "?W (?M [] 3 [0] [1] [(2, 1, 0)]) [(''t'', ?i)] [] [] [] 0"
  let ?W2 = "?W (?M [] 6 [3, 0] [4, 1] [(5, 4, 3), (2, 1, 0)]) [(''t'', ?j), (''t'', ?i)] [] [] [] 0"
  let ?W3 = "?W (?M [] 8 [6, 3, 0] [7, 4, 1] [(5, 4, 3), (2, 1, 0)]) [(''t'', ?j), (''t'', ?i)] [] [6] [7] 1"
  let ?W4 = "?W (?M [(''t'', \<lparr>reference_count = 1, entry = ?i\<rparr>)] 8 [6, 3, 0] [7, 4, 1] [(5, 4, 3), (2, 1, 0)])
      [(''t'', ?j)] [] [6] [7] 1"
  let ?W5 = "?W (?M [(''t'', \<lparr>reference_count = 2, entry = ?i\<rparr>)] 8 [6, 0] [7, 1] [(2, 1, 0)]) [] [] [6] [7] 1"
  let ?W6 = "?W (?M [(''t'', \<lparr>reference_count = 1, entry = ?i\<rparr>)] 8 [6, 0] [7, 1] [(2, 1, 0)]) [] [] [6] [7] 1"
  let ?W7 = "?W (?M [] 8 [6, 0] [7, 1] [(2, 1, 0)]) [] [?i] [6] [7] 1"
  have "fastdds_step fastdds_start ?W1"
    using fastdds_step.make [of one_topic_view "''t''" fastdds_start]
    by (simp add: fastdds_start_def new_fastdds_manager_def fastdds_evaluation eval_nat_numeral)
  moreover have "fastdds_step ?W1 ?W2"
    using fastdds_step.make [of one_topic_view "''t''" ?W1] by (simp add: fastdds_evaluation eval_nat_numeral)
  moreover have "fastdds_step ?W2 ?W3"
    using fastdds_step.throw [of throwing_view "''t''" ?W2 _ 2] by (simp add: fastdds_evaluation)
  moreover have "fastdds_step ?W3 ?W4"
    using fastdds_step.insert [of "''t''" ?i ?W3] by (simp add: fastdds_evaluation)
  moreover have "fastdds_step ?W4 ?W5"
    using fastdds_step.insert [of "''t''" ?j ?W4] by (simp add: fastdds_evaluation numeral_2_eq_2)
  moreover have "fastdds_step ?W5 ?W6"
    using fastdds_step.release [of "''t''" ?W5] by (simp add: fastdds_evaluation numeral_2_eq_2)
  moreover have "fastdds_step ?W6 ?W7"
    using fastdds_step.release [of "''t''" ?W6] by (simp add: fastdds_evaluation)
  moreover have "fastdds_step ?W7 sample_world"
    using fastdds_step.close [of ?i ?W7] by (simp add: fastdds_evaluation sample_world_def)
  ultimately show ?thesis by (meson converse_rtranclp_into_rtranclp rtranclp.rtrancl_refl)
qed

theorem fastdds_no_entity_leak_witness:
  "fastdds_step\<^sup>*\<^sup>* fastdds_start sample_world \<and> bad_deletes (manager sample_world) = 0 \<and>
   mset (live_topics (manager sample_world)) = mset (map info_topic (held_infos sample_world)) + {#6#} \<and>
   held_infos sample_world = []"
  using sample_world_reachable fastdds_no_entity_leak [OF sample_world_reachable]
  by (simp add: sample_world_def held_infos_def subscribed_infos_def)

text \<open>
  An exception in the creation of the reader leaves its topic and its subscriber alive, and no
  subscription that would ever delete them.
\<close>

theorem fastdds_exception_leaks:
  assumes "fastdds_get_dynamic_type t (discovered v) = Some ty" "fastdds_get_domain_id t (discovered v) = Some d"
    and "fastdds_get_participant d (discovered v) = Some p" and "creation v t = Thrown 2"
    and "map_of (fast_subscriptions m) t = None"
  shows "\<exists>h s m'. fastdds_subscribe v t ty' m = (False, m') \<and> fast_subscriptions m' = fast_subscriptions m \<and>
    live_topics m' = h # live_topics m \<and> live_subscribers m' = s # live_subscribers m \<and>
    live_readers m' = live_readers m"
  using assms
  by (simp add: fastdds_subscribe_def fastdds_find_def fastdds_create_def fastdds_make_def fastdds_entity_defs)

end
