(* ===== verification/Ingest.thy ===== *)
theory Ingest
  imports Delivery
begin

text \<open>
  The way of a message through the whole program: the wake-up of a ROS 2 subscription, the
  stripping and the copy in its callback, the message callback that the server registers, the
  buffer, a publish cycle, the frames on the socket of a client. The calls of the message
  callback are a list; each reads the system clock twice, once for the cleanup of the buffer and
  once for the message.
\<close>

section \<open>What a backend hands to the message callback\<close>

text \<open>The arguments of the message callback: topic, bytes, timestamp.\<close>

type_synonym delivery = "string \<times> bytes \<times> u64"

text \<open>
  A wake-up by the executor: the subscription, the first message, and what the reader answers to
  the takes that follow.
\<close>

record wake_up =
  woken :: string
  handed :: take_outcome
  reader :: "take_outcome list"

text \<open>The callback of the entry that the backend holds for the topic.\<close>

definition ros2_deliveries :: "ros_serialization \<Rightarrow> ros2_manager \<Rightarrow> wake_up \<Rightarrow> delivery list" where
  "ros2_deliveries lib b w =
     (case (map_of (subscriptions b) (woken w), handed w) of
        (Some e, Taken d received clock) \<Rightarrow>
          map (\<lambda>(d, ts). (woken w, ros2_callback lib (entry e) d, ts))
            (fst (handle_serialized_message d received clock (reader w)))
      | _ \<Rightarrow> [])"

section \<open>What the server does with it\<close>

definition deliver :: "(int \<times> int) \<times> delivery \<Rightarrow> ('b, 're) server \<Rightarrow> ('b, 're) server" where
  "deliver = (\<lambda>((c1, c2), (t, d, ts)). on_ingest (now_ns None c1) (now_ns None c2) t ts d)"

definition deliver_all :: "((int \<times> int) \<times> delivery) list \<Rightarrow> ('b, 're) server \<Rightarrow> ('b, 're) server" where
  "deliver_all xs s = fold deliver xs s"

fun arrival_op :: "(int \<times> int) \<times> delivery \<Rightarrow> buffer_op" where
  "arrival_op ((c1, c2), (t, d, ts)) = Add (now_ns None c1) (now_ns None c2) t ts d"

lemma deliver_all_simps [simp]: "deliver_all [] s = s" "deliver_all (x # xs) s = deliver_all xs (deliver x s)"
  by (simp_all add: deliver_all_def)

lemma deliver_fields [simp]:
  "sess (deliver x s) = sess s" "mw (deliver x s) = mw s" "backend (deliver x s) = backend s"
  "initialized (deliver x s) = initialized s" "last_sent_times (deliver x s) = last_sent_times s"
  "heavy_frame_threshold_bytes (deliver x s) = heavy_frame_threshold_bytes s"
  by (cases x; simp add: deliver_def on_ingest_def case_prod_beta)+

lemma deliver_all_fields [simp]:
  "sess (deliver_all xs s) = sess s" "mw (deliver_all xs s) = mw s" "backend (deliver_all xs s) = backend s"
  "initialized (deliver_all xs s) = initialized s" "last_sent_times (deliver_all xs s) = last_sent_times s"
  "heavy_frame_threshold_bytes (deliver_all xs s) = heavy_frame_threshold_bytes s"
  by (induction xs arbitrary: s) simp_all

lemma deliver_buf: "buf (deliver x s) = snd (buffer_step (arrival_op x) (buf s))"
  by (cases x rule: arrival_op.cases) (simp add: deliver_def on_ingest_def)

lemma deliver_all_buf: "buf (deliver_all xs s) = snd (buffer_run (map arrival_op xs) (buf s))"
  by (induction xs arbitrary: s) (simp_all add: deliver_buf buffer_run_Cons del: buffer_run.simps(2))

lemma arrivals_deliver_nothing: "fst (buffer_run (map arrival_op xs) b) t = []"
proof (induction xs arbitrary: b)
  case (Cons x xs)
  then show ?case by (cases x rule: arrival_op.cases) (simp add: case_prod_beta)
qed simp

lemma deliver_all_wf: "buffer_wf (buf s) \<Longrightarrow> buffer_wf (buf (deliver_all xs s))"
  by (induction xs arbitrary: s) (simp_all add: deliver_buf buffer_step_wf)

text \<open>Every message is counted, whether it is sent later or not.\<close>

definition count_at :: "u64 umap \<Rightarrow> string \<Rightarrow> u64" where
  "count_at m t = (case map_of m t of None \<Rightarrow> 0 | Some n \<Rightarrow> n)"

lemma arrivals_counted:
  "count_at (topic_receive_counts (deliver_all xs s)) t =
     count_at (topic_receive_counts s) t + of_nat (length (filter (\<lambda>(_, d). fst d = t) xs))"
proof (induction xs arbitrary: s)
  case (Cons x xs)
  obtain c u r where x: "x = (c, u, r)" by (cases x) auto
  have "count_at (topic_receive_counts (deliver x s)) t =
      count_at (topic_receive_counts s) t + of_bool (u = t)"
    by (simp add: x deliver_def on_ingest_def case_prod_beta count_at_def count_up_def map_of_update
        split: option.splits)
  then show ?case by (simp add: Cons.IH x)
qed simp

section \<open>Nothing is lost within a second\<close>

text \<open>The readings of the clock lie within one second of the first.\<close>

definition within_second :: "int \<Rightarrow> int \<Rightarrow> bool" where
  "within_second lo c = (lo \<le> c \<and> c \<le> lo + 1000000000)"

lemma within_second_ttl:
  assumes "within_second lo c" "0 \<le> lo" "lo + 1000000000 < 2 ^ 64"
  shows "within_ttl (of_int lo) kDefaultMaxMessageAgeNs (now_ns None c)"
proof -
  have "lo < 2 ^ 64" "c < 2 ^ 64" "0 \<le> c" using assms by (simp_all add: within_second_def)
  then have u: "uint (of_int lo :: u64) = lo" "uint (of_int c :: u64) = c"
    using assms(2) by (simp_all add: word_of_int_inverse)
  have le: "(of_int lo :: u64) \<le> of_int c" using assms(1) u by (simp add: word_le_def within_second_def)
  then have "uint (of_int c - of_int lo :: u64) = uint (of_int c :: u64) - uint (of_int lo :: u64)"
    by (simp only: uint_minus_simple_alt)
  then have "uint (of_int c - of_int lo :: u64) = c - lo" by (simp only: u)
  with assms(1) le show ?thesis
    by (simp add: within_ttl_def now_ns_def get_current_time_ns_def kDefaultMaxMessageAgeNs_def
        word_le_def within_second_def)
qed

text \<open>The message of a delivery, as the wire carries it.\<close>

definition as_wire :: "delivery \<Rightarrow> wire_message" where
  "as_wire = (\<lambda>(t, d, ts). (t, ts, d))"

lemma added_arrivals:
  "map (wire t) (added t (map arrival_op xs)) = map as_wire (filter (\<lambda>d. fst d = t) (map snd xs))"
proof (induction xs)
  case (Cons x xs)
  obtain c1 c2 u d ts where "x = ((c1, c2), (u, d, ts))" by (cases x) auto
  with Cons show ?case by (auto simp: added_def wire_def as_wire_def)
qed (simp add: added_def)

lemma arrivals_buffered:
  assumes "buffer_wf (buf s)" "max_message_age_ns (buf s) = kDefaultMaxMessageAgeNs"
    and "0 \<le> lo" "lo + 1000000000 < 2 ^ 64"
    and "\<forall>((c1, c2), _) \<in> set xs. within_second lo c1 \<and> within_second lo c2"
    and "\<forall>msg \<in> set (buffered (buf s) t). within_ttl (of_int lo) kDefaultMaxMessageAgeNs (received_at_ns msg)"
  shows "map (wire t) (buffered (buf (deliver_all xs s)) t) =
    map (wire t) (buffered (buf s) t) @ map as_wire (filter (\<lambda>d. fst d = t) (map snd xs))"
proof -
  have "op_within (of_int lo) kDefaultMaxMessageAgeNs (arrival_op x)" if "x \<in> set xs" for x
    using that assms(5) within_second_ttl [OF _ assms(3,4)] by (cases x rule: arrival_op.cases) auto
  then have "\<forall>x \<in> set (map arrival_op xs). op_within (of_int lo) (max_message_age_ns (buf s)) x"
    using assms(2) by auto
  from buffer_run_exact [OF assms(1) this, of t] assms(2,6)
  have "buffered (buf (deliver_all xs s)) t = buffered (buf s) t @ added t (map arrival_op xs)"
    by (simp add: arrivals_deliver_nothing deliver_all_buf)
  then show ?thesis by (simp add: added_arrivals)
qed

section \<open>From the frames back to the messages of a topic\<close>

lemma due_of_topic:
  assumes "unique_keys messages" "map_of subs t = Some rate" "rate_mhz rate = 0"
  shows "filter (\<lambda>w. fst w = t) (due_messages subs rep messages) =
    map (wire t) (case map_of messages t of None \<Rightarrow> [] | Some ms \<Rightarrow> ms)"
  using assms(1)
proof (induction messages)
  case (Cons tm messages)
  obtain u ms where tm: "tm = (u, ms)" by (cases tm)
  have other: "filter (\<lambda>w. fst w = t) (map (wire v) xs) = (if v = t then map (wire v) xs else [])" for v xs
    by (induction xs) (auto simp: wire_def)
  have "u = t \<Longrightarrow> map_of messages t = None"
    using Cons.prems by (auto simp: tm map_of_eq_None_iff)
  with Cons assms(2,3) show ?case
    by (cases "u = t") (auto simp: tm other split: option.splits)
qed simp

text \<open>What a client reads from its frames, and that this is the given messages of a topic.\<close>

definition read_frames :: "(bytes \<Rightarrow> bytes option) \<Rightarrow> frame list \<Rightarrow> wire_message list" where
  "read_frames unpack fs = concat (map (\<lambda>f. case decode_frame unpack f of None \<Rightarrow> [] | Some (_, ws) \<Rightarrow> ws) fs)"

definition carry_exactly ::
    "(bytes \<Rightarrow> bytes option) \<Rightarrow> nat \<Rightarrow> string \<Rightarrow> frame list \<Rightarrow> wire_message list \<Rightarrow> bool" where
  "carry_exactly unpack threshold t fs ws =
     ((\<forall>f \<in> set fs. decode_frame unpack f \<noteq> None) \<and>
      (\<forall>h. filter (\<lambda>w. heavy_wire threshold w = h) (filter (\<lambda>w. fst w = t) (read_frames unpack fs)) =
           filter (\<lambda>w. heavy_wire threshold w = h) ws))"

lemma concat_parts:
  "concat (parts threshold ws) =
     filter (\<lambda>w. \<not> heavy_wire threshold w) ws @ filter (heavy_wire threshold) ws"
  by (simp add: parts_def Let_def)

lemma readable_frames:
  assumes "readable unpack fs wss"
  shows "read_frames unpack fs = concat wss" "\<forall>f \<in> set fs. decode_frame unpack f \<noteq> None"
proof -
  have "map (decode_frame unpack) fs = map (\<lambda>ws. Some (0, ws)) wss" using assms by (simp add: readable_def)
  then show "read_frames unpack fs = concat wss"
    by (induction fs arbitrary: wss) (auto simp: read_frames_def)
  from assms show "\<forall>f \<in> set fs. decode_frame unpack f \<noteq> None"
    unfolding readable_def by (induction fs arbitrary: wss) auto
qed

lemma readable_carry_exactly:
  assumes "readable unpack fs (parts threshold due)" "filter (\<lambda>w. fst w = t) due = ws"
  shows "carry_exactly unpack threshold t fs ws"
proof -
  have "filter (\<lambda>w. heavy_wire threshold w = h) (filter (\<lambda>w. fst w = t) (concat (parts threshold due))) =
      filter (\<lambda>w. heavy_wire threshold w = h) (filter (\<lambda>w. fst w = t) due)" for h
    by (cases h) (simp_all add: concat_parts conj_commute)
  with assms show ?thesis by (simp add: carry_exactly_def readable_frames)
qed

section \<open>End to end\<close>

lemma map_of_entries_buffered:
  "unique_keys (topic_buffers b) \<Longrightarrow>
     (case map_of (entries ho (topic_buffers b)) t of None \<Rightarrow> [] | Some ms \<Rightarrow> ms) = buffered b t"
  by (simp add: map_of_entries buffered_def)

text \<open>
  A client that can be served, and that wants every message of a topic; and what is asked of the
  run: nobody is gone before the rate state is locked, the compressor is lossless, and what is
  buffered at the cycle fits the counters of a frame.
\<close>

definition wants_all :: "('b, 're) env \<Rightarrow> string \<Rightarrow> string \<Rightarrow> ('b, 're) server \<Rightarrow> bool" where
  "wants_all e c t s =
     (initialized s \<and> sessions_wf (sess s) \<and> buffer_wf (buf s) \<and> served e c s \<and>
      \<not> is_paused c (sess s) \<and>
      (case map_of (get_subscriptions c (sess s)) t of None \<Rightarrow> False | Some rate \<Rightarrow> rate_mhz rate = 0))"

definition fresh_second :: "int \<Rightarrow> ((int \<times> int) \<times> delivery) list \<Rightarrow> string \<Rightarrow> message_buffer \<Rightarrow> bool" where
  "fresh_second lo xs t b =
     (0 \<le> lo \<and> lo + 1000000000 < 2 ^ 64 \<and> max_message_age_ns b = kDefaultMaxMessageAgeNs \<and>
      (\<forall>((c1, c2), _) \<in> set xs. within_second lo c1 \<and> within_second lo c2) \<and>
      (\<forall>msg \<in> set (buffered b t). within_ttl (of_int lo) kDefaultMaxMessageAgeNs (received_at_ns msg)))"

lemma arrivals_reach_client:
  assumes "wants_all e c t s" and "fresh_second lo xs t (buf s)"
    and "gone_before_lock e = []" and "lossless (zstd e) unpack"
    and "fits (all_messages (entries (order e) (topic_buffers (buf (deliver_all xs s)))))"
  shows "\<exists>fs. wire_of (mw (publish_aggregated_messages e (deliver_all xs s))) c =
      wire_of (mw s) c @ after_backlog (backlog_of (mw s) c) fs \<and>
    carry_exactly unpack (heavy_frame_threshold_bytes s) t fs
      (map (wire t) (buffered (buf s) t) @ map as_wire (filter (\<lambda>d. fst d = t) (map snd xs)))"
proof -
  let ?s = "deliver_all xs s"
  let ?messages = "entries (order e) (topic_buffers (buf ?s))"
  have wf: "buffer_wf (buf s)" "buffer_wf (buf ?s)" using assms(1) by (simp_all add: wants_all_def deliver_all_wf)
  then have u: "unique_keys (topic_buffers (buf ?s))" "unique_keys ?messages"
    by (simp_all add: buffer_wf_def distinct_entries)
  obtain rate where rate: "map_of (get_subscriptions c (sess s)) t = Some rate" "rate_mhz rate = 0"
    using assms(1) by (auto simp: wants_all_def split: option.splits)
  define rep where "rep = map_at (hd (group_members (sess ?s) (get_active_sessions (order e) (sess ?s)) c))
    (last_sent_times ?s)"
  define due where "due = due_messages (get_subscriptions c (sess s)) rep ?messages"
  have "\<exists>fs. readable unpack fs (parts (heavy_frame_threshold_bytes ?s)
      (due_messages (get_subscriptions c (sess ?s)) (map_at (hd (group_members (sess ?s)
        (get_active_sessions (order e) (sess ?s)) c)) (last_sent_times ?s)) ?messages)) \<and>
    wire_of (mw (publish_aggregated_messages e ?s)) c = wire_of (mw ?s) c @ after_backlog (backlog_of (mw ?s) c) fs"
    using assms(1,3-5) wf by (intro publish_reaches) (simp_all add: wants_all_def served_def)
  then obtain fs where fs: "readable unpack fs (parts (heavy_frame_threshold_bytes s) due)"
      "wire_of (mw (publish_aggregated_messages e ?s)) c = wire_of (mw s) c @ after_backlog (backlog_of (mw s) c) fs"
    by (auto simp: due_def rep_def)
  have "filter (\<lambda>w. fst w = t) due = map (wire t) (buffered (buf ?s) t)"
    unfolding due_def due_of_topic [OF u(2) rate] map_of_entries_buffered [OF u(1)] ..
  also have "\<dots> = map (wire t) (buffered (buf s) t) @ map as_wire (filter (\<lambda>d. fst d = t) (map snd xs))"
    using assms(2) wf(1) by (intro arrivals_buffered [where lo = lo]) (auto simp: fresh_second_def)
  finally show ?thesis using readable_carry_exactly [OF fs(1)] fs(2) by blast
qed

text \<open>What the wake-ups of a topic bring: each message as the callback of its subscription leaves it.\<close>

definition brought :: "ros_serialization \<Rightarrow> ros2_subscription \<Rightarrow> wake_up \<Rightarrow> wire_message list" where
  "brought lib sub w =
     map (\<lambda>m. (woken w, snd (taken_message m), ros2_callback lib sub (fst (taken_message m))))
       (handed w # takeWhile taken (take kMaxDrainPerCallback (reader w)))"

lemma brought_deliveries:
  assumes "map_of (subscriptions b) t = Some e" "\<forall>w \<in> set ws. taken (handed w)"
  shows "map as_wire (filter (\<lambda>d. fst d = t) (concat (map (ros2_deliveries lib b) ws))) =
    concat (map (brought lib (entry e)) (filter (\<lambda>w. woken w = t) ws))"
  using assms(2)
proof (induction ws)
  case (Cons w ws)
  obtain d r k where h: "handed w = Taken d r k" using Cons.prems by (cases "handed w") auto
  have other: "woken w \<noteq> t \<Longrightarrow> filter (\<lambda>d. fst d = t) (ros2_deliveries lib b w) = []"
    by (auto simp: ros2_deliveries_def h filter_empty_conv split: option.splits)
  have "woken w = t \<Longrightarrow> filter (\<lambda>d. fst d = t) (ros2_deliveries lib b w) = ros2_deliveries lib b w"
    by (auto simp: ros2_deliveries_def h assms(1) filter_id_conv)
  moreover have "woken w = t \<Longrightarrow> map as_wire (ros2_deliveries lib b w) = brought lib (entry e) w"
    by (simp add: ros2_deliveries_def h assms(1) handle_serialized_message_def drain_prefix brought_def
        as_wire_def case_prod_beta)
  ultimately show ?case using Cons other by (cases "woken w = t") simp_all
qed simp

text \<open>
  C4. From the subscription to the socket. Take a client that is served, not paused and
  subscribed to a topic without a rate limit. Subscriptions of the ROS 2 backend wake up in any
  order, within the second that a message is kept, and then a publish cycle runs. The client's
  socket accepts its backlog and then frames from which it reads, for that topic, exactly the
  messages that were buffered before and those that the wake-ups brought, stripped where the
  subscription strips: none missing, none twice, in order among those below the heavy threshold
  and among the others.
\<close>

theorem ros2_end_to_end:
  assumes "wants_all e c t s" and "map_of (subscriptions (backend s)) t = Some sub"
    and "\<forall>w \<in> set ws. taken (handed w)"
    and "length readings = length (concat (map (ros2_deliveries lib (backend s)) ws))"
    and "xs = zip readings (concat (map (ros2_deliveries lib (backend s)) ws))"
    and "fresh_second lo xs t (buf s)"
    and "gone_before_lock e = []" and "lossless (zstd e) unpack"
    and "fits (all_messages (entries (order e) (topic_buffers (buf (deliver_all xs s)))))"
  shows "\<exists>fs. wire_of (mw (publish_aggregated_messages e (deliver_all xs s))) c =
      wire_of (mw s) c @ after_backlog (backlog_of (mw s) c) fs \<and>
    carry_exactly unpack (heavy_frame_threshold_bytes s) t fs
      (map (wire t) (buffered (buf s) t) @
       concat (map (brought lib (entry sub)) (filter (\<lambda>w. woken w = t) ws)))"
proof -
  have "map snd xs = concat (map (ros2_deliveries lib (backend s)) ws)"
    unfolding assms(5) by (rule map_snd_zip [OF assms(4)])
  with arrivals_reach_client [OF assms(1,6-9)] show ?thesis
    by (simp only: brought_deliveries [OF assms(2,3)])
qed

text \<open>The sample subscription wakes up with two messages, the second a heavy one.\<close>

abbreviation sample_wake_up :: wake_up where
  "sample_wake_up \<equiv> \<lparr>woken = ''/a'', handed = Taken [9] 0 5,
     reader = [Taken [1, 2, 3, 4, 5, 6, 7, 8] 7 6, Nothing_Left]\<rparr>"

abbreviation sample_arrivals :: "((int \<times> int) \<times> delivery) list" where
  "sample_arrivals \<equiv> [((5, 5), (''/a'', [9], 5)), ((6, 6), (''/a'', [1, 2, 3, 4, 5, 6, 7, 8], 7))]"

definition no_serialization :: ros_serialization where
  "no_serialization = \<lparr>ros_deserialize = \<lambda>_ _. Inl ''unknown type'', ros_serialize = \<lambda>_ _. Inl ''unknown type''\<rparr>"

lemma sample_wants_all: "wants_all sample_ros_env ''c'' ''/a'' sample_ros_server"
  using ros2_reachable(5,6) [OF sample_ros_reachable]
  by (simp add: wants_all_def sample_ros_state served_def healthy_def calm_network_def is_paused_def
      sample_session_def get_subscriptions_def rate_mhz_def mw_wf_def sample_mw_def kMaxIncomingQueueSize_def)

lemma sample_deliveries:
  "concat (map (ros2_deliveries no_serialization (backend sample_ros_server)) [sample_wake_up]) =
     map snd sample_arrivals"
  by (simp add: ros2_deliveries_def sample_ros_state sample_ros_subscribed_def handle_serialized_message_def
      kMaxDrainPerCallback_def eval_nat_numeral receive_time_ns_def get_current_time_ns_def ros2_callback_def)

lemma sample_arrivals_buffer:
  "topic_buffers (buf (deliver_all sample_arrivals sample_ros_server)) =
     [(''/a'', [\<lparr>timestamp_ns = 5, received_at_ns = 5, payload = [9]\<rparr>,
                \<lparr>timestamp_ns = 7, received_at_ns = 6, payload = [1, 2, 3, 4, 5, 6, 7, 8]\<rparr>])]"
  by (simp add: deliver_def on_ingest_def sample_ros_state add_message_def push_back_def too_old_def
      cleanup_old_messages_def set_latched_def new_message_buffer_def buffered_def now_ns_def
      get_current_time_ns_def kDefaultMaxMessageAgeNs_def Let_def)

theorem ros2_end_to_end_witness:
  "\<exists>fs. wire_of (mw (publish_aggregated_messages sample_ros_env
        (deliver_all sample_arrivals sample_ros_server))) ''c'' = fs \<and>
     carry_exactly Some 8 ''/a'' fs [(''/a'', 5, [9]), (''/a'', 7, [1, 2, 3, 4, 5, 6, 7, 8])]"
proof -
  let ?s = "sample_ros_server" and ?ws = "[sample_wake_up]" and ?readings = "[(5, 5), (6, 6)] :: (int \<times> int) list"
  let ?sub = "\<lparr>reference_count = 1,
    entry = \<lparr>transient_local = True, sub_topic_type = ''T'', needs_stripping = False\<rparr>\<rparr>"
  have sub: "map_of (subscriptions (backend ?s)) ''/a'' = Some ?sub"
    by (simp add: sample_ros_state sample_ros_subscribed_def)
  have taken: "\<forall>w \<in> set ?ws. taken (handed w)" by simp
  have len: "length ?readings = length (concat (map (ros2_deliveries no_serialization (backend ?s)) ?ws))"
    unfolding sample_deliveries by simp
  have xs: "sample_arrivals = zip ?readings (concat (map (ros2_deliveries no_serialization (backend ?s)) ?ws))"
    unfolding sample_deliveries by simp
  have quiet: "buffered (buf ?s) ''/a'' = []" "max_message_age_ns (buf ?s) = kDefaultMaxMessageAgeNs"
    by (simp_all add: sample_ros_state buffered_set_latched)
  then have fresh: "fresh_second 5 sample_arrivals ''/a'' (buf ?s)"
    by (simp add: fresh_second_def within_second_def)
  have z: "lossless (zstd sample_ros_env) Some" by (simp add: lossless_def)
  have f: "fits (all_messages (entries (order sample_ros_env) (topic_buffers (buf (deliver_all sample_arrivals ?s)))))"
    unfolding sample_arrivals_buffer
    by (simp add: entries_insertion fits_def all_messages_def wire_def well_sized_def message_bytes_split unsigned_of_nat)
  have w: "wire_of (mw ?s) ''c'' = []" "backlog_of (mw ?s) ''c'' = []" "heavy_frame_threshold_bytes ?s = 8"
    by (simp_all add: sample_ros_state wire_of_def backlog_of_def sample_mw_def) (simp add: sample_state_def)
  have b: "brought no_serialization (entry ?sub) sample_wake_up =
      [(''/a'', 5, [9]), (''/a'', 7, [1, 2, 3, 4, 5, 6, 7, 8])]"
    by (simp add: brought_def kMaxDrainPerCallback_def receive_time_ns_def get_current_time_ns_def
        ros2_callback_def)
  have g: "gone_before_lock sample_ros_env = []" by simp
  have e: "map (wire ''/a'') (buffered (buf ?s) ''/a'') @
      concat (map (brought no_serialization (entry ?sub)) (filter (\<lambda>w. woken w = ''/a'') ?ws)) =
      [(''/a'', 5, [9]), (''/a'', 7, [1, 2, 3, 4, 5, 6, 7, 8])]"
    unfolding quiet by (simp only: b list.map append_Nil concat.simps append_Nil2 filter.simps wake_up.simps refl if_True)
  from ros2_end_to_end [OF sample_wants_all sub taken len xs fresh g z f, unfolded e w after_backlog_def append_Nil if_cancel]
  show ?thesis by (auto split: if_splits)
qed

end
