(* ===== verification/Middleware_Interface.thy ===== *)
theory Middleware_Interface
  imports Websocket_Middleware
begin

text \<open>
  The transport as the server sees it (\<^verbatim>\<open>middleware_interface.hpp\<close>): the virtual methods as a
  record of functions on the state of the implementation, indexed by what the outside answers
  during the call, the promises of the comments as a locale, and the WebSocket middleware as the
  implementation that keeps them.
\<close>

section \<open>The virtual methods\<close>

record 'm mw_ops =
  op_initialize :: "u16 \<Rightarrow> 'm \<Rightarrow> (string + unit) \<times> 'm"
  op_shutdown :: "'m \<Rightarrow> 'm"
  op_receive_request :: "'m \<Rightarrow> (string \<times> bytes) option \<times> 'm"
  op_send_reply :: "string \<Rightarrow> bytes \<Rightarrow> 'm \<Rightarrow> bool \<times> 'm"
  op_publish_data :: "bytes \<Rightarrow> 'm \<Rightarrow> bool \<times> 'm"
  op_send_binary :: "string \<Rightarrow> frame \<Rightarrow> frame_priority \<Rightarrow> 'm \<Rightarrow> send_result \<times> 'm"
  op_drop_pending :: "string \<Rightarrow> 'm \<Rightarrow> 'm"
  op_is_ready :: "'m \<Rightarrow> bool"
  op_set_on_connect :: "'m \<Rightarrow> 'm"
  op_set_on_disconnect :: "'m \<Rightarrow> 'm"

definition default_drop_pending :: "string \<Rightarrow> 'm \<Rightarrow> 'm" where
  "default_drop_pending c m = m"

text \<open>What the WebSocket library and the clock answer, and the order of the client container.\<close>

record outside =
  out_listener :: listener
  out_network :: network
  out_now :: int
  out_order :: hash_order

definition websocket_ops :: "outside \<Rightarrow> middleware mw_ops" where
  "websocket_ops g =
     \<lparr>op_initialize = mw_initialize (out_listener g), op_shutdown = shutdown,
      op_receive_request = receive_request, op_send_reply = send_reply (out_network g),
      op_publish_data = publish_data (out_network g) (out_order g),
      op_send_binary = send_binary (out_network g) (out_now g), op_drop_pending = drop_pending,
      op_is_ready = is_ready, op_set_on_connect = set_on_connect,
      op_set_on_disconnect = set_on_disconnect\<rparr>"

section \<open>The promises\<close>

text \<open>
  \<open>sent\<close> is what the socket of a client has accepted, \<open>waiting\<close> what is queued for it. A frame
  that is reported shed, or whose client is gone, never reaches the client: nothing is added to
  the two.
\<close>

fun counts_as_forwarded :: "send_result \<Rightarrow> bool" where
  "counts_as_forwarded KDelivered = True"
| "counts_as_forwarded KQueued = True"
| "counts_as_forwarded KShed = False"
| "counts_as_forwarded KClientGone = False"

locale middleware_contract =
  fixes ops :: "'g \<Rightarrow> 'm mw_ops"
    and inv :: "'m \<Rightarrow> bool"
    and connected :: "'m \<Rightarrow> string set"
    and sent :: "'m \<Rightarrow> string \<Rightarrow> frame list"
    and waiting :: "'m \<Rightarrow> string \<Rightarrow> frame list"
  assumes initialize_law: "inv m \<Longrightarrow> op_initialize (ops g) n m = (res, m') \<Longrightarrow>
      inv m' \<and> (case res of Inl _ \<Rightarrow> m' = m | Inr _ \<Rightarrow> op_is_ready (ops g) m')"
    and shutdown_law: "inv m \<Longrightarrow> inv (op_shutdown (ops g) m) \<and>
      \<not> op_is_ready (ops g) (op_shutdown (ops g) m) \<and> connected (op_shutdown (ops g) m) = {}"
    and unready_law: "\<not> op_is_ready (ops g) m \<Longrightarrow> op_receive_request (ops g) m = (None, m)"
    and reply_law: "inv m \<Longrightarrow> op_send_reply (ops g) c d m = (ok, m') \<Longrightarrow>
      inv m' \<and> sent m' = sent m \<and> (ok \<longrightarrow> c \<in> connected m)"
    and binary_law: "inv m \<Longrightarrow> op_send_binary (ops g) c f p m = (r, m') \<Longrightarrow>
      inv m' \<and> (r = KQueued \<and> c \<in> connected m' \<longrightarrow> p = KNormal) \<and>
      (c \<in> connected m' \<longrightarrow> c \<in> connected m \<and>
        mset (sent m' c @ waiting m' c) \<subseteq>#
          mset (sent m c @ waiting m c) + (if counts_as_forwarded r then {#f#} else {#}))"
    and drop_pending_law: "inv m \<Longrightarrow> inv (op_drop_pending (ops g) c m) \<and>
      sent (op_drop_pending (ops g) c m) = sent m \<and> waiting (op_drop_pending (ops g) c m) c = []"
begin

text \<open>A history of sends to one client, with the frames that are counted as forwarded.\<close>

fun sends :: "string \<Rightarrow> ('g \<times> frame \<times> frame_priority) list \<Rightarrow> 'm \<Rightarrow> frame list \<times> 'm" where
  "sends c [] m = ([], m)"
| "sends c ((g, f, p) # xs) m =
     (let (r, m1) = op_send_binary (ops g) c f p m; (fs, m2) = sends c xs m1
      in (if counts_as_forwarded r then f # fs else fs, m2))"

lemma sends_accounted:
  assumes "inv m" "sends c xs m = (fs, m')" "c \<in> connected m'"
  shows "c \<in> connected m \<and> mset (sent m' c @ waiting m' c) \<subseteq># mset (sent m c @ waiting m c) + mset fs"
  using assms
proof (induction xs arbitrary: m fs)
  case (Cons x xs)
  obtain g f p where x: "x = (g, f, p)" by (cases x)
  obtain r m1 where b: "op_send_binary (ops g) c f p m = (r, m1)" by fastforce
  obtain gs where s: "sends c xs m1 = (gs, m')" and fs: "fs = (if counts_as_forwarded r then f # gs else gs)"
    using Cons.prems(2) b by (auto simp: x split: prod.splits)
  from binary_law [OF Cons.prems(1) b] have l: "inv m1" "c \<in> connected m1 \<Longrightarrow> c \<in> connected m \<and>
      mset (sent m1 c @ waiting m1 c) \<subseteq># mset (sent m c @ waiting m c) + (if counts_as_forwarded r then {#f#} else {#})"
    by blast+
  from Cons.IH [OF l(1) s Cons.prems(3)] have i: "c \<in> connected m1"
      "mset (sent m' c @ waiting m' c) \<subseteq># mset (sent m1 c @ waiting m1 c) + mset gs" by blast+
  note i(2)
  also have "mset (sent m1 c @ waiting m1 c) + mset gs \<subseteq>#
      mset (sent m c @ waiting m c) + (if counts_as_forwarded r then {#f#} else {#}) + mset gs"
    using l(2) [OF i(1)] by (intro subset_mset.add_right_mono) blast
  finally show ?case using l(2) [OF i(1)] by (cases "counts_as_forwarded r") (simp_all add: fs)
qed simp

end

section \<open>The WebSocket middleware keeps them\<close>

lemma send_reply_effect:
  assumes "mw_wf m" "send_reply nw c d m = (ok, m')"
  shows "mw_wf m' \<and> wire_of m' = wire_of m \<and> (ok \<longrightarrow> c \<in> set (clients m))"
proof -
  have "mw_wf m'" using send_reply_wf [OF assms(1), of nw c d] assms(2) by simp
  moreover have "wire_of m' = wire_of m"
    using assms(2) by (auto simp: send_reply_def Let_def wire_of_observe split: if_splits)
  ultimately show ?thesis using assms(2) by (auto simp: send_reply_def split: if_splits)
qed

lemma send_binary_accounted:
  assumes "mw_wf m" "send_binary nw now c f p m = (r, m')" "c \<in> set (clients m')"
  shows "mset (wire_of m' c @ backlog_of m' c) \<subseteq>#
    mset (wire_of m c @ backlog_of m c) + (if counts_as_forwarded r then {#f#} else {#})"
proof -
  obtain n where n: "wire_of m' c = wire_of m c @ take n (backlog_of m c) @ (if r = KDelivered then [f] else [])"
      "let rest = drop n (backlog_of m c)
       in case r of
            KDelivered \<Rightarrow> backlog_of m' c = rest
          | KShed \<Rightarrow> p = KHeavy \<and> backlog_of m' c = rest
          | KQueued \<Rightarrow> p = KNormal \<and>
              (\<exists>k. backlog_of m' c = drop k (rest @ [f]) \<and> length (backlog_of m' c) \<le> client_backlog_size m)
          | KClientGone \<Rightarrow> backlog_of m' c = rest \<or> backlog_of m' c = tl rest"
    using send_binary_effect [OF assms] by blast
  have b: "mset (backlog_of m c) = mset (take n (backlog_of m c)) + mset (drop n (backlog_of m c))"
    by (metis append_take_drop_id mset_append)
  have drops: "mset (drop k xs) \<subseteq># mset xs" for k and xs :: "frame list"
    by (metis append_take_drop_id mset_append mset_subset_eq_add_right)
  show ?thesis
  proof (cases r)
    case KQueued
    then obtain k where "backlog_of m' c = drop k (drop n (backlog_of m c) @ [f])" using n(2) by (auto simp: Let_def)
    then have "mset (backlog_of m' c) \<subseteq># mset (drop n (backlog_of m c)) + {#f#}"
      using drops [of k "drop n (backlog_of m c) @ [f]"] by simp
    then show ?thesis using KQueued by (simp add: n(1) b)
  next
    case KClientGone
    have "mset (tl (drop n (backlog_of m c))) \<subseteq># mset (drop n (backlog_of m c))"
      by (cases "drop n (backlog_of m c)") simp_all
    with KClientGone n(2) have "mset (backlog_of m' c) \<subseteq># mset (drop n (backlog_of m c))" by (auto simp: Let_def)
    then show ?thesis using KClientGone by (simp add: n(1) b)
  qed (use n in \<open>simp_all add: b Let_def\<close>)
qed

interpretation websocket: middleware_contract websocket_ops mw_wf "\<lambda>m. set (clients m)" wire_of backlog_of
proof unfold_locales
  fix g m m' c f p r res n d ok
  show "\<not> op_is_ready (websocket_ops g) m \<Longrightarrow> op_receive_request (websocket_ops g) m = (None, m)"
    by (simp add: websocket_ops_def is_ready_def receive_request_def)
  assume wf: "mw_wf m"
  { assume i: "op_initialize (websocket_ops g) n m = (res, m')"
    have "mw_wf m'" using mw_initialize_wf [OF wf, of "out_listener g" n] i by (simp add: websocket_ops_def)
    with i show "mw_wf m' \<and> (case res of Inl _ \<Rightarrow> m' = m | Inr _ \<Rightarrow> op_is_ready (websocket_ops g) m')"
      by (auto simp: websocket_ops_def mw_initialize_def is_ready_def split: if_splits option.splits sum.splits) }
  show "mw_wf (op_shutdown (websocket_ops g) m) \<and>
      \<not> op_is_ready (websocket_ops g) (op_shutdown (websocket_ops g) m) \<and>
      set (clients (op_shutdown (websocket_ops g) m)) = {}"
    using shutdown_wf [OF wf] wf by (auto simp: websocket_ops_def is_ready_def shutdown_def mw_wf_def)
  { assume "op_send_reply (websocket_ops g) c d m = (ok, m')"
    then show "mw_wf m' \<and> wire_of m' = wire_of m \<and> (ok \<longrightarrow> c \<in> set (clients m))"
      using send_reply_effect [OF wf] by (simp add: websocket_ops_def) }
  { assume "op_send_binary (websocket_ops g) c f p m = (r, m')"
    then have b: "send_binary (out_network g) (out_now g) c f p m = (r, m')" by (simp add: websocket_ops_def)
    show "mw_wf m' \<and> (r = KQueued \<and> c \<in> set (clients m') \<longrightarrow> p = KNormal) \<and>
        (c \<in> set (clients m') \<longrightarrow> c \<in> set (clients m) \<and>
          mset (wire_of m' c @ backlog_of m' c) \<subseteq>#
            mset (wire_of m c @ backlog_of m c) + (if counts_as_forwarded r then {#f#} else {#}))"
      using send_binary_wf [OF wf b] send_binary_accounted [OF wf b] send_binary_effect [OF wf b]
      by (auto simp: Let_def) }
  show "mw_wf (op_drop_pending (websocket_ops g) c m) \<and>
      wire_of (op_drop_pending (websocket_ops g) c m) = wire_of m \<and>
      backlog_of (op_drop_pending (websocket_ops g) c m) c = []"
    using drop_pending_wf [OF wf, of c] mw_wf_unique [OF wf]
    by (simp add: websocket_ops_def wire_of_def mw_simps fun_eq_iff backlog_of_def drop_pending_def Let_def
        fold_pending_pending)
qed

text \<open>
  Only frames that were counted as forwarded reach a client: over any history of sends, what its
  socket has accepted and what waits for it is, with multiplicities, among what was there before
  and the frames reported delivered or queued.
\<close>

theorem only_forwarded_frames:
  assumes "mw_wf m" and "websocket.sends c xs m = (fs, m')" and "c \<in> set (clients m')"
  shows "mset (wire_of m' c @ backlog_of m' c) \<subseteq># mset (wire_of m c @ backlog_of m c) + mset fs"
  using websocket.sends_accounted [OF assms] by blast

text \<open>
  The converse is not promised by the code: a frame that was reported queued can still be
  dropped, by the frames that are queued after it.
\<close>

definition congested_outside :: outside where
  "congested_outside =
     \<lparr>out_listener = plain_listener, out_network = calm_network (\<lambda>_. 5), out_now = 0,
      out_order = insertion_order\<rparr>"

abbreviation queued_frames :: "frame list \<times> middleware" where
  "queued_frames \<equiv> websocket.sends ''a'' (map (\<lambda>f. (congested_outside, f, KNormal)) [[2], [3], [4]]) congested"

theorem queued_frame_dropped:
  "fst queued_frames = [[2], [3], [4]] \<and> wire_of (snd queued_frames) ''a'' = [] \<and>
   backlog_of (snd queued_frames) ''a'' = [[3], [4]]"
  by (simp add: congested_outside_def websocket_ops_def congested_state send_binary_def run_backpressure_def
      client_callables_def calm_network_def backlog_size_def frame_queue_size_def observe_def push_def
      drop_warning_def wire_of_def backlog_of_def Let_def)

theorem only_forwarded_frames_witness:
  "mset [[3], [4]] \<subseteq># mset [[1]] + mset [[2], [3], [4] :: frame]"
proof -
  have "''a'' \<in> set (clients (snd queued_frames))"
    by (simp add: congested_outside_def websocket_ops_def congested_state send_binary_def run_backpressure_def
      client_callables_def calm_network_def backlog_size_def frame_queue_size_def observe_def push_def
      drop_warning_def Let_def)
  from only_forwarded_frames [OF congested_wf, of "''a''" _ "fst queued_frames" "snd queued_frames", OF _ this]
  have "mset (wire_of (snd queued_frames) ''a'' @ backlog_of (snd queued_frames) ''a'') \<subseteq>#
      mset (wire_of congested ''a'' @ backlog_of congested ''a'') + mset (fst queued_frames)"
    by (metis prod.collapse)
  then show ?thesis
    by (simp only: queued_frame_dropped) (simp add: congested_state wire_of_def backlog_of_def)
qed

end
