(* ===== verification/Spec2Isabelle.thy ===== *)
theory Spec2Isabelle
  imports Request_Claims Topic_Sources Locking Confinement Responses Rate_State Command_Line Dds_Lifecycle Dds_Entities Ingest Middleware_Interface
begin

text \<open>
  PlotJuggler Bridge: a server that subscribes to ROS 2 or DDS topics on behalf of WebSocket
  clients and sends them the messages, aggregated and compressed, at a fixed rate. This is the
  root of a model of its C++ code, with the properties that make it correct.

  The program. A client's requests are JSON texts; the WebSocket middleware queues them and the
  main loop hands them to \<^verbatim>\<open>BridgeServer\<close>, whose handlers change the client's session, take or
  release references in the subscription manager of the backend, and answer. Messages arrive on
  threads of the backend and go into the message buffer. The publish loop drains the buffer,
  groups the clients with equal subscriptions, serializes and compresses one frame per group
  (and one per large message), and gives it to the middleware, which sends it or, when the
  client's socket is congested, queues it in a bounded backlog or sheds it. Timeouts and
  disconnects clean sessions up. The handlers and the cleanup exclude each other through one
  mutex; the other classes lock their own.

  Theories and code (paths under \<^verbatim>\<open>src/\<close>).
  \<^item> \<^verbatim>\<open>Prelude\<close>: machine types, hash containers with an unspecified order, lemmas on association
    lists. \<^verbatim>\<open>Double_Arith\<close>: doubles as rationals with rounding to 53 bits.
  \<^item> \<^verbatim>\<open>Protocol\<close>: constants and JSON access (\<^verbatim>\<open>app/.../protocol_constants.hpp\<close>), rates.
  \<^item> \<^verbatim>\<open>Session_Manager\<close>, \<^verbatim>\<open>Message_Buffer\<close>, \<^verbatim>\<open>Message_Serializer\<close>, \<^verbatim>\<open>Whitelist_Filter\<close>: the
    classes of the same names under \<^verbatim>\<open>app/src\<close>, one definition per method.
  \<^item> \<^verbatim>\<open>Bounded_Frame_Queue\<close>, \<^verbatim>\<open>Backpressure\<close>, \<^verbatim>\<open>Websocket_Middleware\<close>:
    \<^verbatim>\<open>app/.../middleware\<close>. The first two state their contracts as locales (a queue that drops its
    oldest element, a transport), interpreted on the code's queue and on a client's socket.
    \<^verbatim>\<open>Middleware_Interface\<close>: the virtual methods of \<^verbatim>\<open>middleware_interface.hpp\<close> and what its
    comments promise, as a locale, on the WebSocket middleware.
  \<^item> \<^verbatim>\<open>Subscription_Manager\<close>: the interface \<^verbatim>\<open>subscription_manager_interface.hpp\<close> and its contract,
    reference counting, as locales; \<^verbatim>\<open>Ros2_Subscriptions\<close> (\<^verbatim>\<open>ros2/src\<close>) and \<^verbatim>\<open>Dds_Subscriptions\<close>
    with \<^verbatim>\<open>Dds_Discovery\<close> (\<^verbatim>\<open>fastdds/src\<close>, \<^verbatim>\<open>rti/src\<close>) implement and interpret it.
    \<^verbatim>\<open>Message_Stripper\<close>: \<^verbatim>\<open>ros2/src/message_stripper.cpp\<close>. \<^verbatim>\<open>Dds_Lifecycle\<close>: the library
    entities that the DDS topic sources create and delete.
  \<^item> \<^verbatim>\<open>Bridge_Server\<close>, \<^verbatim>\<open>Publish_Loop\<close>: \<^verbatim>\<open>app/src/bridge_server.cpp\<close>, the handlers, cleanup,
    notifications and statistics, and the publish loop.
  \<^item> \<^verbatim>\<open>Schema_Extractor\<close>, \<^verbatim>\<open>Ros2_Topic_Source\<close>: \<^verbatim>\<open>ros2/src/schema_extractor.cpp\<close>,
    \<^verbatim>\<open>topic_discovery.cpp\<close>, \<^verbatim>\<open>ros2_topic_source.cpp\<close>. \<^verbatim>\<open>Topic_Sources\<close>: the interface
    \<^verbatim>\<open>topic_source_interface.hpp\<close>, with a locale for what the server needs of a source, on the
    three sources.
  \<^item> \<^verbatim>\<open>Event_Loop\<close>: \<^verbatim>\<open>app/src/standalone_event_loop.cpp\<close>; \<^verbatim>\<open>Startup\<close>: the three \<^verbatim>\<open>main.cpp\<close>,
    and \<^verbatim>\<open>Command_Line\<close> the option declarations of the two DDS programs.
  \<^item> \<^verbatim>\<open>Lock_Order\<close>, \<^verbatim>\<open>Locking\<close>: threads that acquire and release mutexes, and for every function
    the guards it opens, in the order of the code.

  State and operations. A class is a record and a method a function on it; an exception or an
  error return is a value. Whatever a call asks of the outside is an argument: clocks, the order
  of a hash container, the topic source, the libraries for JSON, Zstandard and regular
  expressions, the network, the DDS and ROS graphs. In the server these are the fields of the
  record \<open>env\<close>. The network is a function of the history of socket calls, so it may answer
  differently each time, and may report connections closed during any call. What other threads do
  is explicit: disconnects that are handled just before a handler gets the mutex
  (\<open>gone_before_lock\<close>) or during a socket call, and the events of a turn of the main loop.

  What the lemmas show.
  \<^item> \<^verbatim>\<open>Server_Invariants\<close>, \<^verbatim>\<open>Server_Properties\<close>, \<^verbatim>\<open>Server_Claims\<close>: the server as a step relation
    (\<open>server_step\<close>) over any interleaving of its calls; in every reachable state the references of
    the backend are those the sessions hold, for any backend that keeps the contract, hence for
    the three of the program. \<^verbatim>\<open>Confinement\<close>: over the same calls, with any backend, clients get
    only what the whitelist admits.
  \<^item> \<^verbatim>\<open>Locking\<close>: all calls follow one order of the mutexes, so no interleaving of any number of
    threads deadlocks on them; a publish that held the client map across a socket call would.
  \<^item> \<^verbatim>\<open>Command_Line\<close>, \<^verbatim>\<open>Startup\<close>: how the programs end. \<^verbatim>\<open>Dds_Lifecycle\<close>: what the DDS sources
    leave behind. \<^verbatim>\<open>Dds_Entities\<close>: the Fast DDS entities under interleaved calls of the manager,
    whose deletions are assumed not to throw; its creations may.
  \<^item> \<^verbatim>\<open>Handler_Properties\<close>, \<^verbatim>\<open>Handler_Claims\<close>, \<^verbatim>\<open>Request_Claims\<close>: the effect of each handler, the
    order of what is sent, timeouts and notifications. \<^verbatim>\<open>Publish_Properties\<close>: the frames decode to
    the messages that are due; \<^verbatim>\<open>Delivery\<close>: from the buffer to the wire, through grouping,
    frames, backpressure and socket; \<^verbatim>\<open>Ingest\<close>: the whole way, from the wake-up of a ROS 2
    subscription to the frames of a client. \<^verbatim>\<open>Responses\<close>: every request is answered, and what a
    subscribe is answered. \<^verbatim>\<open>Rate_State\<close>: two ways in which the times of the rate gate go
    wrong. \<^verbatim>\<open>Sample_Run\<close> is the concrete run that the witnesses use.
  \<^item> \<^verbatim>\<open>Schema_Properties\<close>: a schema is the text of the type and of all it mentions, each once.
  \<^item> \<^verbatim>\<open>Event_Loop_Claims\<close>: cadence and shutdown of the main loop, within \<open>server_reachable\<close>.

  Bounds and fuel. Integers have the width of the code where it matters (lengths in frames,
  counters, timestamps, depths) and are unbounded elsewhere. The recursion of the schema
  extractor takes fuel, the number of packages times files plus cached texts plus two: each
  nested call is for a type not seen before that has a file, or fails at once; it is proved never
  to run out. The request loop has the code's own bound of 256. A run of the main loop is over a
  given list of turns.

  Not modelled. Log lines and the text of the statistics; the insides of the third-party libraries
  (IXWebSocket, nlohmann::json, Zstandard, std::regex, CLI11, rclcpp, Fast DDS, RTI Connext),
  which are parameters; the locks that rclcpp and the DDS libraries hold during their callbacks,
  and threads waiting for each other to end; data races below the granularity of the critical sections; the unit
  tests and mocks.
\<close>

end
